(* ===== verification/Prelude.thy ===== *)
theory Prelude
  imports Main "HOL-Library.Word"
begin

text \<open>
  Shared vocabulary of the development: the machine integers of the bridge as words, Rust's
  conversions between them, the result types for fallible code, and the generic facts about words,
  lists and options that the component theories rely on.
\<close>

unbundle bit_operations_syntax

type_synonym u8 = "8 word"
type_synonym u32 = "32 word"
type_synonym u64 = "64 word"
type_synonym bytes = "u8 list"

named_theorems varint_simps
named_theorems codec_laws

text \<open>
  Fallible code returns a sum: \<open>Inl\<close> is the Rust \<open>Err\<close> (or a panic, where the component's error type
  has one), \<open>Inr\<close> the Rust \<open>Ok\<close>. \<open>bindE\<close> is the \<open>?\<close> operator.
\<close>

definition bindE :: "'e + 'a \<Rightarrow> ('a \<Rightarrow> 'e + 'b) \<Rightarrow> 'e + 'b" where
  "bindE m f = (case m of Inl e \<Rightarrow> Inl e | Inr x \<Rightarrow> f x)"

lemma bindE_simps [simp]:
  "bindE (Inl e) f = Inl e"
  "bindE (Inr x) f = f x"
  by (simp_all add: bindE_def)

lemma bindE_eq_Inr [simp]: "bindE m f = Inr y \<longleftrightarrow> (\<exists>x. m = Inr x \<and> f x = Inr y)"
  by (cases m) auto

lemma bindE_eq_Inl: "bindE m f = Inl e \<longleftrightarrow> m = Inl e \<or> (\<exists>x. m = Inr x \<and> f x = Inl e)"
  by (cases m) auto

text \<open>Words.\<close>

lemma unat_bound: "unat w < 2 ^ LENGTH('a)" for w :: "'a::len word"
  by (rule unsigned_less)

lemma unat_drop_bit: "unat (drop_bit n w) = unat w div 2 ^ n" for w :: "'a::len word"
  by (subst unat_drop_bit_eq) (simp add: drop_bit_eq_div)

text \<open>Seven-bit groups: how the low bits, the continuation bit and the rest of a word fit together.\<close>

lemma mask7: "(127::'a::len word) = mask 7" by (simp add: mask_eq_exp_minus_1)
lemma top7: "(128::'a::len word) = push_bit 7 1" by simp

lemma or_push_split:
  "(acc OR push_bit s (w AND 127)) OR push_bit (s + 7) (drop_bit 7 w) = acc OR push_bit s w"
  for acc w :: u64
  by (rule bit_word_eqI)
    (auto simp: bit_simps mask7 not_less, metis add_diff_inverse_nat diff_diff_left)

lemma cont_bit_clear: "(ucast (w AND 0x7f) :: u8) AND 0x80 = 0" for w :: u64
  by (rule bit_word_eqI) (auto simp: bit_simps mask7 top7 simp del: push_bit_of_1)
lemma cont_bit_set: "((ucast (w AND 0x7f) :: u8) OR 0x80) AND 0x80 = 0x80" for w :: u64
  by (rule bit_word_eqI) (auto simp: bit_simps mask7  top7 simp del: push_bit_of_1)
lemma low7: "((ucast (w AND 0x7f) :: u8) OR 0x80) AND 0x7f = ucast (w AND 0x7f)" for w :: u64
  by (rule bit_word_eqI) (auto simp: bit_simps mask7  top7 simp del: push_bit_of_1)
lemma low7': "(ucast (w AND 0x7f) :: u8) AND 0x7f = ucast (w AND 0x7f)" for w :: u64
  by (rule bit_word_eqI) (auto simp: bit_simps mask7  top7 simp del: push_bit_of_1)
lemma low7'': "ucast (ucast (w AND 0x7f) :: u8) = w AND 0x7f" for w :: u64
  by (rule bit_word_eqI) (auto simp: bit_simps mask7  top7 simp del: push_bit_of_1)

lemma drop7_zero: "drop_bit 7 w = 0 \<longleftrightarrow> unat w < 128" for w :: u64
  by (simp add: unat_drop_bit div_eq_0_iff flip: unat_eq_zero)

lemma and7_small: "unat w < 128 \<Longrightarrow> w AND 127 = w" for w :: u64
  by (rule word_unat_eq_iff [THEN iffD2]) (simp add: mask7 unsigned_take_bit_eq take_bit_nat_eq_self flip: take_bit_eq_mask)
lemma and7_small2: "unat (w AND 127) < 128" for w :: u64
  using take_bit_nat_less_exp [of 7 "unat w"] by (simp add: mask7 unsigned_take_bit_eq flip: take_bit_eq_mask)
lemma ucast8_small: "unat w < 128 \<Longrightarrow> unat (ucast w :: u8) = unat w" for w :: u64
  by (simp add: unsigned_ucast_eq take_bit_nat_eq_self)

lemma shift_room: "unat w < 2 ^ (64 - s) \<Longrightarrow> 128 \<le> unat w \<Longrightarrow> s + 7 < 64" for w :: u64
proof (rule ccontr)
  assume w: "unat w < 2 ^ (64 - s)" "128 \<le> unat w" and "\<not> s + 7 < 64"
  then have "64 - s \<le> 7" by simp
  then have "2 ^ (64 - s) \<le> (2 ^ 7 :: nat)" by (intro power_increasing) auto
  with w show False by simp
qed

lemma shift_small:
  "unat w < 2 ^ (64 - s) \<Longrightarrow> 128 \<le> unat w \<Longrightarrow> unat (drop_bit 7 w) < 2 ^ (64 - (s + 7))" for w :: u64
  using shift_room [of w s] power_add [of "2::nat" "64 - (s + 7)" 7]
  by (simp add: unat_drop_bit less_mult_imp_div_less)

lemma bit_below: "unat w < 2 ^ k \<Longrightarrow> bit w n \<Longrightarrow> n < k" for w :: "'a::len word"
  by (metis bit_take_bit_iff take_bit_nat_eq_self unsigned_take_bit_eq word_unat_eq_iff)

lemma below_bit: "(\<And>n. bit w n \<Longrightarrow> n < k) \<Longrightarrow> unat w < 2 ^ k" for w :: "'a::len word"
proof -
  assume "\<And>n. bit w n \<Longrightarrow> n < k"
  then have "take_bit k w = w" by (intro bit_word_eqI) (auto simp: bit_simps)
  then have "unat w = take_bit k (unat w)" by (metis unsigned_take_bit_eq)
  then show ?thesis by (metis take_bit_nat_less_exp)
qed

lemma ucast_up_down: "ucast (ucast b :: u64) = b" for b :: u8
  by (rule bit_word_eqI) (auto simp: bit_simps)

lemma join7:
  fixes w :: u64
  assumes "unat w < 2 ^ 57"
  shows "drop_bit 7 (push_bit 7 w OR ucast (b AND 127 :: u8)) = w"
    and "(push_bit 7 w OR ucast (b AND 127 :: u8)) AND 127 = ucast (b AND 127)"
  using bit_below [OF assms]
  by (auto intro!: bit_word_eqI simp: bit_simps mask7)

lemma bit7_byte: "b AND 128 = 0 \<longleftrightarrow> \<not> bit b 7" for b :: u8
  using and_exp_eq_0_iff_not_bit [of b 7] by simp



lemma top_byte: "b AND 128 \<noteq> 0 \<Longrightarrow> (b AND 127) OR 128 = b" for b :: u8
proof (rule bit_word_eqI)
  fix n assume "b AND 128 \<noteq> 0" "n < LENGTH(8)"
  then have "bit b 7" and "n < 7 \<or> n = 7" by (auto simp: bit7_byte)
  then show "bit ((b AND 127) OR 128) n = bit b n"
    by (auto simp: bit_simps mask7 top7 simp del: push_bit_of_1)
qed

lemma small_byte: "b AND 128 = 0 \<Longrightarrow> b AND 127 = b" for b :: u8
proof (rule bit_word_eqI)
  fix n assume "b AND 128 = 0" "n < LENGTH(8)"
  then have "bit b n \<Longrightarrow> n < 7" by (cases "n = 7") (auto simp: bit7_byte)
  then show "bit (b AND 127) n = bit b n" by (auto simp: bit_simps mask7)
qed

lemma unat_low7: "unat (ucast (b AND 127) :: u64) = unat (b AND 127)" "unat (b AND 127) < 128" for b :: u8
  using take_bit_nat_less_exp [of 7 "unat b"]
  by (simp_all add: mask7 unsigned_ucast_eq unsigned_take_bit_eq take_bit_nat_eq_self flip: take_bit_eq_mask)

lemma unat_join7:
  assumes "unat w < 2 ^ (64 - (s + 7))" "s + 7 < 64"
  shows "unat (push_bit 7 w OR ucast (b AND 127 :: u8) :: u64) < 2 ^ (64 - s)"
  using bit_below [OF assms(1)] assms(2)
  by (intro below_bit) (force simp: bit_simps mask7)

lemma or_push_join:
  "(acc OR push_bit s (ucast (b AND 127 :: u8))) OR push_bit (s + 7) w = acc OR push_bit s (push_bit 7 w OR ucast (b AND 127))"
  for acc w :: u64
  by (rule bit_word_eqI) (auto simp: bit_simps)



lemma unat_of_nat_64: "n < 2 ^ 64 \<Longrightarrow> unat (of_nat n :: u64) = n"
  by (simp add: unat_of_nat take_bit_nat_eq_self)

text \<open>A tagged index: the low bit is the tag, the rest a 32-bit index.\<close>

lemma ref_index_bits:
  fixes j :: u32
  assumes "n \<le> 32" "0 < n"
  shows "drop_bit n (push_bit n (ucast j) :: u64) = ucast j"
    and "drop_bit n (push_bit n (ucast j) OR 1 :: u64) = ucast j"
    and "(push_bit n (ucast j) :: u64) AND 1 = 0"
    and "(push_bit n (ucast j) OR 1 :: u64) AND 1 = 1"
  using assms bit_below [of j 32] unat_bound [of j]
  by (fastforce intro!: bit_word_eqI simp: bit_simps)+

lemma ref_index_back: "ucast (ucast j :: u64) = j" for j :: u32
  by (auto intro!: bit_word_eqI simp: bit_simps)

lemmas ref_index_simps = ref_index_bits [of "Suc 0", simplified] ref_index_back

lemma unat_ucast_up: "unat (ucast j :: u64) = unat j" for j :: u32
  using unat_bound [of j] by (simp add: unsigned_ucast_eq take_bit_nat_eq_self)

lemma ucast_down_up: "unat w < 2 ^ 32 \<Longrightarrow> ucast (ucast w :: u32) = w" for w :: u64
  using bit_below [of w 32] by (auto intro!: bit_word_eqI simp: bit_simps)

lemma unat_ucast_down: "unat w < 2 ^ 32 \<Longrightarrow> unat (ucast w :: u32) = unat w" for w :: u64
  by (metis ucast_down_up unat_ucast_up)

lemma split_low_bits: "push_bit n (drop_bit n v) OR take_bit n v = v" for v :: u64
  by (rule bit_word_eqI) (auto simp: bit_simps)

lemma split_low_bit: "push_bit 1 (drop_bit 1 v) OR (v AND 1) = v" for v :: u64
  using split_low_bits [of 1 v] by (simp only: take_bit_eq_mask mask_1)

lemma low_bit_cases: "v AND 1 = 0 \<or> v AND 1 = 1" for v :: u64
  by (metis and_one_eq even_iff_mod_2_eq_zero odd_iff_mod_2_eq_one)

text \<open>Lists.\<close>

lemma in_set_tl: "x \<in> set (tl xs) \<Longrightarrow> x \<in> set xs"
  by (cases xs) auto

lemma list_update_numeral [simp]: "(x # xs)[numeral v := y] = x # xs[pred_numeral v := y]"
  by (simp add: numeral_eq_Suc)

lemma tl_member: "x \<in> set xs \<Longrightarrow> x \<noteq> hd xs \<Longrightarrow> x \<in> set (tl xs)"
  by (cases xs) auto

end
