(* ===== verification/CoreIrTypes.thy ===== *)
theory CoreIrTypes
  imports Prelude
begin

text \<open>
  The data model of a Core IR 0.6 bundle, from \<open>src/src/core_ir_05/mod.rs\<close>, and the refusals of its
  loader as an error type. A \<open>Hash256\<close> is a byte list whose length 32 is part of well-formedness; a
  Rust \<open>String\<close> is its UTF-8 byte list.
\<close>

type_synonym hash256 = bytes
type_synonym rstring = bytes

datatype node_ref = Node u32 | Pool u32

record pool_entry =
  def_hash :: hash256
  payload :: bytes

datatype node =
    CCall (target_identity: hash256) (args: "node_ref list") (target_name: rstring)
  | CIf (cond: node_ref) (then_ref: node_ref) (else_ref: node_ref)
  | CDeterminate
  | CBlock
  | CEnd (end_value: node_ref)

record core_bundle =
  version :: string
  constant_pool :: "pool_entry list"
  nodes :: "node list"
  result :: node_ref

datatype arm = Then | Else

record blocks =
  home :: "nat option list"
  partner :: "nat option list"
  arm_sel :: "(nat \<times> arm) option list"

text \<open>
  Who uses a reference, for the refusals of the block verifier: a node, or the bundle's result.
\<close>

datatype user = NodeUser nat | ResultUser

datatype block_error =
    EndWithoutBlock nat
  | ArmTakenTwice nat nat nat
  | BadArms nat
  | NeverClosed nat
  | RefersToBlock user nat
  | RefersToArmEnd nat nat user
  | InsideArm user nat arm nat
  | InsideClosedBlock user nat nat
  | BlockPanic string

datatype ir_error =
    Truncated nat nat
  | VarintOverflow nat
  | NonMinimalVarint nat
  | LengthNotUsize
  | PoolOutOfRange u64 u64
  | TopologicalOrder u64 u64
  | NameNotUtf8
  | UnknownKind u64
  | TrailingBytes nat
  | BlockRefused block_error
  | BadMagic
  | Refuse05
  | UnsupportedVersion

end
