(* ===== verification/Utf8.thy ===== *)
theory Utf8
  imports Prelude
begin

text \<open>
  Rust strings. A \<open>String\<close> or \<open>str\<close> is a byte sequence that is well-formed UTF-8 (the Unicode table of
  well-formed sequences, which \<open>core::str::from_utf8\<close> checks); \<open>utf8_valid\<close> is that check, \<open>chars\<close> the
  code points \<open>str::chars\<close> yields, and \<open>utf8_encode\<close> the bytes of a sequence of code points.
\<close>

type_synonym code_point = nat

definition is_cont :: "u8 \<Rightarrow> bool" where
  "is_cont b \<longleftrightarrow> 128 \<le> unat b \<and> unat b \<le> 191"

definition cont_bits :: "u8 \<Rightarrow> nat" where
  "cont_bits b = unat b - 128"

text \<open>One scalar value off the front: its code point and the bytes after it.\<close>

fun utf8_next :: "bytes \<Rightarrow> (code_point \<times> bytes) option" where
  "utf8_next [] = None"
| "utf8_next (a # rest) =
     (let x = unat a in
      if x < 128 then Some (x, rest)
      else if 194 \<le> x \<and> x \<le> 223 then
        (case rest of
           b # r \<Rightarrow> if is_cont b then Some ((x - 192) * 64 + cont_bits b, r) else None
         | [] \<Rightarrow> None)
      else if 224 \<le> x \<and> x \<le> 239 then
        (case rest of
           b # c # r \<Rightarrow>
             if is_cont b \<and> is_cont c \<and> (x = 224 \<longrightarrow> 160 \<le> unat b) \<and> (x = 237 \<longrightarrow> unat b \<le> 159)
             then Some ((x - 224) * 4096 + cont_bits b * 64 + cont_bits c, r) else None
         | _ \<Rightarrow> None)
      else if 240 \<le> x \<and> x \<le> 244 then
        (case rest of
           b # c # d # r \<Rightarrow>
             if is_cont b \<and> is_cont c \<and> is_cont d \<and> (x = 240 \<longrightarrow> 144 \<le> unat b) \<and> (x = 244 \<longrightarrow> unat b \<le> 143)
             then Some ((x - 240) * 262144 + cont_bits b * 4096 + cont_bits c * 64 + cont_bits d, r)
             else None
         | _ \<Rightarrow> None)
      else None)"

lemma utf8_next_shorter: "utf8_next bs = Some (c, r) \<Longrightarrow> length r < length bs"
  by (cases bs) (auto simp: Let_def split: if_splits list.splits)

function utf8_decode :: "bytes \<Rightarrow> code_point list option" where
  "utf8_decode bs =
     (if bs = [] then Some []
      else case utf8_next bs of
        None \<Rightarrow> None
      | Some (c, r) \<Rightarrow> map_option (Cons c) (utf8_decode r))"
  by pat_completeness auto
termination
  by (relation "measure length") (auto dest: utf8_next_shorter)

declare utf8_decode.simps [simp del]

definition utf8_valid :: "bytes \<Rightarrow> bool" where
  "utf8_valid bs \<longleftrightarrow> utf8_decode bs \<noteq> None"

definition chars :: "bytes \<Rightarrow> code_point list" where
  "chars bs = (case utf8_decode bs of None \<Rightarrow> [] | Some cs \<Rightarrow> cs)"

definition is_scalar :: "code_point \<Rightarrow> bool" where
  "is_scalar c \<longleftrightarrow> c < 0xD800 \<or> 0xE000 \<le> c \<and> c < 0x110000"

definition utf8_encode1 :: "code_point \<Rightarrow> bytes" where
  "utf8_encode1 c =
     (if c < 0x80 then [of_nat c]
      else if c < 0x800 then [of_nat (192 + c div 64), of_nat (128 + c mod 64)]
      else if c < 0x10000 then
        [of_nat (224 + c div 4096), of_nat (128 + c div 64 mod 64), of_nat (128 + c mod 64)]
      else
        [of_nat (240 + c div 262144), of_nat (128 + c div 4096 mod 64),
         of_nat (128 + c div 64 mod 64), of_nat (128 + c mod 64)])"

definition utf8_encode :: "code_point list \<Rightarrow> bytes" where
  "utf8_encode cs = concat (map utf8_encode1 cs)"

lemma unat_of_nat_8: "n < 256 \<Longrightarrow> unat (of_nat n :: u8) = n"
  by (simp add: unat_of_nat take_bit_nat_eq_self)

text \<open>One sequence of each length, with the payload bits as digits in base 64.\<close>

lemma utf8_next_2:
  assumes "2 \<le> x" "x < 32" "y < 64"
  shows "utf8_next (of_nat (192 + x) # of_nat (128 + y) # r) = Some (x * 64 + y, r)"
proof -
  have "unat (of_nat (192 + x) :: u8) = 192 + x" "unat (of_nat (128 + y) :: u8) = 128 + y"
    using assms by (simp_all only: unat_of_nat_8)
  then show ?thesis using assms by (simp only: utf8_next.simps Let_def is_cont_def cont_bits_def) simp
qed

lemma utf8_next_3:
  assumes "x < 16" "y < 64" "z < 64" "x = 0 \<Longrightarrow> 32 \<le> y" "x = 13 \<Longrightarrow> y \<le> 31"
  shows "utf8_next (of_nat (224 + x) # of_nat (128 + y) # of_nat (128 + z) # r) =
    Some (x * 4096 + y * 64 + z, r)"
proof -
  have "unat (of_nat (224 + x) :: u8) = 224 + x" "unat (of_nat (128 + y) :: u8) = 128 + y"
    "unat (of_nat (128 + z) :: u8) = 128 + z"
    using assms by (simp_all only: unat_of_nat_8)
  then show ?thesis using assms by (simp only: utf8_next.simps Let_def is_cont_def cont_bits_def) simp
qed

lemma utf8_next_4:
  assumes "x < 5" "y < 64" "z < 64" "w < 64" "x = 0 \<Longrightarrow> 16 \<le> y" "x = 4 \<Longrightarrow> y \<le> 15"
  shows "utf8_next (of_nat (240 + x) # of_nat (128 + y) # of_nat (128 + z) # of_nat (128 + w) # r) =
    Some (x * 262144 + y * 4096 + z * 64 + w, r)"
proof -
  have "unat (of_nat (240 + x) :: u8) = 240 + x" "unat (of_nat (128 + y) :: u8) = 128 + y"
    "unat (of_nat (128 + z) :: u8) = 128 + z" "unat (of_nat (128 + w) :: u8) = 128 + w"
    using assms by (simp_all only: unat_of_nat_8)
  then show ?thesis using assms by (simp only: utf8_next.simps Let_def is_cont_def cont_bits_def) simp
qed

lemma base64_digits:
  fixes c :: nat
  shows "c div 4096 * 4096 + c div 64 mod 64 * 64 + c mod 64 = c"
    and "c div 262144 * 262144 + c div 4096 mod 64 * 4096 + c div 64 mod 64 * 64 + c mod 64 = c"
proof -
  have d: "c div 4096 = c div 64 div 64" "c div 262144 = c div 64 div 64 div 64"
    by (simp_all flip: div_mult2_eq)
  note q = div_mult_mod_eq [of c 64] div_mult_mod_eq [of "c div 64" 64]
    div_mult_mod_eq [of "c div 64 div 64" 64]
  show "c div 4096 * 4096 + c div 64 mod 64 * 64 + c mod 64 = c"
    unfolding d using q by linarith
  show "c div 262144 * 262144 + c div 4096 mod 64 * 4096 + c div 64 mod 64 * 64 + c mod 64 = c"
    unfolding d using q by linarith
qed

lemma utf8_next_encode1:
  assumes "is_scalar c"
  shows "utf8_next (utf8_encode1 c @ r) = Some (c, r)"
proof -
  consider "c < 0x80" | "0x80 \<le> c" "c < 0x800" | "0x800 \<le> c" "c < 0x10000" | "0x10000 \<le> c" "c < 0x110000"
    using assms by (fastforce simp: is_scalar_def)
  then show ?thesis
  proof cases
    case 1
    then have "unat (of_nat c :: u8) = c" by (intro unat_of_nat_8) simp
    with 1 show ?thesis by (simp add: utf8_encode1_def)
  next
    case 2
    then have e: "utf8_encode1 c = [of_nat (192 + c div 64), of_nat (128 + c mod 64)]"
      by (simp add: utf8_encode1_def)
    have "utf8_next (utf8_encode1 c @ r) = Some (c div 64 * 64 + c mod 64, r)"
      unfolding e append.simps using 2 by (intro utf8_next_2) auto
    then show ?thesis by simp
  next
    case 3
    then have e: "utf8_encode1 c =
      [of_nat (224 + c div 4096), of_nat (128 + c div 64 mod 64), of_nat (128 + c mod 64)]"
      by (simp add: utf8_encode1_def)
    have s: "c < 0xD800 \<or> 0xE000 \<le> c" using assms 3 by (auto simp: is_scalar_def)
    have "utf8_next (utf8_encode1 c @ r) = Some (c div 4096 * 4096 + c div 64 mod 64 * 64 + c mod 64, r)"
      unfolding e append.simps
    proof (rule utf8_next_3)
      show "c div 4096 < 16" "c div 64 mod 64 < 64" "c mod 64 < 64" using 3 by simp_all
      show "32 \<le> c div 64 mod 64" if "c div 4096 = 0"
        using that 3 div_le_mono [of 2048 c 64] by (simp add: div_eq_0_iff)
      assume c13: "c div 4096 = 13"
      then have "c < 0xD800" using s by auto
      then have "c div 64 < 864" by simp
      moreover have "c div 64 div 64 = 13" using c13 by (simp flip: div_mult2_eq)
      ultimately show "c div 64 mod 64 \<le> 31" using div_mult_mod_eq [of "c div 64" 64] by simp
    qed
    then show ?thesis by (simp only: base64_digits)
  next
    case 4
    then have e: "utf8_encode1 c =
      [of_nat (240 + c div 262144), of_nat (128 + c div 4096 mod 64), of_nat (128 + c div 64 mod 64),
       of_nat (128 + c mod 64)]"
      by (simp add: utf8_encode1_def)
    have "utf8_next (utf8_encode1 c @ r) =
      Some (c div 262144 * 262144 + c div 4096 mod 64 * 4096 + c div 64 mod 64 * 64 + c mod 64, r)"
      unfolding e append.simps
    proof (rule utf8_next_4)
      show "c div 262144 < 5" "c div 4096 mod 64 < 64" "c div 64 mod 64 < 64" "c mod 64 < 64"
        using 4 by simp_all
      show "16 \<le> c div 4096 mod 64" if "c div 262144 = 0"
        using that 4 div_le_mono [of 65536 c 4096] by (simp add: div_eq_0_iff)
      show "c div 4096 mod 64 \<le> 15" if "c div 262144 = 4"
      proof -
        have "c div 4096 < 272" using 4 by simp
        moreover have "c div 4096 div 64 = 4" using that by (simp flip: div_mult2_eq)
        ultimately show ?thesis using div_mult_mod_eq [of "c div 4096" 64] by simp
      qed
    qed
    then show ?thesis by (simp only: base64_digits)
  qed
qed

lemma utf8_decode_encode: "list_all is_scalar cs \<Longrightarrow> utf8_decode (utf8_encode cs) = Some cs"
proof (induction cs)
  case Nil
  then show ?case by (simp add: utf8_encode_def utf8_decode.simps)
next
  case (Cons c cs)
  moreover have "utf8_encode (c # cs) \<noteq> []"
    by (simp add: utf8_encode_def utf8_encode1_def)
  ultimately show ?case
    by (subst utf8_decode.simps) (simp add: utf8_encode_def utf8_next_encode1)
qed

lemma utf8_next_ascii: "unat a < 128 \<Longrightarrow> utf8_next (a # r) = Some (unat a, r)"
  by simp

lemma utf8_valid_ascii: "list_all (\<lambda>a. unat a < 128) bs \<Longrightarrow> utf8_decode bs = Some (map unat bs)"
  by (induction bs) (simp_all add: utf8_decode.simps)

lemma utf8_encode_ascii: "list_all (\<lambda>b. unat b < 128) bs \<Longrightarrow> utf8_encode (map unat bs) = (bs :: bytes)"
  by (induction bs) (simp_all add: utf8_encode_def utf8_encode1_def)

end
