(* ===== verification/Decimal.thy ===== *)
theory Decimal
  imports CoreIrTypes Utf8
begin

text \<open>
  Text the program prints and reads: ASCII literals, decimal numbers as \<open>format!\<close> writes them and \<open>str::parse::<i64>\<close>
  reads them.
\<close>

text \<open>An ASCII literal of the source as the bytes of a Rust string.\<close>

definition lit :: "string \<Rightarrow> rstring" where
  "lit s = map of_char s"

fun nat_text :: "nat \<Rightarrow> rstring" where
  "nat_text n = (if n < 10 then [of_nat (48 + n)] else nat_text (n div 10) @ [of_nat (48 + n mod 10)])"

declare nat_text.simps [simp del]

definition int_dec :: "int \<Rightarrow> rstring" where
  "int_dec i = (if i < 0 then 0x2d # nat_text (nat (- i)) else nat_text (nat i))"

fun parse_digits :: "nat \<Rightarrow> rstring \<Rightarrow> nat option" where
  "parse_digits acc [] = Some acc"
| "parse_digits acc (c # cs) =
     (if 0x30 \<le> c \<and> c \<le> 0x39 then parse_digits (acc * 10 + unat (c - 0x30)) cs else None)"

definition i64_range :: "int \<Rightarrow> bool" where
  "i64_range i \<longleftrightarrow> - (2 ^ 63) \<le> i \<and> i < 2 ^ 63"

definition parse_i64 :: "rstring \<Rightarrow> int option" where
  "parse_i64 s =
     (let (sgn, ds) = (case s of c # cs \<Rightarrow> if c = 0x2d then (- 1, cs) else if c = 0x2b then (1, cs) else (1, s) | [] \<Rightarrow> (1, [])) in
      if ds = [] then None
      else case parse_digits 0 ds of
        None \<Rightarrow> None
      | Some n \<Rightarrow> if i64_range (sgn * int n) then Some (sgn * int n) else None)"

section \<open>Literals\<close>

lemma of_char_u8_inject: "(of_char c :: u8) = of_char d \<longleftrightarrow> c = d"
proof
  assume "(of_char c :: u8) = of_char d"
  then have "(of_nat (of_char c) :: u8) = of_nat (of_char d)" by (simp only: of_nat_of_char)
  then have "unat (of_nat (of_char c) :: u8) = unat (of_nat (of_char d) :: u8)" by simp
  then have "of_char c mod 2 ^ 8 = (of_char d mod 2 ^ 8 :: nat)" by (simp only: unat_of_nat) simp
  then show "c = d" by simp
qed simp

lemma lit_inject: "lit s = lit t \<longleftrightarrow> s = t"
  by (auto simp: lit_def of_char_u8_inject inj_map_eq_map inj_on_def)

section \<open>Decimal numbers\<close>

lemma nat_text_rec:
  "n < 10 \<Longrightarrow> nat_text n = [of_nat (48 + n)]"
  "\<not> n < 10 \<Longrightarrow> nat_text n = nat_text (n div 10) @ [of_nat (48 + n mod 10)]"
  by (subst nat_text.simps, simp)+

lemma nat_text_nonempty: "nat_text n \<noteq> []"
  by (cases "n < 10") (simp_all add: nat_text_rec)

lemma of_nat_digit_inject:
  assumes "a < 10" "b < 10"
  shows "(of_nat (48 + a) :: u8) = of_nat (48 + b) \<longleftrightarrow> a = b"
proof
  assume "(of_nat (48 + a) :: u8) = of_nat (48 + b)"
  then have "unat (of_nat (48 + a) :: u8) = unat (of_nat (48 + b) :: u8)" by simp
  with assms show "a = b" by (simp only: unat_of_nat) simp
qed simp

lemma nat_text_inject: "nat_text m = nat_text n \<longleftrightarrow> m = n"
proof
  show "nat_text m = nat_text n \<Longrightarrow> m = n"
  proof (induction m arbitrary: n rule: nat_text.induct)
    case (1 m)
    show ?case
    proof (cases "m < 10"; cases "n < 10")
      assume "m < 10" "n < 10"
      with "1.prems" show ?thesis by (simp only: nat_text_rec list.inject of_nat_digit_inject)
    next
      assume "\<not> m < 10" "\<not> n < 10"
      from "1.prems" have "nat_text (m div 10) = nat_text (n div 10) \<and> (of_nat (48 + m mod 10) :: u8) = of_nat (48 + n mod 10)"
        unfolding nat_text_rec(2) [OF \<open>\<not> m < 10\<close>] nat_text_rec(2) [OF \<open>\<not> n < 10\<close>] by (simp only: append1_eq_conv)
      then have "m div 10 = n div 10" "m mod 10 = n mod 10"
        using "1.IH" [OF \<open>\<not> m < 10\<close>] of_nat_digit_inject [of "m mod 10" "n mod 10"] by simp_all
      then show ?thesis by (metis div_mult_mod_eq)
    qed (use "1.prems" in \<open>auto simp: nat_text_rec nat_text_nonempty append_eq_Cons_conv Cons_eq_append_conv\<close>)
  qed
qed simp

lemma parse_digits_append:
  "parse_digits acc (xs @ ys) = Option.bind (parse_digits acc xs) (\<lambda>a. parse_digits a ys)"
  by (induction xs arbitrary: acc) auto

lemma unat_digit: "n < 10 \<Longrightarrow> unat (of_nat (48 + n) :: u8) = 48 + n"
  by (rule unat_of_nat_8) simp

lemma parse_digit: "n < 10 \<Longrightarrow> parse_digits acc [of_nat (48 + n)] = Some (acc * 10 + n)"
proof -
  assume n: "n < 10"
  have "(of_nat (48 + n) :: u8) - 0x30 = of_nat n" by simp
  moreover have "unat (of_nat n :: u8) = n" using n by (intro unat_of_nat_8) simp
  ultimately show ?thesis using n by (simp only: parse_digits.simps word_le_nat_alt unat_digit) simp
qed

lemma parse_nat_text: "parse_digits 0 (nat_text n) = Some n"
proof (induction n rule: nat_text.induct)
  case (1 n)
  show ?case
  proof (cases "n < 10")
    case True
    then show ?thesis using parse_digit [of n 0] by (simp only: nat_text_rec(1)) simp
  next
    case False
    then have "parse_digits 0 (nat_text (n div 10)) = Some (n div 10)" using "1.IH" by blast
    moreover have "parse_digits (n div 10) [of_nat (48 + n mod 10)] = Some (n div 10 * 10 + n mod 10)"
      by (rule parse_digit) simp
    ultimately show ?thesis unfolding nat_text_rec(2) [OF False] parse_digits_append by (simp del: of_nat_add parse_digits.simps)
  qed
qed

lemma nat_text_digits: "c \<in> set (nat_text n) \<Longrightarrow> 48 \<le> unat c \<and> unat c < 58"
proof (induction n rule: nat_text.induct)
  case (1 n)
  have d: "48 \<le> unat (of_nat (48 + m) :: u8) \<and> unat (of_nat (48 + m) :: u8) < 58" if "m < 10" for m
    using that by (simp only: unat_digit) simp
  show ?case
  proof (cases "n < 10")
    case True
    then show ?thesis using "1.prems" d [of n] by (simp only: nat_text_rec(1)) simp
  next
    case False
    show ?thesis using "1.prems" "1.IH" [OF False] d [of "n mod 10"] unfolding nat_text_rec(2) [OF False]
      by (auto simp del: of_nat_add)
  qed
qed

lemma nat_text_head: "\<exists>c cs. nat_text n = c # cs \<and> c \<noteq> 0x2d \<and> c \<noteq> 0x2b"
proof -
  obtain c cs where c: "nat_text n = c # cs" using nat_text_nonempty [of n] by (cases "nat_text n") auto
  then have "48 \<le> unat c" using nat_text_digits [of c n] by simp
  with c show ?thesis by auto
qed

lemma parse_int_dec:
  assumes "i64_range i"
  shows "parse_i64 (int_dec i) = Some i"
proof (cases "i < 0")
  case True
  then show ?thesis using assms nat_text_nonempty by (simp add: int_dec_def parse_i64_def parse_nat_text)
next
  case False
  obtain c cs where "nat_text (nat i) = c # cs" "c \<noteq> 0x2d" "c \<noteq> 0x2b" using nat_text_head by blast
  then show ?thesis using False assms parse_nat_text [of "nat i"] by (simp add: int_dec_def parse_i64_def)
qed

lemma int_dec_inject: "int_dec i = int_dec j \<longleftrightarrow> i = j"
proof -
  have h: "0x2d # xs \<noteq> nat_text n" for xs n using nat_text_head [of n] by auto
  show ?thesis using h h [symmetric] by (auto simp: int_dec_def nat_text_inject eq_nat_nat_iff split: if_splits)
qed

end
