(* ===== verification/Varint.thy ===== *)
theory Varint
  imports CoreIrTypes
begin

text \<open>
  The LEB128 layer of \<open>src/src/core_ir_05/mod.rs\<close>: \<open>write_varint\<close> and the strict canonical reader
  \<open>CanonReader\<close> (\<open>take\<close>, \<open>varint\<close>, \<open>len\<close>, \<open>hash\<close>).
\<close>

section \<open>Writing\<close>

text \<open>\<open>write_varint\<close> returns the bytes it pushes onto the buffer.\<close>

function write_varint :: "u64 \<Rightarrow> bytes" where
  "write_varint v =
     (let byte = ucast (v AND 0x7f) :: u8; v' = drop_bit 7 v
      in if v' = 0 then [byte] else (byte OR 0x80) # write_varint v')"
  by pat_completeness auto
termination
proof (relation "measure unat")
  fix v :: u64 and byte v'
  assume "v' = drop_bit 7 v" and "v' \<noteq> 0"
  then have "unat v div 128 \<noteq> 0" and "unat v' = unat v div 128"
    by (simp_all add: unat_drop_bit unat_eq_zero flip: unat_eq_zero)
  then show "(v', v) \<in> measure unat" by auto
qed simp

declare write_varint.simps [simp del]

definition write_bytes :: "bytes \<Rightarrow> bytes" where
  "write_bytes data = write_varint (of_nat (length data)) @ data"

section \<open>The strict reader\<close>

record canon_reader =
  rd_b :: bytes
  rd_pos :: nat

type_synonym 'a reading = "ir_error + 'a \<times> canon_reader"

definition rd_take :: "nat \<Rightarrow> canon_reader \<Rightarrow> bytes reading" where
  "rd_take n r =
     (if length (rd_b r) - rd_pos r < n then Inl (Truncated (rd_pos r) n)
      else Inr (take n (drop (rd_pos r) (rd_b r)), r\<lparr>rd_pos := rd_pos r + n\<rparr>))"

function varint_loop :: "nat \<Rightarrow> u64 \<Rightarrow> nat \<Rightarrow> canon_reader \<Rightarrow> u64 reading" where
  "varint_loop start v shift r =
     (case rd_take 1 r of
        Inl e \<Rightarrow> Inl e
      | Inr (s, r') \<Rightarrow>
          (let byte = s ! 0 in
           if 64 \<le> shift \<or> shift = 63 \<and> 1 < byte AND 0x7f then Inl (VarintOverflow start)
           else
             (let v' = v OR push_bit shift (ucast (byte AND 0x7f)) in
              if byte AND 0x80 = 0 then
                (if byte = 0 \<and> 1 < rd_pos r' - start then Inl (NonMinimalVarint start)
                 else Inr (v', r'))
              else varint_loop start v' (shift + 7) r')))"
  by pat_completeness auto
termination
  by (relation "measure (\<lambda>(start, v, shift, r). 64 - shift)") auto

declare varint_loop.simps [simp del]

definition varint :: "canon_reader \<Rightarrow> u64 reading" where
  "varint r = varint_loop (rd_pos r) 0 0 r"

text \<open>\<open>usize\<close> is 64 bits wide, so \<open>usize::try_from\<close> of a \<open>u64\<close> succeeds.\<close>

definition rd_len :: "canon_reader \<Rightarrow> nat reading" where
  "rd_len r = bindE (varint r) (\<lambda>(n, r'). Inr (unat n, r'))"

definition rd_hash :: "canon_reader \<Rightarrow> bytes reading" where
  "rd_hash r = rd_take 32 r"

section \<open>Round trip of the varint layer\<close>

text \<open>What is left to read, and the reader advanced by a number of bytes.\<close>

definition rd_rest :: "canon_reader \<Rightarrow> bytes" where
  "rd_rest r = drop (rd_pos r) (rd_b r)"
definition rd_adv :: "nat \<Rightarrow> canon_reader \<Rightarrow> canon_reader" where
  "rd_adv n r = r\<lparr>rd_pos := rd_pos r + n\<rparr>"

lemma rd_adv_simps [simp]:
  "rd_pos (rd_adv n r) = rd_pos r + n" "rd_b (rd_adv n r) = rd_b r"
  "rd_adv 0 r = r" "rd_adv m (rd_adv n r) = rd_adv (n + m) r"
  "rd_rest (rd_adv n r) = drop n (rd_rest r)"
  by (simp_all add: rd_adv_def rd_rest_def add.commute)

lemma rd_take_append: "rd_rest r = xs @ ys \<Longrightarrow> n = length xs \<Longrightarrow> rd_take n r = Inr (xs, rd_adv n r)"
  by (auto simp: rd_take_def rd_adv_def rd_rest_def dest!: arg_cong [where f = length])

lemma rd_take_InrD:
  "rd_take n r = Inr (xs, r') \<Longrightarrow>
     length xs = n \<and> r' = rd_adv n r \<and> rd_rest r = xs @ drop n (rd_rest r) \<and> n \<le> length (rd_rest r)"
  by (auto simp: rd_take_def rd_adv_def rd_rest_def simp flip: drop_drop split: if_splits)

lemma rd_take1:
  "rd_take (Suc 0) r =
     (case rd_rest r of [] \<Rightarrow> Inl (Truncated (rd_pos r) 1) | x # _ \<Rightarrow> Inr ([x], rd_adv 1 r))"
  by (auto simp: rd_take_def rd_adv_def rd_rest_def split: list.split)
   


lemma varint_loop_write:
  assumes "rd_rest r = write_varint w @ zs" "unat w < 2 ^ (64 - s)" "s < 64"
    "start \<le> rd_pos r" "w = 0 \<Longrightarrow> start = rd_pos r"
  shows "varint_loop start acc s r = Inr (acc OR push_bit s w, rd_adv (length (write_varint w)) r)"
  using assms
proof (induction w arbitrary: acc s r rule: write_varint.induct)
  case (1 w)
  let ?b = "ucast (w AND 127) :: u8"
  show ?case
  proof (cases "drop_bit 7 w = 0")
    case True
    then have w: "w AND 127 = w" and small: "unat w < 128"
      by (simp_all add: drop7_zero and7_small)
    have wr: "write_varint w = [?b]"
      using True by (simp add: write_varint.simps)
    have "s = 63 \<Longrightarrow> \<not> 1 < ?b"
      using "1.prems"(2) small w by (simp add: word_less_nat_alt ucast8_small)
    moreover have "?b = 0 \<Longrightarrow> w = 0"
      using small w by (metis ucast8_small unat_0 unat_eq_zero)
    ultimately show ?thesis
      using "1.prems" wr w low7'[of w] low7''[of w] cont_bit_clear[of w]
      by (subst varint_loop.simps) (auto simp: rd_take1 Let_def)
  next
    case False
    let ?w' = "drop_bit 7 w"
    have wr: "write_varint w = (?b OR 128) # write_varint ?w'"
      using False by (subst write_varint.simps) (simp add: Let_def)
    have big: "128 \<le> unat w" using False by (simp add: drop7_zero)
    note s = shift_room [OF "1.prems"(2) big] and small = shift_small [OF "1.prems"(2) big]
    have IH: "varint_loop start (acc OR push_bit s (w AND 127)) (s + 7) (rd_adv 1 r) =
       Inr ((acc OR push_bit s (w AND 127)) OR push_bit (s + 7) ?w', rd_adv (length (write_varint ?w')) (rd_adv 1 r))"
      using "1.prems" s small False wr
      by (intro "1.IH" [OF refl refl False]) auto
    show ?thesis
      using "1.prems" wr s IH cont_bit_set[of w] low7[of w] low7''[of w]
      by (subst varint_loop.simps) (simp add: rd_take1 Let_def or_push_split del: push_bit_and)
  qed
qed

lemma write_varint_last: "b AND 128 = 0 \<Longrightarrow> write_varint (ucast b) = [b]" for b :: u8
proof -
  assume "b AND 128 = 0"
  then have "b AND 127 = b" by (rule small_byte)
  with unat_low7 [of b] have "unat (ucast b :: u64) < 128" by simp
  then show ?thesis
    by (subst write_varint.simps) (simp add: drop7_zero and7_small Let_def ucast_up_down)
qed

lemma write_varint_cont:
  "b AND 128 \<noteq> 0 \<Longrightarrow> unat w < 2 ^ 57 \<Longrightarrow> w \<noteq> 0 \<Longrightarrow>
     write_varint (push_bit 7 w OR ucast (b AND 127)) = b # write_varint w" for b :: u8
  using ucast_up_down [of "b AND 127"] join7 [of w b] top_byte [of b]
  by (subst write_varint.simps) (simp add: Let_def)

lemma varint_loop_read:
  assumes "varint_loop start acc s r = Inr (v, r')" "start \<le> rd_pos r" "7 dvd s"
  shows "\<exists>w. v = acc OR push_bit s w \<and> r' = rd_adv (length (write_varint w)) r
           \<and> rd_rest r = write_varint w @ rd_rest r' \<and> unat w < 2 ^ (64 - s) \<and> (start < rd_pos r \<longrightarrow> w \<noteq> 0)"
  using assms
proof (induction "rd_rest r" arbitrary: acc s r)
  case Nil
  from Nil.prems(1) [unfolded varint_loop.simps [of start acc s r]] Nil.hyps show ?case
    by (simp add: rd_take1 flip: Nil.hyps)
next
  case (Cons b bs)
  note rest = Cons(2) [symmetric]
  note loop = Cons.prems(1) [unfolded varint_loop.simps [of start acc s r], simplified rd_take1 One_nat_def rest, simplified]
  let ?x = "ucast (b AND 127) :: u64"
  have nov: "\<not> (64 \<le> s \<or> s = 63 \<and> 1 < b AND 127)"
    using loop by (auto simp: Let_def split: if_splits)
  show ?case
  proof (cases "b AND 128 = 0")
    case True
    then have b: "b AND 127 = b" by (rule small_byte)
    have "unat ?x < 2 ^ (64 - s)"
    proof (cases "s = 63")
      case True
      with nov unat_low7 [of b] show ?thesis by (auto simp: word_less_nat_alt not_less)
    next
      case False
      moreover from nov have "s < 64" by simp
      ultimately have "7 \<le> 64 - s" using Cons.prems(3) by presburger
      then have "(2::nat) ^ 7 \<le> 2 ^ (64 - s)" by (rule power_increasing) simp
      with unat_low7 [of b] show ?thesis by simp
    qed
    moreover have "?x = 0 \<Longrightarrow> b = 0" using ucast_up_down [of b] b by simp
    ultimately show ?thesis
      using loop True nov b rest Cons.prems(2) write_varint_last [OF True]
      by (intro exI [of _ ?x]) (auto simp: Let_def split: if_splits)
  next
    case False
    with loop nov have loop': "varint_loop start (acc OR push_bit s ?x) (s + 7) (rd_adv 1 r) = Inr (v, r')"
      by (simp add: Let_def)
    from Cons(1) [OF _ this] Cons.prems(2,3) rest
    obtain w where w: "v = (acc OR push_bit s ?x) OR push_bit (s + 7) w"
      "r' = rd_adv (length (write_varint w)) (rd_adv 1 r)"
      "bs = write_varint w @ rd_rest r'" "unat w < 2 ^ (64 - (s + 7))" "w \<noteq> 0"
      by fastforce
    then have s: "s + 7 < 64" by (cases "s + 7 < 64") (auto simp: unat_eq_zero)
    have "(2::nat) ^ (64 - (s + 7)) \<le> 2 ^ 57" by (rule power_increasing) auto
    with w(4) have "unat w < 2 ^ 57" by simp
    then have "write_varint (push_bit 7 w OR ?x) = b # write_varint w"
      using False w(5) by (intro write_varint_cont)
    moreover have "push_bit 7 w OR ?x \<noteq> 0"
      using join7(1) [OF \<open>unat w < 2 ^ 57\<close>, of b] w(5) by (auto simp del: drop_bit_or)
    ultimately show ?thesis
      using w rest unat_join7 [OF w(4) s, of b]
      by (intro exI [of _ "push_bit 7 w OR ?x"]) (simp add: or_push_join)
  qed
qed


end
