(* ===== verification/Codec.thy ===== *)
theory Codec
  imports Varint
begin

text \<open>
  The contract between an encoder of the canonical format and its strict decoder, as a locale, and the
  leaf codecs of \<open>CanonReader\<close> as instances. A decoder takes the index of the element it reads, because
  a node reference is checked against the number of nodes before it. The two laws are the two
  directions of the canonical format: an encoding decodes to what was encoded, and what a decoder
  accepts is exactly the encoding of its result.
\<close>

section \<open>The contract\<close>

text \<open>The loops \<open>for i in 0..count { xs.push(r.item(i)?) }\<close> of the decoder.\<close>

fun read_seq :: "(nat \<Rightarrow> canon_reader \<Rightarrow> 'a reading) \<Rightarrow> nat \<Rightarrow> nat \<Rightarrow> canon_reader \<Rightarrow> 'a list reading" where
  "read_seq dec i 0 r = Inr ([], r)"
| "read_seq dec i (Suc n) r =
     bindE (dec i r) (\<lambda>(x, r'). bindE (read_seq dec (Suc i) n r') (\<lambda>(xs, r''). Inr (x # xs, r'')))"

text \<open>
  The reader is within its buffer, the buffer is at most 4 GiB, and at least \<open>i\<close> bytes have been read
  (every element takes at least one byte, so this bounds the element counts).
\<close>

definition rd_room :: "nat \<Rightarrow> canon_reader \<Rightarrow> bool" where
  "rd_room i r \<longleftrightarrow> i \<le> rd_pos r \<and> rd_pos r \<le> length (rd_b r) \<and> length (rd_b r) \<le> 2 ^ 32"

lemma rd_room_adv:
  assumes "rd_room i r" "rd_rest r = xs @ ys" "j \<le> i + length xs"
  shows "rd_room j (rd_adv (length xs) r)"
proof -
  from assms(2) have "length (rd_b r) - rd_pos r = length xs + length ys"
    by (metis length_append length_drop rd_rest_def)
  with assms(1,3) show ?thesis by (auto simp: rd_room_def)
qed

locale canon_codec =
  fixes enc :: "'a \<Rightarrow> bytes"
    and dec :: "nat \<Rightarrow> canon_reader \<Rightarrow> 'a reading"
    and ok :: "nat \<Rightarrow> 'a \<Rightarrow> bool"
  assumes dec_enc: "ok i x \<Longrightarrow> i \<le> 2 ^ 32 \<Longrightarrow> rd_rest r = enc x @ zs \<Longrightarrow>
      dec i r = Inr (x, rd_adv (length (enc x)) r)"
    and enc_dec: "dec i r = Inr (x, r') \<Longrightarrow> rd_room i r \<Longrightarrow>
      ok i x \<and> r' = rd_adv (length (enc x)) r \<and> (\<exists>zs. rd_rest r = enc x @ zs)"
    and enc_nonempty: "ok i x \<Longrightarrow> enc x \<noteq> []"
begin

abbreviation encs :: "'a list \<Rightarrow> bytes" where
  "encs xs \<equiv> concat (map enc xs)"

lemma read_seq_encs:
  assumes "\<And>k. k < length xs \<Longrightarrow> ok (i + k) (xs ! k)" "i + length xs \<le> 2 ^ 32"
    and "rd_rest r = encs xs @ zs"
  shows "read_seq dec i (length xs) r = Inr (xs, rd_adv (length (encs xs)) r)"
  using assms
proof (induction xs arbitrary: i r)
  case Nil
  then show ?case by simp
next
  case (Cons x xs)
  have "ok i x" using Cons.prems(1) [of 0] by simp
  with Cons.prems have "dec i r = Inr (x, rd_adv (length (enc x)) r)"
    by (intro dec_enc [where zs = "encs xs @ zs"]) auto
  moreover have "read_seq dec (Suc i) (length xs) (rd_adv (length (enc x)) r) =
      Inr (xs, rd_adv (length (encs xs)) (rd_adv (length (enc x)) r))"
    using Cons.prems(1) [of "Suc k" for k] Cons.prems(2,3) by (intro Cons.IH) auto
  ultimately show ?case by simp
qed

lemma read_seq_dec:
  assumes "read_seq dec i n r = Inr (xs, r')" "rd_room i r"
  shows "length xs = n \<and> (\<forall>k < n. ok (i + k) (xs ! k)) \<and> r' = rd_adv (length (encs xs)) r
    \<and> (\<exists>zs. rd_rest r = encs xs @ zs) \<and> rd_room (i + n) r'"
  using assms
proof (induction n arbitrary: i r xs)
  case 0
  then show ?case by simp
next
  case (Suc n)
  from Suc.prems(1) obtain x r1 ys where
    x: "dec i r = Inr (x, r1)" and ys: "read_seq dec (Suc i) n r1 = Inr (ys, r')" and xs: "xs = x # ys"
    by (auto split: prod.splits)
  from enc_dec [OF x Suc.prems(2)] obtain zs where
    e: "ok i x" "r1 = rd_adv (length (enc x)) r" "rd_rest r = enc x @ zs" by auto
  from enc_nonempty [OF e(1)] have "Suc i \<le> i + length (enc x)" by (cases "enc x") auto
  with Suc.prems(2) e have "rd_room (Suc i) r1" by (metis rd_room_adv)
  from Suc.IH [OF ys this] e xs show ?case
    by (auto simp: nth_Cons split: nat.splits)
qed

end

section \<open>Leaf codecs\<close>

lemma write_varint_nonempty [simp]: "write_varint v \<noteq> []"
  by (subst write_varint.simps) (simp add: Let_def)

lemma varint_write: "rd_rest r = write_varint v @ zs \<Longrightarrow> varint r = Inr (v, rd_adv (length (write_varint v)) r)"
  unfolding varint_def using unsigned_less [of v] by (subst varint_loop_write) simp_all

lemma varint_read:
  "varint r = Inr (v, r') \<Longrightarrow>
     r' = rd_adv (length (write_varint v)) r \<and> (\<exists>zs. rd_rest r = write_varint v @ zs)"
  using varint_loop_read [of "rd_pos r" 0 0 r v r'] unfolding varint_def push_bit_0_id or.left_neutral id_apply
  by (metis dvd_0_right order_refl)

interpretation vi: canon_codec write_varint "\<lambda>_. varint" "\<lambda>_ _. True"
  by unfold_locales (auto simp: varint_write dest: varint_read)

lemma rd_hash_append: "rd_rest r = h @ zs \<Longrightarrow> length h = 32 \<Longrightarrow> rd_hash r = Inr (h, rd_adv 32 r)"
  by (simp add: rd_hash_def rd_take_append)

lemma rd_hash_read:
  "rd_hash r = Inr (h, r') \<Longrightarrow> length h = 32 \<and> r' = rd_adv 32 r \<and> (\<exists>zs. rd_rest r = h @ zs)"
  unfolding rd_hash_def by (drule rd_take_InrD) blast

interpretation ha: canon_codec id "\<lambda>_. rd_hash" "\<lambda>_ h. length h = 32"
  by unfold_locales (auto dest: rd_hash_append rd_hash_read)

text \<open>A length-prefixed block, \<open>let n = r.len()?; r.take(n)?\<close>: the inverse of \<open>write_bytes\<close>.\<close>

definition rd_bytes :: "canon_reader \<Rightarrow> bytes reading" where
  "rd_bytes r = bindE (rd_len r) (\<lambda>(n, r'). rd_take n r')"

lemma write_bytes_nonempty: "write_bytes xs \<noteq> []"
  by (simp add: write_bytes_def)

lemma rd_bytes_append:
  assumes "rd_rest r = write_bytes xs @ zs" "length xs < 2 ^ 64"
  shows "rd_bytes r = Inr (xs, rd_adv (length (write_bytes xs)) r)"
proof -
  let ?n = "of_nat (length xs) :: u64"
  have n: "unat ?n = length xs" using assms(2) by (simp add: unat_of_nat_64)
  have "varint r = Inr (?n, rd_adv (length (write_varint ?n)) r)"
    using assms(1) by (intro varint_write) (simp add: write_bytes_def)
  then show ?thesis
    using assms(1) n by (simp add: rd_bytes_def rd_len_def write_bytes_def rd_take_append)
qed

lemma rd_bytes_read:
  assumes "rd_bytes r = Inr (xs, r')"
  shows "length xs < 2 ^ 64 \<and> r' = rd_adv (length (write_bytes xs)) r \<and> (\<exists>zs. rd_rest r = write_bytes xs @ zs)"
proof -
  from assms obtain n r1 where n: "varint r = Inr (n, r1)" and t: "rd_take (unat n) r1 = Inr (xs, r')"
    by (auto simp: rd_bytes_def rd_len_def split: prod.splits)
  from rd_take_InrD [OF t] obtain ys where
    xs: "length xs = unat n" "r' = rd_adv (unat n) r1" "rd_rest r1 = xs @ ys"
    by blast
  from varint_read [OF n] obtain zs where
    "r1 = rd_adv (length (write_varint n)) r" "rd_rest r = write_varint n @ zs"
    by blast
  moreover from xs(1) have "of_nat (length xs) = n" by simp
  ultimately show ?thesis using xs unsigned_less [of n] by (auto simp: write_bytes_def)
qed

interpretation bl: canon_codec write_bytes "\<lambda>_. rd_bytes" "\<lambda>_ xs. length xs < 2 ^ 64"
  by unfold_locales (auto dest: rd_bytes_append rd_bytes_read simp: write_bytes_nonempty)

end
