(* ===== verification/Payload.thy ===== *)
theory Payload
  imports Codec Utf8
begin

text \<open>
  The payload codecs of constant-pool entries in \<open>src/src/core_ir_05/mod.rs\<close> (bool, int, text, bytes,
  parameter slots) and the hexadecimal form of a hash. An \<open>i64\<close> is a 64-bit word. \<open>PayloadPanic\<close> stands
  for a Rust panic: the sum \<open>pos + len\<close> of a length prefix may exceed \<open>usize\<close>.
\<close>

section \<open>Hexadecimal hashes\<close>

definition hex_digit :: "nat \<Rightarrow> u8" where
  "hex_digit n = (if n < 10 then of_nat (48 + n) else of_nat (87 + n))"

definition hash256_to_hex :: "hash256 \<Rightarrow> rstring" where
  "hash256_to_hex h = concat (map (\<lambda>b. [hex_digit (unat b div 16), hex_digit (unat b mod 16)]) h)"

definition hex_nibble :: "u8 \<Rightarrow> u8 option" where
  "hex_nibble c =
     (if 0x30 \<le> c \<and> c \<le> 0x39 then Some (c - 0x30)
      else if 0x61 \<le> c \<and> c \<le> 0x66 then Some (c - 0x61 + 10)
      else if 0x41 \<le> c \<and> c \<le> 0x46 then Some (c - 0x41 + 10)
      else None)"

datatype hex_error = HexLength nat | InvalidHexDigit

text \<open>\<open>trim_start_matches("0x")\<close> strips the prefix as often as it repeats.\<close>

fun trim_0x :: "rstring \<Rightarrow> rstring" where
  "trim_0x (a # b # s) = (if a = 0x30 \<and> b = 0x78 then trim_0x s else a # b # s)"
| "trim_0x s = s"

fun hex_pairs :: "bytes \<Rightarrow> hex_error + bytes" where
  "hex_pairs (a # b # s) =
     (case hex_nibble a of None \<Rightarrow> Inl InvalidHexDigit
      | Some hi \<Rightarrow>
          (case hex_nibble b of None \<Rightarrow> Inl InvalidHexDigit
           | Some lo \<Rightarrow> bindE (hex_pairs s) (\<lambda>out. Inr ((push_bit 4 hi OR lo) # out))))"
| "hex_pairs s = Inr []"

definition hex_to_hash256 :: "rstring \<Rightarrow> hex_error + hash256" where
  "hex_to_hash256 s0 =
     (let s = trim_0x s0 in
      if length s \<noteq> 64 then Inl (HexLength (length s)) else hex_pairs s)"

section \<open>Payloads\<close>

datatype payload_error =
    InvalidBool bytes
  | TruncatedVarint
  | VarintTooLong
  | TruncatedPayload
  | Utf8Error
  | BadLength nat
  | PayloadPanic

definition encode_bool_payload :: "bool \<Rightarrow> bytes" where
  "encode_bool_payload v = [if v then 0x01 else 0x00]"

definition decode_bool_payload :: "bytes \<Rightarrow> payload_error + bool" where
  "decode_bool_payload p =
     (if p = [0x00] then Inr False else if p = [0x01] then Inr True else Inl (InvalidBool p))"

definition zigzag :: "64 word \<Rightarrow> u64" where
  "zigzag v = push_bit 1 v XOR signed_drop_bit 63 v"

definition encode_int_payload :: "64 word \<Rightarrow> bytes" where
  "encode_int_payload v = write_varint (zigzag v)"

definition encode_text_payload :: "rstring \<Rightarrow> bytes" where
  "encode_text_payload v = write_varint (of_nat (length v)) @ v"

definition encode_bytes_payload :: "bytes \<Rightarrow> bytes" where
  "encode_bytes_payload v = write_varint (of_nat (length v)) @ v"

text \<open>
  The decoders' LEB128 loop, with the bytes left after it: unlike the canonical reader it accepts
  padded encodings and drops bits shifted past bit 63.
\<close>

fun leb_loop :: "u64 \<Rightarrow> nat \<Rightarrow> bytes \<Rightarrow> payload_error + u64 \<times> bytes" where
  "leb_loop acc shift [] = Inl TruncatedVarint"
| "leb_loop acc shift (b # bs) =
     (let acc' = acc OR push_bit shift (ucast (b AND 0x7f)) in
      if b AND 0x80 = 0 then Inr (acc', bs)
      else if 64 \<le> shift + 7 then Inl VarintTooLong
      else leb_loop acc' (shift + 7) bs)"

definition decode_unsigned_varint :: "bytes \<Rightarrow> payload_error + u64" where
  "decode_unsigned_varint p = bindE (leb_loop 0 0 p) (\<lambda>(v, _). Inr v)"

definition decode_int_payload :: "bytes \<Rightarrow> payload_error + 64 word" where
  "decode_int_payload p =
     bindE (leb_loop 0 0 p) (\<lambda>(v, _). Inr (drop_bit 1 v XOR - (v AND 1)))"

definition decode_bytes_payload :: "bytes \<Rightarrow> payload_error + bytes" where
  "decode_bytes_payload p =
     bindE (leb_loop 0 0 p) (\<lambda>(len, rest).
       let pos = length p - length rest in
       if 2 ^ 64 \<le> pos + unat len then Inl PayloadPanic
       else if length p < pos + unat len then Inl TruncatedPayload
       else Inr (take (unat len) (drop pos p)))"

definition decode_text_payload :: "bytes \<Rightarrow> payload_error + rstring" where
  "decode_text_payload p =
     bindE (decode_bytes_payload p) (\<lambda>v. if utf8_valid v then Inr v else Inl Utf8Error)"

text \<open>A float travels as its eight little-endian bytes; the value itself is kept as its bit pattern.\<close>

fun le_bytes :: "nat \<Rightarrow> u64 \<Rightarrow> bytes" where
  "le_bytes 0 w = []"
| "le_bytes (Suc n) w = ucast w # le_bytes n (drop_bit 8 w)"

fun from_le_bytes :: "bytes \<Rightarrow> u64" where
  "from_le_bytes [] = 0"
| "from_le_bytes (b # bs) = ucast b OR push_bit 8 (from_le_bytes bs)"

definition encode_float_payload :: "u64 \<Rightarrow> bytes" where
  "encode_float_payload v = le_bytes 8 v"

definition decode_float_payload :: "bytes \<Rightarrow> payload_error + u64" where
  "decode_float_payload p = (if length p \<noteq> 8 then Inl (BadLength (length p)) else Inr (from_le_bytes p))"

section \<open>Round trips\<close>

lemma leb_loop_write:
  assumes "unat w < 2 ^ (64 - s)" "s < 64"
  shows "leb_loop acc s (write_varint w @ zs) = Inr (acc OR push_bit s w, zs)"
  using assms
proof (induction w arbitrary: acc s rule: write_varint.induct)
  case (1 w)
  let ?b = "ucast (w AND 127) :: u8"
  show ?case
  proof (cases "drop_bit 7 w = 0")
    case True
    then have w: "w AND 127 = w" by (simp add: drop7_zero and7_small)
    have wr: "write_varint w = [?b]" using True by (simp add: write_varint.simps)
    show ?thesis using wr w low7' [of w] low7'' [of w] cont_bit_clear [of w] by (simp add: Let_def)
  next
    case False
    let ?w' = "drop_bit 7 w"
    have wr: "write_varint w = (?b OR 128) # write_varint ?w'"
      using False by (subst write_varint.simps) (simp add: Let_def)
    have big: "128 \<le> unat w" using False by (simp add: drop7_zero)
    note s = shift_room [OF "1.prems"(1) big] and small = shift_small [OF "1.prems"(1) big]
    from "1.IH" [OF refl refl False small s, of "acc OR push_bit s (w AND 127)"]
    show ?thesis
      using wr s cont_bit_set [of w] low7 [of w] low7'' [of w]
      by (simp add: Let_def or_push_split del: push_bit_and)
  qed
qed


lemma leb_varint: "leb_loop 0 0 (write_varint w @ zs) = Inr (w, zs)"
  using leb_loop_write [of w 0 0 zs] unat_bound [of w] by simp

lemma unzigzag: "drop_bit 1 (zigzag v) XOR - (zigzag v AND 1) = v"
proof -
  have sgn: "signed_drop_bit 63 v = (if bit v 63 then - 1 else 0)"
    by (rule bit_word_eqI) (auto simp: bit_simps Suc_le_eq)
  have low: "zigzag v AND 1 = of_bool (bit v 63)"
    by (rule bit_word_eqI) (auto simp: zigzag_def sgn bit_simps simp del: push_bit_Suc)
  show ?thesis unfolding low
  proof (rule bit_word_eqI)
    fix n assume "n < LENGTH(64)"
    then have "n < 63 \<or> n = 63" by auto
    then show "bit (drop_bit 1 (zigzag v) XOR - of_bool (bit v 63)) n = bit v n"
      by (auto simp: zigzag_def sgn bit_simps simp del: push_bit_Suc)
  qed
qed

lemma decode_encode_int: "decode_int_payload (encode_int_payload v) = Inr v"
  using leb_varint [of "zigzag v" "[]"] unzigzag [of v]
  by (simp add: decode_int_payload_def encode_int_payload_def)

lemma decode_encode_bytes:
  assumes "length (encode_bytes_payload v) < 2 ^ 64"
  shows "decode_bytes_payload (encode_bytes_payload v) = Inr v"
proof -
  have "unat (of_nat (length v) :: u64) = length v"
    using assms by (intro unat_of_nat_64) (simp add: encode_bytes_payload_def)
  then show ?thesis
    using assms leb_varint [of "of_nat (length v)" v]
    by (simp add: decode_bytes_payload_def encode_bytes_payload_def)
qed

lemma decode_encode_text:
  "utf8_valid v \<Longrightarrow> length (encode_text_payload v) < 2 ^ 64 \<Longrightarrow>
     decode_text_payload (encode_text_payload v) = Inr v"
  using decode_encode_bytes [of v]
  by (simp add: decode_text_payload_def encode_text_payload_def encode_bytes_payload_def)

lemma hex_nibble_digit: "n < 16 \<Longrightarrow> hex_nibble (hex_digit n) = Some (of_nat n)"
proof (cases "n < 10")
  case True
  then have "unat (of_nat (48 + n) :: u8) = 48 + n" by (intro unat_of_nat_8) simp
  with True show ?thesis by (simp add: hex_nibble_def hex_digit_def word_le_nat_alt)
next
  case False
  assume "n < 16"
  then have "unat (of_nat (87 + n) :: u8) = 87 + n" by (intro unat_of_nat_8) simp
  with False \<open>n < 16\<close> show ?thesis by (simp add: hex_nibble_def hex_digit_def word_le_nat_alt)
qed

lemma byte_of_nibbles: "push_bit 4 (of_nat (unat b div 16)) OR of_nat (unat b mod 16) = b" for b :: u8
proof -
  have "unat b < 256" using unat_bound [of b] by simp
  then have "of_nat (unat b div 16) = drop_bit 4 b" "of_nat (unat b mod 16) = take_bit 4 b"
    by (simp_all add: word_unat_eq_iff unat_of_nat_8 unat_drop_bit unsigned_take_bit_eq)
      (simp add: take_bit_eq_mod)
  then show ?thesis by (simp only:) (rule bit_word_eqI, auto simp: bit_simps)
qed

lemma hex_pairs_hex: "hex_pairs (hash256_to_hex h) = Inr h"
proof (induction h)
  case (Cons a h)
  have "unat a div 16 < 16" using unat_bound [of a] by simp
  with Cons show ?case by (simp add: hash256_to_hex_def hex_nibble_digit byte_of_nibbles)
qed (simp add: hash256_to_hex_def)

lemma hash256_to_hex_length: "length (hash256_to_hex h) = 2 * length h"
  by (induction h) (simp_all add: hash256_to_hex_def)

lemma hex_digit_not_x: "n < 16 \<Longrightarrow> hex_digit n \<noteq> 0x78"
  using hex_nibble_digit [of n] by (auto simp: hex_nibble_def word_le_nat_alt)

lemma hex_digit_range: "n < 16 \<Longrightarrow> 48 \<le> unat (hex_digit n) \<and> unat (hex_digit n) < 103"
proof -
  assume n: "n < 16"
  then have "unat (of_nat (48 + n) :: u8) = 48 + n" "unat (of_nat (87 + n) :: u8) = 87 + n" by (simp_all only: unat_of_nat_8)
  with n show ?thesis by (simp only: hex_digit_def) simp
qed

lemma hex_range: "list_all (\<lambda>b. 48 \<le> unat b \<and> unat b < 103) (hash256_to_hex h)"
proof (induction h)
  case (Cons a h)
  have "unat a div 16 < 16" using unat_bound [of a] by simp
  with Cons show ?case by (simp add: hash256_to_hex_def hex_digit_range)
qed (simp add: hash256_to_hex_def)

lemma trim_0x_hex: "trim_0x (hash256_to_hex h) = hash256_to_hex h"
  by (cases h) (simp_all add: hash256_to_hex_def hex_digit_not_x)

lemma le_bytes_length [simp]: "length (le_bytes n w) = n"
  by (induction n arbitrary: w) auto

lemma from_le_bytes_le: "n \<le> 8 \<Longrightarrow> from_le_bytes (le_bytes n w) = take_bit (8 * n) w"
proof (induction n arbitrary: w)
  case (Suc n)
  then have IH: "from_le_bytes (le_bytes n (drop_bit 8 w)) = take_bit (8 * n) (drop_bit 8 w)" by simp
  show ?case unfolding le_bytes.simps from_le_bytes.simps IH
    using Suc.prems by (intro bit_word_eqI) (auto simp: bit_simps)
qed simp


text \<open>
  Scalar payloads round-trip on every value: any \<open>i64\<close> through zig-zag and LEB128, any \<open>bool\<close>, any
  64-bit float pattern, and any unsigned slot index.
\<close>

theorem scalar_payload_roundtrip:
  "decode_int_payload (encode_int_payload v) = Inr v \<and>
   decode_bool_payload (encode_bool_payload b) = Inr b \<and>
   decode_float_payload (encode_float_payload f) = Inr f \<and>
   decode_unsigned_varint (write_varint w) = Inr w"
  using decode_encode_int [of v] from_le_bytes_le [of 8 f] leb_varint [of w "[]"]
  by (simp add: decode_bool_payload_def encode_bool_payload_def decode_float_payload_def
      encode_float_payload_def decode_unsigned_varint_def take_bit_word_eq_self)

text \<open>
  Text and byte payloads round-trip: a well-formed string, and any byte string, is decoded from its
  own encoding, provided that the encoding's length fits a \<open>usize\<close>.
\<close>

theorem text_payload_roundtrip:
  assumes "length (encode_text_payload v) < 2 ^ 64"
  shows "decode_bytes_payload (encode_bytes_payload v) = Inr v \<and>
    decode_text_payload (encode_text_payload v) = (if utf8_valid v then Inr v else Inl Utf8Error)"
  using assms decode_encode_bytes [of v] decode_encode_text [of v]
  by (simp add: encode_text_payload_def encode_bytes_payload_def decode_text_payload_def)

theorem text_payload_roundtrip_witness:
  "decode_text_payload (encode_text_payload [0x6e, 0x6f]) = Inr [0x6e, 0x6f]"
proof -
  have "utf8_valid [0x6e, 0x6f]" by (simp add: utf8_valid_def utf8_valid_ascii)
  moreover have "length (encode_text_payload [0x6e, 0x6f]) < 2 ^ 64"
    by (simp add: encode_text_payload_def write_varint.simps)
  ultimately show ?thesis using text_payload_roundtrip [of "[0x6e, 0x6f]"] by simp
qed

text \<open>
  A length prefix near \<open>2^64\<close> is not refused: the sum of position and length exceeds \<open>usize\<close>, so
  the decoders of text and bytes payloads panic instead of returning an error.
\<close>

theorem length_prefix_panics:
  "decode_bytes_payload (replicate 9 0xff @ [0x01]) = Inl PayloadPanic \<and>
   decode_text_payload (replicate 9 0xff @ [0x01]) = Inl PayloadPanic"
proof -
  have "leb_loop 0 0 (replicate 9 0xff @ [0x01]) = Inr (- 1, [])" by code_simp
  moreover have "unat (- 1 :: u64) = 2 ^ 64 - 1" by (simp add: unsigned_minus_1_eq_mask mask_eq_exp_minus_1)
  ultimately show ?thesis by (simp add: decode_bytes_payload_def decode_text_payload_def)
qed

text \<open>
  The hexadecimal form of a 32-byte hash is read back as that hash.
\<close>

theorem hex_hash_roundtrip:
  assumes "length h = 32"
  shows "hex_to_hash256 (hash256_to_hex h) = Inr h"
  using assms by (simp add: hex_to_hash256_def trim_0x_hex hex_pairs_hex hash256_to_hex_length)

theorem hex_hash_roundtrip_witness: "hex_to_hash256 (hash256_to_hex (replicate 32 0xab)) = Inr (replicate 32 0xab)"
  by (rule hex_hash_roundtrip) simp

end
