(* ===== verification/Hmap.thy ===== *)
theory Hmap
  imports Decimal Payload "HOL-Library.Multiset" "HOL-Library.List_Lexorder"
begin

text \<open>
  Local mutable maps and the frozen maps they turn into (\<open>src/src/runtime/hmap.rs\<close>). Every thread has a table of slots, a
  handle names its owner, a slot and a generation. Generations, copy counts and slot numbers have the 32 bits of the code.
  The world is the tables of all threads and the handles that exist; any thread may hold any handle. A panic is a value of
  the error type and leaves the tables as they are.
\<close>

section \<open>Tables and handles\<close>

type_synonym text_map = "rstring \<Rightarrow> rstring option"
type_synonym thread_id = nat

datatype slot_state = Free | Live text_map | Dead

record hm_entry =
  he_gen :: u32
  he_count :: u32
  he_state :: slot_state

text \<open>The last element pushed on the vector \<open>free\<close> is the head of the list.\<close>

record hm_table =
  ht_slots :: "hm_entry list"
  ht_free :: "nat list"

record local_map =
  lm_owner :: thread_id
  lm_index :: u32
  lm_gen :: u32
  lm_counted :: bool

datatype map_value = Local local_map | Frozen text_map | NoMapValue

datatype hmap_error = NotAMap | NotWritable | NotFrozen | WrongThread thread_id | IsDead | HasNoMap

text \<open>\<open>t.slots.get_mut(index)\<close>\<close>

definition slot_of :: "local_map \<Rightarrow> hm_table \<Rightarrow> hm_entry option" where
  "slot_of h t = (if unat (lm_index h) < length (ht_slots t) then Some (ht_slots t ! unat (lm_index h)) else None)"

definition set_slot :: "nat \<Rightarrow> hm_entry \<Rightarrow> hm_table \<Rightarrow> hm_table" where
  "set_slot i e t = t\<lparr>ht_slots := (ht_slots t)[i := e]\<rparr>"

definition clone_handle :: "thread_id \<Rightarrow> local_map \<Rightarrow> hm_table \<Rightarrow> local_map \<times> hm_table" where
  "clone_handle me h t =
     (if lm_owner h \<noteq> me then (h\<lparr>lm_counted := False\<rparr>, t)
      else case slot_of h t of
        None \<Rightarrow> (h\<lparr>lm_counted := False\<rparr>, t)
      | Some e \<Rightarrow>
          if he_gen e = lm_gen h \<and> he_state e \<noteq> Free
          then (h\<lparr>lm_counted := True\<rparr>, set_slot (unat (lm_index h)) (e\<lparr>he_count := he_count e + 1\<rparr>) t)
          else (h\<lparr>lm_counted := False\<rparr>, t))"

definition drop_handle :: "thread_id \<Rightarrow> local_map \<Rightarrow> hm_table \<Rightarrow> hm_table" where
  "drop_handle me h t =
     (if \<not> lm_counted h \<or> lm_owner h \<noteq> me then t
      else case slot_of h t of
        None \<Rightarrow> t
      | Some e \<Rightarrow>
          if he_gen e = lm_gen h \<and> he_state e \<noteq> Free then
            let e = e\<lparr>he_count := he_count e - 1\<rparr> in
            if he_count e = 0
            then (set_slot (unat (lm_index h)) (e\<lparr>he_state := Free, he_gen := he_gen e + 1\<rparr>) t)
                   \<lparr>ht_free := unat (lm_index h) # ht_free t\<rparr>
            else set_slot (unat (lm_index h)) e t
          else t)"

section \<open>Operations\<close>

definition owner_check :: "thread_id \<Rightarrow> local_map \<Rightarrow> hmap_error + unit" where
  "owner_check me h = (if lm_owner h \<noteq> me then Inl (WrongThread (lm_owner h)) else Inr ())"

definition on_live :: "thread_id \<Rightarrow> local_map \<Rightarrow> hm_table \<Rightarrow> hmap_error + text_map" where
  "on_live me h t =
     bindE (owner_check me h) (\<lambda>_.
       case slot_of h t of
         None \<Rightarrow> Inl HasNoMap
       | Some e \<Rightarrow>
           if he_gen e = lm_gen h
           then (case he_state e of Live m \<Rightarrow> Inr m | Dead \<Rightarrow> Inl IsDead | Free \<Rightarrow> Inl HasNoMap)
           else Inl HasNoMap)"

text \<open>What the closure given to \<open>on_live\<close> leaves in the slot.\<close>

definition set_live :: "local_map \<Rightarrow> slot_state \<Rightarrow> hm_table \<Rightarrow> hm_table" where
  "set_live h st t =
     (case slot_of h t of
        None \<Rightarrow> t
      | Some e \<Rightarrow> set_slot (unat (lm_index h)) (e\<lparr>he_state := st\<rparr>) t)"

definition hmap_lookup :: "thread_id \<Rightarrow> map_value \<Rightarrow> rstring \<Rightarrow> hm_table \<Rightarrow> hmap_error + rstring option" where
  "hmap_lookup me v key t =
     (case v of
        Local h \<Rightarrow> bindE (on_live me h t) (\<lambda>m. Inr (m key))
      | Frozen m \<Rightarrow> Inr (m key)
      | NoMapValue \<Rightarrow> Inl NotAMap)"

definition hmap_new :: "thread_id \<Rightarrow> hm_table \<Rightarrow> local_map \<times> hm_table" where
  "hmap_new me t =
     (let (i, g, t') =
        (case ht_free t of
           i # fr \<Rightarrow>
             let e = ht_slots t ! i in
             (i, he_gen e, (set_slot i (e\<lparr>he_count := 1, he_state := Live Map.empty\<rparr>) t)\<lparr>ht_free := fr\<rparr>)
         | [] \<Rightarrow>
             (length (ht_slots t), 0,
              t\<lparr>ht_slots := ht_slots t @ [\<lparr>he_gen = 0, he_count = 1, he_state = Live Map.empty\<rparr>]\<rparr>)) in
      (\<lparr>lm_owner = me, lm_index = of_nat i, lm_gen = g, lm_counted = True\<rparr>, t'))"

definition hmap_put ::
  "thread_id \<Rightarrow> map_value \<Rightarrow> rstring \<Rightarrow> rstring \<Rightarrow> hm_table \<Rightarrow> hmap_error + bool \<times> hm_table" where
  "hmap_put me h k v t =
     (case h of
        Local l \<Rightarrow> bindE (on_live me l t) (\<lambda>m. Inr (m k = None, set_live l (Live (m(k \<mapsto> v))) t))
      | _ \<Rightarrow> Inl NotWritable)"

definition hmap_has :: "thread_id \<Rightarrow> map_value \<Rightarrow> rstring \<Rightarrow> hm_table \<Rightarrow> hmap_error + bool" where
  "hmap_has me h k t = bindE (hmap_lookup me h k t) (\<lambda>r. Inr (r \<noteq> None))"

definition hmap_get :: "thread_id \<Rightarrow> map_value \<Rightarrow> rstring \<Rightarrow> hm_table \<Rightarrow> hmap_error + rstring" where
  "hmap_get me h k t =
     bindE (hmap_lookup me h k t) (\<lambda>r. Inr (case r of Some v \<Rightarrow> lit ''Ok:'' @ v | None \<Rightarrow> lit ''Unknown''))"

definition hmap_freeze :: "thread_id \<Rightarrow> map_value \<Rightarrow> hm_table \<Rightarrow> hmap_error + map_value \<times> hm_table" where
  "hmap_freeze me h t =
     (case h of
        Local l \<Rightarrow> bindE (on_live me l t) (\<lambda>m. Inr (Frozen m, set_live l Dead t))
      | _ \<Rightarrow> Inl NotWritable)"

text \<open>The bytes that are hashed: the entries in the byte order of their keys.\<close>

definition hash_input :: "text_map \<Rightarrow> bytes" where
  "hash_input m =
     concat (map (\<lambda>k. le_bytes 8 (of_nat (length k)) @ k @ le_bytes 8 (of_nat (length (the (m k)))) @ the (m k)) (sorted_list_of_set (dom m)))"

definition hash_of :: "(bytes \<Rightarrow> hash256) \<Rightarrow> text_map \<Rightarrow> rstring" where
  "hash_of sha m = lit ''sha256:'' @ hash256_to_hex (sha (hash_input m))"

definition hmap_hash :: "(bytes \<Rightarrow> hash256) \<Rightarrow> map_value \<Rightarrow> hmap_error + rstring" where
  "hmap_hash sha v = (case v of Frozen m \<Rightarrow> Inr (hash_of sha m) | _ \<Rightarrow> Inl NotFrozen)"

section \<open>Runs\<close>

text \<open>The identity of a map: owner, slot, generation. \<open>hw_issued\<close> records those that \<open>hmap_new\<close> has returned.\<close>

type_synonym map_id = "thread_id \<times> nat \<times> u32"

definition id_of :: "local_map \<Rightarrow> map_id" where
  "id_of h = (lm_owner h, unat (lm_index h), lm_gen h)"

record hm_world =
  hw_tables :: "thread_id \<Rightarrow> hm_table"
  hw_held :: "local_map multiset"
  hw_issued :: "map_id set"

definition hm_init :: hm_world where
  "hm_init = \<lparr>hw_tables = (\<lambda>_. \<lparr>ht_slots = [], ht_free = []\<rparr>), hw_held = {#}, hw_issued = {}\<rparr>"

definition put_table :: "thread_id \<Rightarrow> hm_table \<Rightarrow> hm_world \<Rightarrow> hm_world" where
  "put_table me t w = w\<lparr>hw_tables := (hw_tables w)(me := t)\<rparr>"

datatype hm_op =
    OpNew thread_id
  | OpClone thread_id local_map
  | OpDrop thread_id local_map
  | OpPut thread_id local_map rstring rstring bool
  | OpFreeze thread_id local_map text_map

inductive hm_step :: "hm_world \<Rightarrow> hm_op \<Rightarrow> hm_world \<Rightarrow> bool" where
  new: "hmap_new me (hw_tables w me) = (h, t) \<Longrightarrow>
    hm_step w (OpNew me) ((put_table me t w)\<lparr>hw_held := add_mset h (hw_held w), hw_issued := insert (id_of h) (hw_issued w)\<rparr>)"
| clone: "h \<in># hw_held w \<Longrightarrow> clone_handle me h (hw_tables w me) = (h', t) \<Longrightarrow>
    hm_step w (OpClone me h) ((put_table me t w)\<lparr>hw_held := add_mset h' (hw_held w)\<rparr>)"
| drop: "h \<in># hw_held w \<Longrightarrow>
    hm_step w (OpDrop me h) ((put_table me (drop_handle me h (hw_tables w me)) w)\<lparr>hw_held := hw_held w - {#h#}\<rparr>)"
| put: "h \<in># hw_held w \<Longrightarrow> hmap_put me (Local h) k v (hw_tables w me) = Inr (b, t) \<Longrightarrow>
    hm_step w (OpPut me h k v b) (put_table me t w)"
| freeze: "h \<in># hw_held w \<Longrightarrow> hmap_freeze me (Local h) (hw_tables w me) = Inr (Frozen m, t) \<Longrightarrow>
    hm_step w (OpFreeze me h m) (put_table me t w)"

inductive hm_run :: "nat \<Rightarrow> hm_world \<Rightarrow> bool" where
  start: "hm_run 0 hm_init"
| step: "hm_run n w \<Longrightarrow> hm_step w x w' \<Longrightarrow> hm_run (Suc n) w'"

section \<open>What is promised\<close>

text \<open>A store of maps by identity. An identity is used for one map only; a map goes when it is frozen, or when a handle is
  dropped and no counted handle of it is left.\<close>

definition map_of_id :: "hm_world \<Rightarrow> map_id \<Rightarrow> text_map option" where
  "map_of_id w = (\<lambda>(ow, i, g).
     let t = hw_tables w ow in
     if i < length (ht_slots t) \<and> he_gen (ht_slots t ! i) = g
     then (case he_state (ht_slots t ! i) of Live m \<Rightarrow> Some m | _ \<Rightarrow> None)
     else None)"

definition holds :: "local_map multiset \<Rightarrow> map_id \<Rightarrow> nat" where
  "holds hs d = size (filter_mset (\<lambda>h. lm_counted h \<and> id_of h = d) hs)"

inductive store_step ::
  "(map_id \<Rightarrow> text_map option) \<times> map_id set \<Rightarrow> local_map multiset \<Rightarrow> hm_op \<Rightarrow> (map_id \<Rightarrow> text_map option) \<times> map_id set \<Rightarrow> bool" where
  created: "d \<notin> issued \<Longrightarrow> fst d = me \<Longrightarrow> store_step (maps, issued) hs (OpNew me) (maps(d \<mapsto> Map.empty), insert d issued)"
| copied: "store_step (maps, issued) hs (OpClone me h) (maps, issued)"
| kept: "store_step (maps, issued) hs (OpDrop me h) (maps, issued)"
| collected: "holds (hs - {#h#}) (id_of h) = 0 \<Longrightarrow>
    store_step (maps, issued) hs (OpDrop me h) (maps(id_of h := None), issued)"
| written: "maps (id_of h) = Some m \<Longrightarrow> me = lm_owner h \<Longrightarrow> b = (m k = None) \<Longrightarrow>
    store_step (maps, issued) hs (OpPut me h k v b) (maps(id_of h \<mapsto> m(k \<mapsto> v)), issued)"
| frozen: "maps (id_of h) = Some m \<Longrightarrow> me = lm_owner h \<Longrightarrow>
    store_step (maps, issued) hs (OpFreeze me h m) (maps(id_of h := None), issued)"

section \<open>The invariant\<close>

definition entry_ok :: "nat \<Rightarrow> local_map multiset \<Rightarrow> thread_id \<Rightarrow> nat \<Rightarrow> hm_entry \<Rightarrow> bool" where
  "entry_ok n hs ow i e \<longleftrightarrow> unat (he_gen e) \<le> n \<and> unat (he_count e) \<le> n \<and>
     (he_state e \<noteq> Free \<longrightarrow> holds hs (ow, i, he_gen e) \<le> unat (he_count e))"

definition table_ok :: "nat \<Rightarrow> local_map multiset \<Rightarrow> thread_id \<Rightarrow> hm_table \<Rightarrow> bool" where
  "table_ok n hs ow t \<longleftrightarrow> length (ht_slots t) \<le> n \<and> distinct (ht_free t) \<and>
     (\<forall>i\<in>set (ht_free t). i < length (ht_slots t) \<and> he_state (ht_slots t ! i) = Free) \<and>
     (\<forall>i<length (ht_slots t). entry_ok n hs ow i (ht_slots t ! i))"

definition slot_used :: "hm_world \<Rightarrow> map_id \<Rightarrow> bool" where
  "slot_used w = (\<lambda>(ow, i, g).
     let t = hw_tables w ow in
     i < length (ht_slots t) \<and> g \<le> he_gen (ht_slots t ! i) \<and> (he_state (ht_slots t ! i) = Free \<longrightarrow> g < he_gen (ht_slots t ! i)))"

definition slot_held :: "hm_world \<Rightarrow> local_map \<Rightarrow> bool" where
  "slot_held w h \<longleftrightarrow>
     (case slot_of h (hw_tables w (lm_owner h)) of Some e \<Rightarrow> he_gen e = lm_gen h \<and> he_state e \<noteq> Free | None \<Rightarrow> False)"

definition hm_inv :: "nat \<Rightarrow> hm_world \<Rightarrow> bool" where
  "hm_inv n w \<longleftrightarrow> (\<forall>ow. table_ok n (hw_held w) ow (hw_tables w ow)) \<and>
     (\<forall>d\<in>hw_issued w. slot_used w d) \<and>
     (\<forall>h. h \<in># hw_held w \<longrightarrow> id_of h \<in> hw_issued w \<and> (lm_counted h \<longrightarrow> slot_held w h))"

end
