(* ===== verification/HmapRules.thy ===== *)
theory HmapRules
  imports Hmap
begin

text \<open>
  The tables of hmap implement a store of maps by identity, as long as fewer than 2^32 - 1 operations have run: no
  generation, count or slot number has wrapped by then.
\<close>

section \<open>Counted handles\<close>

lemma holds_add: "holds (add_mset h hs) d = (if lm_counted h \<and> id_of h = d then Suc (holds hs d) else holds hs d)"
  by (simp add: holds_def)

lemma holds_remove: "h \<in># hs \<Longrightarrow> holds (hs - {#h#}) d = (if lm_counted h \<and> id_of h = d then holds hs d - 1 else holds hs d)"
  by (auto dest!: multi_member_split simp: holds_add)

lemma holds_pos: "h \<in># hs \<Longrightarrow> lm_counted h \<Longrightarrow> 0 < holds hs (id_of h)"
  by (auto dest!: multi_member_split simp: holds_add)

lemma holds_none: "holds hs d = 0 \<Longrightarrow> h \<in># hs \<Longrightarrow> lm_counted h \<Longrightarrow> id_of h \<noteq> d"
  using holds_pos by (metis less_irrefl)

lemma holds_exists: "0 < holds hs d \<Longrightarrow> \<exists>h. h \<in># hs \<and> lm_counted h \<and> id_of h = d"
proof -
  assume "0 < holds hs d"
  then obtain h where "h \<in># filter_mset (\<lambda>h. lm_counted h \<and> id_of h = d) hs"
    unfolding holds_def by (metis less_irrefl size_empty multiset_nonemptyE)
  then show ?thesis by auto
qed

lemma unat_of_nat_32: "k < 2 ^ 32 \<Longrightarrow> unat (of_nat k :: u32) = k"
  by (simp add: unat_of_nat take_bit_nat_eq_self)

lemma unat_Suc_32: "unat w < 2 ^ 32 - 1 \<Longrightarrow> unat (w + 1) = Suc (unat w)" for w :: u32
  by (subst unat_add_lem [THEN iffD1]) simp_all

lemma unat_dec_32: "0 < unat w \<Longrightarrow> unat (w - 1) = unat w - 1" for w :: u32
  by (subst unat_sub) (simp_all add: word_le_nat_alt)

section \<open>One slot changes\<close>

lemma entry_ok_mono:
  "entry_ok n hs ow i e \<Longrightarrow> holds hs' (ow, i, he_gen e) \<le> holds hs (ow, i, he_gen e) \<Longrightarrow> entry_ok (Suc n) hs' ow i e"
  by (auto simp: entry_ok_def)

lemma table_ok_mono:
  "table_ok n hs ow t \<Longrightarrow> (\<And>i g. holds hs' (ow, i, g) \<le> holds hs (ow, i, g)) \<Longrightarrow> table_ok (Suc n) hs' ow t"
  by (auto simp: table_ok_def intro: entry_ok_mono)

lemma table_set:
  assumes "table_ok n hs ow t" "i < length (ht_slots t)" "entry_ok (Suc n) hs' ow i e"
    and "\<And>j g. j \<noteq> i \<Longrightarrow> holds hs' (ow, j, g) \<le> holds hs (ow, j, g)"
    and "distinct fr" "\<And>j. j \<in> set fr \<Longrightarrow> j < length (ht_slots t) \<and> he_state ((ht_slots t)[i := e] ! j) = Free"
  shows "table_ok (Suc n) hs' ow ((set_slot i e t)\<lparr>ht_free := fr\<rparr>)"
proof -
  have "entry_ok (Suc n) hs' ow j ((ht_slots t)[i := e] ! j)" if j: "j < length (ht_slots t)" for j
  proof (cases "j = i")
    case False
    have "entry_ok n hs ow j (ht_slots t ! j)" using assms(1) j by (simp add: table_ok_def)
    with False show ?thesis using assms(4) [OF False] by (simp add: entry_ok_mono)
  qed (use assms(2,3) in simp)
  with assms show ?thesis by (simp add: table_ok_def set_slot_def)
qed

lemma set_slot_free [simp]: "(set_slot i e t)\<lparr>ht_free := ht_free t\<rparr> = set_slot i e t"
  by (simp add: set_slot_def)

lemma table_set_keep:
  assumes "table_ok n hs ow t" "i < length (ht_slots t)" "entry_ok (Suc n) hs' ow i e"
    and "\<And>j g. j \<noteq> i \<Longrightarrow> holds hs' (ow, j, g) \<le> holds hs (ow, j, g)" "i \<notin> set (ht_free t)"
  shows "table_ok (Suc n) hs' ow (set_slot i e t)"
proof -
  have fr: "j < length (ht_slots t) \<and> he_state ((ht_slots t)[i := e] ! j) = Free" if "j \<in> set (ht_free t)" for j
  proof -
    have "j \<noteq> i" using that assms(5) by blast
    then show ?thesis using that assms(1) by (simp add: table_ok_def)
  qed
  have "distinct (ht_free t)" using assms(1) by (simp add: table_ok_def)
  from table_set [OF assms(1-4) this fr] show ?thesis by simp
qed

lemma used_set:
  assumes "slot_used w d" "i < length (ht_slots (hw_tables w me))"
    and "he_gen (ht_slots (hw_tables w me) ! i) \<le> he_gen e"
    and "he_state e = Free \<Longrightarrow> he_gen (ht_slots (hw_tables w me) ! i) < he_gen e"
  shows "slot_used (put_table me ((set_slot i e (hw_tables w me))\<lparr>ht_free := fr\<rparr>) w) d"
  using assms by (cases d) (auto simp: slot_used_def put_table_def set_slot_def Let_def nth_list_update)

lemma held_set:
  assumes "slot_held w h" "lm_owner h = me \<Longrightarrow> unat (lm_index h) = i \<Longrightarrow> he_gen e = lm_gen h \<and> he_state e \<noteq> Free"
  shows "slot_held (put_table me ((set_slot i e (hw_tables w me))\<lparr>ht_free := fr\<rparr>) w) h"
  using assms by (cases "unat (lm_index h) = i") (auto simp: slot_held_def put_table_def set_slot_def slot_of_def split: if_splits)

lemma held_set_keep:
  assumes "slot_held w h" "lm_owner h = me \<Longrightarrow> unat (lm_index h) = i \<Longrightarrow> he_gen e = lm_gen h \<and> he_state e \<noteq> Free"
  shows "slot_held (put_table me (set_slot i e (hw_tables w me)) w) h"
  using held_set [of w h me i e "ht_free (hw_tables w me)"] assms by simp

definition live_map :: "slot_state \<Rightarrow> text_map option" where
  "live_map st = (case st of Live m \<Rightarrow> Some m | _ \<Rightarrow> None)"

lemma map_of_id_set:
  assumes "i < length (ht_slots (hw_tables w me))" "he_gen (ht_slots (hw_tables w me) ! i) = g" "he_gen e = g"
  shows "map_of_id (put_table me ((set_slot i e (hw_tables w me))\<lparr>ht_free := fr\<rparr>) w) = (map_of_id w)((me, i, g) := live_map (he_state e))"
  using assms by (auto simp: map_of_id_def put_table_def set_slot_def Let_def nth_list_update live_map_def fun_eq_iff)

lemma map_of_id_free:
  assumes "i < length (ht_slots (hw_tables w me))" "he_gen (ht_slots (hw_tables w me) ! i) = g" "he_state e = Free"
  shows "map_of_id (put_table me ((set_slot i e (hw_tables w me))\<lparr>ht_free := fr\<rparr>) w) = (map_of_id w)((me, i, g) := None)"
  using assms by (auto simp: map_of_id_def put_table_def set_slot_def Let_def nth_list_update fun_eq_iff)

lemma hm_inv_put:
  assumes "hm_inv n w" "table_ok (Suc n) hs' me t" "\<And>d. fst d \<noteq> me \<Longrightarrow> holds hs' d \<le> holds (hw_held w) d"
    and "\<And>d. d \<in> iss \<Longrightarrow> slot_used (put_table me t w) d"
    and "\<And>h. h \<in># hs' \<Longrightarrow> id_of h \<in> iss \<and> (lm_counted h \<longrightarrow> slot_held (put_table me t w) h)"
  shows "hm_inv (Suc n) ((put_table me t w)\<lparr>hw_held := hs', hw_issued := iss\<rparr>)"
proof -
  have "table_ok (Suc n) hs' ow (hw_tables (put_table me t w) ow)" for ow
    using assms(1-3) by (auto simp: hm_inv_def put_table_def intro: table_ok_mono)
  then show ?thesis using assms(4,5) by (simp add: hm_inv_def slot_used_def slot_held_def cong: option.case_cong)
qed

lemma held_in_slot:
  assumes "hm_inv n w" "h \<in># hw_held w" "lm_counted h"
  obtains e where "slot_of h (hw_tables w (lm_owner h)) = Some e" "he_gen e = lm_gen h" "he_state e \<noteq> Free"
  using assms by (auto simp: hm_inv_def slot_held_def split: option.splits)

lemma slot_of_entry:
  assumes "hm_inv n w" "slot_of h (hw_tables w me) = Some e"
  shows "unat (lm_index h) < length (ht_slots (hw_tables w me))" "e = ht_slots (hw_tables w me) ! unat (lm_index h)"
    "entry_ok n (hw_held w) me (unat (lm_index h)) e" "he_state e \<noteq> Free \<Longrightarrow> unat (lm_index h) \<notin> set (ht_free (hw_tables w me))"
  using assms by (auto simp: slot_of_def hm_inv_def table_ok_def split: if_splits)


section \<open>The operations\<close>

lemma new_step:
  assumes inv: "hm_inv n w" and n: "n < 2 ^ 32 - 1" and new: "hmap_new me (hw_tables w me) = (h, t)"
  shows "hm_inv (Suc n) ((put_table me t w)\<lparr>hw_held := add_mset h (hw_held w), hw_issued := insert (id_of h) (hw_issued w)\<rparr>) \<and>
    id_of h \<notin> hw_issued w \<and> lm_owner h = me \<and> map_of_id (put_table me t w) = (map_of_id w)(id_of h \<mapsto> Map.empty)"
proof -
  let ?T = "hw_tables w me"
  have tab: "table_ok n (hw_held w) me ?T" using inv by (simp add: hm_inv_def)
  have used: "\<And>d. d \<in> hw_issued w \<Longrightarrow> slot_used w d" using inv by (simp add: hm_inv_def)
  have held: "\<And>k. k \<in># hw_held w \<Longrightarrow> id_of k \<in> hw_issued w \<and> (lm_counted k \<longrightarrow> slot_held w k)" using inv by (simp add: hm_inv_def)
  have none: "holds (hw_held w) d = 0" if d: "d \<notin> hw_issued w" for d
    using holds_exists [of "hw_held w" d] held d by auto
  show ?thesis
  proof (cases "ht_free ?T")
    case Nil
    let ?e = "\<lparr>he_gen = 0, he_count = 1, he_state = Live Map.empty\<rparr>"
    let ?i = "length (ht_slots ?T)"
    have i: "?i < 2 ^ 32" "unat (of_nat ?i :: u32) = ?i" using tab n by (auto simp: table_ok_def unat_of_nat_32)
    have h: "h = \<lparr>lm_owner = me, lm_index = of_nat ?i, lm_gen = 0, lm_counted = True\<rparr>" "t = ?T\<lparr>ht_slots := ht_slots ?T @ [?e]\<rparr>"
      using new Nil by (auto simp: hmap_new_def)
    then have d: "id_of h = (me, ?i, 0)" using i by (simp add: id_of_def)
    have fresh: "id_of h \<notin> hw_issued w" using used [of "id_of h"] by (auto simp: d slot_used_def Let_def)
    have T: "table_ok (Suc n) (add_mset h (hw_held w)) me t"
    proof -
      have "entry_ok (Suc n) (add_mset h (hw_held w)) me j (ht_slots t ! j)" if j: "j < length (ht_slots t)" for j
      proof (cases "j = ?i")
        case True
        have "holds (add_mset h (hw_held w)) (me, ?i, 0) = 1" using none [OF fresh] d by (simp add: holds_add h(1))
        then show ?thesis by (simp add: True h(2) entry_ok_def)
      next
        case False
        with j have j: "j < ?i" by (simp add: h(2))
        then have "entry_ok n (hw_held w) me j (ht_slots ?T ! j)" using tab by (simp add: table_ok_def)
        then show ?thesis using j False by (simp add: h(2) nth_append entry_ok_mono holds_add d)
      qed
      then show ?thesis using tab Nil by (simp add: table_ok_def h(2))
    qed
    have S: "slot_used (put_table me t w) d'" if "slot_used w d'" for d'
      using that by (cases d') (auto simp: slot_used_def put_table_def h(2) Let_def nth_append)
    have H: "slot_held (put_table me t w) k" if "slot_held w k" for k
      using that by (auto simp: slot_held_def put_table_def h(2) slot_of_def nth_append split: if_splits)
    have hm_inv: "hm_inv (Suc n) ((put_table me t w)\<lparr>hw_held := add_mset h (hw_held w), hw_issued := insert (id_of h) (hw_issued w)\<rparr>)"
    proof (rule hm_inv_put [OF inv T])
      show "holds (add_mset h (hw_held w)) d' \<le> holds (hw_held w) d'" if "fst d' \<noteq> me" for d'
        using that by (auto simp: holds_add d)
      show "slot_used (put_table me t w) d'" if "d' \<in> insert (id_of h) (hw_issued w)" for d'
      proof (cases "d' = id_of h")
        case True
        then show ?thesis by (simp add: d slot_used_def put_table_def h(2) Let_def)
      qed (use that used S in blast)
      show "id_of k \<in> insert (id_of h) (hw_issued w) \<and> (lm_counted k \<longrightarrow> slot_held (put_table me t w) k)"
        if "k \<in># add_mset h (hw_held w)" for k
      proof (cases "k = h")
        case True
        then show ?thesis using i by (simp add: slot_held_def put_table_def h slot_of_def)
      qed (use that held H in auto)
    qed
    moreover have "map_of_id (put_table me t w) = (map_of_id w)(id_of h \<mapsto> Map.empty)"
      by (auto simp: map_of_id_def put_table_def h(2) d Let_def nth_append fun_eq_iff)
    ultimately show ?thesis using fresh h(1) by simp
  next
    case (Cons i fr)
    let ?e = "(ht_slots ?T ! i)\<lparr>he_count := 1, he_state := Live Map.empty\<rparr>"
    let ?g = "he_gen (ht_slots ?T ! i)"
    have i: "i < length (ht_slots ?T)" "he_state (ht_slots ?T ! i) = Free" using tab Cons by (simp_all add: table_ok_def)
    then have u: "unat (of_nat i :: u32) = i" using tab n by (auto simp: table_ok_def unat_of_nat_32)
    have h: "h = \<lparr>lm_owner = me, lm_index = of_nat i, lm_gen = ?g, lm_counted = True\<rparr>" "t = (set_slot i ?e ?T)\<lparr>ht_free := fr\<rparr>"
      using new Cons by (auto simp: hmap_new_def Let_def)
    then have d: "id_of h = (me, i, ?g)" using u by (simp add: id_of_def)
    have fresh: "id_of h \<notin> hw_issued w" using used [of "id_of h"] i by (auto simp: d slot_used_def Let_def)
    have E: "entry_ok (Suc n) (add_mset h (hw_held w)) me i ?e"
    proof -
      have "unat ?g \<le> n" using tab i by (simp add: table_ok_def entry_ok_def)
      moreover have "holds (add_mset h (hw_held w)) (me, i, ?g) = 1" using none [OF fresh] d by (simp add: holds_add h(1))
      ultimately show ?thesis by (simp add: entry_ok_def)
    qed
    have T: "table_ok (Suc n) (add_mset h (hw_held w)) me t"
      unfolding h(2)
    proof (rule table_set [OF tab i(1) E])
      show "holds (add_mset h (hw_held w)) (me, j, g) \<le> holds (hw_held w) (me, j, g)" if "j \<noteq> i" for j g
        using that by (simp add: holds_add d)
      show "distinct fr" using tab Cons by (simp add: table_ok_def)
      show "j < length (ht_slots ?T) \<and> he_state ((ht_slots ?T)[i := ?e] ! j) = Free" if "j \<in> set fr" for j
        using that tab Cons by (auto simp: table_ok_def nth_list_update)
    qed
    have S: "slot_used (put_table me t w) d'" if "slot_used w d'" for d'
      unfolding h(2) by (rule used_set [OF that i(1)]) simp_all
    have H: "slot_held (put_table me t w) k" if k: "slot_held w k" for k
      unfolding h(2)
    proof (rule held_set [OF k])
      assume "lm_owner k = me" "unat (lm_index k) = i"
      with k i show "he_gen ?e = lm_gen k \<and> he_state ?e \<noteq> Free" by (simp add: slot_held_def slot_of_def)
    qed
    have "hm_inv (Suc n) ((put_table me t w)\<lparr>hw_held := add_mset h (hw_held w), hw_issued := insert (id_of h) (hw_issued w)\<rparr>)"
    proof (rule hm_inv_put [OF inv T])
      show "holds (add_mset h (hw_held w)) d' \<le> holds (hw_held w) d'" if "fst d' \<noteq> me" for d'
        using that by (auto simp: holds_add d)
      show "slot_used (put_table me t w) d'" if "d' \<in> insert (id_of h) (hw_issued w)" for d'
      proof (cases "d' = id_of h")
        case True
        then show ?thesis using i(1) by (simp add: d slot_used_def put_table_def h(2) Let_def set_slot_def)
      qed (use that used S in blast)
      show "id_of k \<in> insert (id_of h) (hw_issued w) \<and> (lm_counted k \<longrightarrow> slot_held (put_table me t w) k)"
        if "k \<in># add_mset h (hw_held w)" for k
      proof (cases "k = h")
        case True
        then show ?thesis using i u by (simp add: slot_held_def put_table_def h slot_of_def set_slot_def)
      qed (use that held H in auto)
    qed
    moreover have "map_of_id (put_table me t w) = (map_of_id w)(id_of h \<mapsto> Map.empty)"
      unfolding h(2) d by (subst map_of_id_set [OF i(1) refl]) (simp_all add: live_map_def)
    ultimately show ?thesis using fresh h(1) by simp
  qed
qed


lemma put_same [simp]: "put_table me (hw_tables w me) w = w"
  by (simp add: put_table_def)

lemma put_table_sel [simp]: "hw_held (put_table me t w) = hw_held w" "hw_issued (put_table me t w) = hw_issued w"
  by (simp_all add: put_table_def)

lemma hm_inv_same:
  assumes "hm_inv n w" "\<And>d. holds hs' d \<le> holds (hw_held w) d"
    and "\<And>h. h \<in># hs' \<Longrightarrow> id_of h \<in> hw_issued w \<and> (lm_counted h \<longrightarrow> slot_held w h)"
  shows "hm_inv (Suc n) (w\<lparr>hw_held := hs'\<rparr>)"
proof -
  have "table_ok (Suc n) hs' me (hw_tables w me)" for me
    using assms(1,2) by (auto simp: hm_inv_def intro: table_ok_mono)
  from hm_inv_put [OF assms(1) this, of _ "hw_issued w"] assms show ?thesis by (simp add: hm_inv_def)
qed

lemma clone_step:
  assumes inv: "hm_inv n w" and n: "n < 2 ^ 32 - 1" and h: "h \<in># hw_held w" and c: "clone_handle me h (hw_tables w me) = (h', t)"
  shows "hm_inv (Suc n) ((put_table me t w)\<lparr>hw_held := add_mset h' (hw_held w)\<rparr>) \<and> map_of_id (put_table me t w) = map_of_id w"
proof (cases "lm_owner h = me \<and> (\<exists>e. slot_of h (hw_tables w me) = Some e \<and> he_gen e = lm_gen h \<and> he_state e \<noteq> Free)")
  case False
  then have r: "h' = h\<lparr>lm_counted := False\<rparr>" "t = hw_tables w me" using c by (auto simp: clone_handle_def split: option.splits if_splits)
  have "id_of h' = id_of h" "\<not> lm_counted h'" by (simp_all add: r id_of_def)
  then have "hm_inv (Suc n) (w\<lparr>hw_held := add_mset h' (hw_held w)\<rparr>)"
    using inv h by (intro hm_inv_same [OF inv]) (auto simp: holds_add hm_inv_def)
  then show ?thesis by (simp add: r(2))
next
  case True
  then obtain e where e: "slot_of h (hw_tables w me) = Some e" "he_gen e = lm_gen h" "he_state e \<noteq> Free" and me: "lm_owner h = me" by blast
  let ?T = "hw_tables w me" and ?i = "unat (lm_index h)" and ?e = "e\<lparr>he_count := he_count e + 1\<rparr>"
  have r: "h' = h\<lparr>lm_counted := True\<rparr>" "t = set_slot ?i ?e ?T" using c e me by (auto simp: clone_handle_def)
  note s = slot_of_entry [OF inv e(1)]
  have d: "id_of h' = id_of h" "id_of h = (me, ?i, lm_gen h)" by (simp_all add: r id_of_def me)
  have cnt: "unat (he_count e + 1) = Suc (unat (he_count e))" using s(3) n by (intro unat_Suc_32) (simp add: entry_ok_def)
  have tab: "table_ok n (hw_held w) me ?T" using inv by (simp add: hm_inv_def)
  have E: "entry_ok (Suc n) (add_mset h' (hw_held w)) me ?i ?e"
    using s(3) e cnt by (simp add: entry_ok_def holds_add d r(1))
  have T: "table_ok (Suc n) (add_mset h' (hw_held w)) me t"
    unfolding r(2) by (rule table_set_keep [OF tab s(1) E _ s(4) [OF e(3)]]) (simp add: holds_add d)
  have S: "slot_used (put_table me t w) d'" if "slot_used w d'" for d'
    using used_set [OF that s(1), of ?e "ht_free ?T"] e(3) by (simp add: r(2) s(2) [symmetric])
  have H: "slot_held (put_table me t w) k" if k: "slot_held w k" for k
  proof -
    have "lm_owner k = me \<Longrightarrow> unat (lm_index k) = ?i \<Longrightarrow> he_gen ?e = lm_gen k \<and> he_state ?e \<noteq> Free"
      using k e s(1,2) by (simp add: slot_held_def slot_of_def)
    with k show ?thesis unfolding r(2) by (rule held_set_keep)
  qed
  have "hm_inv (Suc n) ((put_table me t w)\<lparr>hw_held := add_mset h' (hw_held w), hw_issued := hw_issued w\<rparr>)"
  proof (rule hm_inv_put [OF inv T])
    show "holds (add_mset h' (hw_held w)) d' \<le> holds (hw_held w) d'" if "fst d' \<noteq> me" for d'
      using that by (auto simp: holds_add d)
    show "slot_used (put_table me t w) d'" if "d' \<in> hw_issued w" for d' using that inv S by (simp add: hm_inv_def)
    show "id_of k \<in> hw_issued w \<and> (lm_counted k \<longrightarrow> slot_held (put_table me t w) k)"
      if k: "k \<in># add_mset h' (hw_held w)" for k
    proof (cases "k = h'")
      case True
      have "slot_held w (h\<lparr>lm_counted := True\<rparr>)" using e s(1,2) me by (simp add: slot_held_def slot_of_def)
      then show ?thesis using True H [of h'] inv h d(1) by (simp add: r(1) hm_inv_def)
    qed (use k inv H in \<open>auto simp: hm_inv_def\<close>)
  qed
  moreover have "map_of_id (put_table me t w) = map_of_id w"
    using map_of_id_set [OF s(1), of "lm_gen h" ?e "ht_free ?T"] e s(1,2)
    by (auto simp: r(2) live_map_def map_of_id_def Let_def fun_eq_iff split: slot_state.splits)
  ultimately show ?thesis by (simp add: put_table_def)
qed

lemma drop_step:
  assumes inv: "hm_inv n w" and n: "n < 2 ^ 32 - 1" and h: "h \<in># hw_held w"
  shows "hm_inv (Suc n) ((put_table me (drop_handle me h (hw_tables w me)) w)\<lparr>hw_held := hw_held w - {#h#}\<rparr>) \<and>
    (map_of_id (put_table me (drop_handle me h (hw_tables w me)) w) = map_of_id w \<or>
     holds (hw_held w - {#h#}) (id_of h) = 0 \<and>
     map_of_id (put_table me (drop_handle me h (hw_tables w me)) w) = (map_of_id w)(id_of h := None))"
proof (cases "lm_counted h \<and> lm_owner h = me")
  case False
  then have "drop_handle me h (hw_tables w me) = hw_tables w me" by (auto simp: drop_handle_def)
  moreover have "hm_inv (Suc n) (w\<lparr>hw_held := hw_held w - {#h#}\<rparr>)"
    using inv by (intro hm_inv_same [OF inv]) (auto simp: holds_remove [OF h] hm_inv_def dest: in_diffD)
  ultimately show ?thesis by simp
next
  case True
  let ?T = "hw_tables w me" and ?i = "unat (lm_index h)" and ?hs = "hw_held w - {#h#}"
  obtain e where e: "slot_of h ?T = Some e" "he_gen e = lm_gen h" "he_state e \<noteq> Free"
    using held_in_slot [OF inv h] True by blast
  note s = slot_of_entry [OF inv e(1)]
  have d: "id_of h = (me, ?i, lm_gen h)" using True by (simp add: id_of_def)
  have tab: "table_ok n (hw_held w) me ?T" using inv by (simp add: hm_inv_def)
  have pos: "0 < holds (hw_held w) (id_of h)" using holds_pos [OF h] True by blast
  have le: "holds (hw_held w) (id_of h) \<le> unat (he_count e)" using s(3) e by (simp add: entry_ok_def d)
  have cnt: "unat (he_count e - 1) = unat (he_count e) - 1" using pos le by (intro unat_dec_32) simp
  have rm: "holds ?hs d' = (if d' = id_of h then holds (hw_held w) d' - 1 else holds (hw_held w) d')" for d'
    using holds_remove [OF h, of d'] True by auto
  have held: "id_of k \<in> hw_issued w \<and> (lm_counted k \<longrightarrow> slot_held w k)" if "k \<in># ?hs" for k
    using that inv by (auto simp: hm_inv_def dest: in_diffD)
  have only: "fst d' \<noteq> me \<Longrightarrow> holds ?hs d' \<le> holds (hw_held w) d'" for d' by (simp add: rm)
  have other: "j \<noteq> ?i \<Longrightarrow> holds ?hs (me, j, g) \<le> holds (hw_held w) (me, j, g)" for j g by (simp add: rm d)
  show ?thesis
  proof (cases "he_count e - 1 = 0")
    case zero: True
    let ?e = "e\<lparr>he_count := he_count e - 1, he_state := Free, he_gen := he_gen e + 1\<rparr>"
    let ?t = "(set_slot ?i ?e ?T)\<lparr>ht_free := ?i # ht_free ?T\<rparr>"
    have r: "drop_handle me h ?T = ?t" using True e zero by (simp add: drop_handle_def Let_def set_slot_def)
    have none: "holds ?hs (id_of h) = 0" using zero cnt le by (simp add: rm)
    have gen: "unat (he_gen e + 1) = Suc (unat (he_gen e))" using s(3) n by (intro unat_Suc_32) (simp add: entry_ok_def)
    have E: "entry_ok (Suc n) ?hs me ?i ?e" using s(3) gen cnt by (simp add: entry_ok_def zero)
    have T: "table_ok (Suc n) ?hs me ?t"
    proof (rule table_set [OF tab s(1) E other])
      show "distinct (?i # ht_free ?T)" using tab s(4) [OF e(3)] by (simp add: table_ok_def)
      show "j < length (ht_slots ?T) \<and> he_state ((ht_slots ?T)[?i := ?e] ! j) = Free" if "j \<in> set (?i # ht_free ?T)" for j
        using that tab s(1) by (auto simp: table_ok_def nth_list_update)
    qed
    have S: "slot_used (put_table me ?t w) d'" if "slot_used w d'" for d'
      by (rule used_set [OF that s(1)]) (use gen s(2) in \<open>simp_all add: word_le_nat_alt word_less_nat_alt\<close>)
    have "hm_inv (Suc n) ((put_table me ?t w)\<lparr>hw_held := ?hs, hw_issued := hw_issued w\<rparr>)"
    proof (rule hm_inv_put [OF inv T only])
      show "slot_used (put_table me ?t w) d'" if "d' \<in> hw_issued w" for d' using that inv S by (simp add: hm_inv_def)
      show "id_of k \<in> hw_issued w \<and> (lm_counted k \<longrightarrow> slot_held (put_table me ?t w) k)" if k: "k \<in># ?hs" for k
      proof (intro conjI impI)
        assume c: "lm_counted k"
        have "id_of k \<noteq> id_of h" using holds_none [OF none k c] .
        moreover have "lm_owner k = me \<Longrightarrow> unat (lm_index k) = ?i \<Longrightarrow> lm_gen k = lm_gen h"
          using held [OF k] c e s(1,2) by (simp add: slot_held_def slot_of_def)
        ultimately have "lm_owner k = me \<Longrightarrow> unat (lm_index k) \<noteq> ?i" using True by (auto simp: id_of_def)
        then show "slot_held (put_table me ?t w) k" using held [OF k] c by (intro held_set) auto
      qed (use held [OF k] in simp)
    qed
    moreover have "map_of_id (put_table me ?t w) = (map_of_id w)(id_of h := None)"
      unfolding d by (rule map_of_id_free [OF s(1)]) (use e s(2) in simp_all)
    ultimately show ?thesis using none by (simp add: r put_table_def)
  next
    case more: False
    let ?e = "e\<lparr>he_count := he_count e - 1\<rparr>"
    let ?t = "set_slot ?i ?e ?T"
    have r: "drop_handle me h ?T = ?t" using True e more by (simp add: drop_handle_def Let_def)
    have E: "entry_ok (Suc n) ?hs me ?i ?e"
      using s(3) cnt e diff_le_mono [of "holds (hw_held w) (me, ?i, lm_gen h)" "unat (he_count e)" 1]
      by (simp add: entry_ok_def rm d) linarith
    have T: "table_ok (Suc n) ?hs me ?t" by (rule table_set_keep [OF tab s(1) E other s(4) [OF e(3)]])
    have S: "slot_used (put_table me ?t w) d'" if "slot_used w d'" for d'
      using used_set [OF that s(1), of ?e "ht_free ?T"] e(3) by (simp add: s(2) [symmetric])
    have "hm_inv (Suc n) ((put_table me ?t w)\<lparr>hw_held := ?hs, hw_issued := hw_issued w\<rparr>)"
    proof (rule hm_inv_put [OF inv T only])
      show "slot_used (put_table me ?t w) d'" if "d' \<in> hw_issued w" for d' using that inv S by (simp add: hm_inv_def)
      show "id_of k \<in> hw_issued w \<and> (lm_counted k \<longrightarrow> slot_held (put_table me ?t w) k)" if k: "k \<in># ?hs" for k
      proof (intro conjI impI)
        assume c: "lm_counted k"
        have "lm_owner k = me \<Longrightarrow> unat (lm_index k) = ?i \<Longrightarrow> he_gen ?e = lm_gen k \<and> he_state ?e \<noteq> Free"
          using held [OF k] c e s(1,2) by (simp add: slot_held_def slot_of_def)
        moreover have "slot_held w k" using held [OF k] c by blast
        ultimately show "slot_held (put_table me ?t w) k" by (intro held_set_keep)
      qed (use held [OF k] in simp)
    qed
    moreover have "map_of_id (put_table me ?t w) = map_of_id w"
      using map_of_id_set [OF s(1), of "lm_gen h" ?e "ht_free ?T"] e s(1,2)
      by (auto simp: live_map_def map_of_id_def Let_def fun_eq_iff split: slot_state.splits)
    ultimately show ?thesis by (simp add: r put_table_def)
  qed
qed

text \<open>Writing and freezing.\<close>

lemma on_live_map:
  "on_live me h (hw_tables w me) = Inr m \<Longrightarrow> lm_owner h = me \<and> map_of_id w (id_of h) = Some m"
  by (auto simp: on_live_def owner_check_def slot_of_def map_of_id_def id_of_def split: if_splits option.splits slot_state.splits)

lemma live_step:
  assumes inv: "hm_inv n w" and o: "on_live me h (hw_tables w me) = Inr m" and st: "st \<noteq> Free"
  shows "hm_inv (Suc n) (put_table me (set_live h st (hw_tables w me)) w) \<and>
    map_of_id (put_table me (set_live h st (hw_tables w me)) w) = (map_of_id w)(id_of h := live_map st)"
proof -
  let ?T = "hw_tables w me" and ?i = "unat (lm_index h)"
  from o obtain e where e: "slot_of h ?T = Some e" "he_gen e = lm_gen h" "he_state e = Live m" and me: "lm_owner h = me"
    by (auto simp: on_live_def owner_check_def split: if_splits option.splits slot_state.splits)
  let ?e = "e\<lparr>he_state := st\<rparr>"
  note s = slot_of_entry [OF inv e(1)]
  have r: "set_live h st ?T = set_slot ?i ?e ?T" using e by (simp add: set_live_def)
  have tab: "table_ok n (hw_held w) me ?T" using inv by (simp add: hm_inv_def)
  have E: "entry_ok (Suc n) (hw_held w) me ?i ?e" using s(3) e by (simp add: entry_ok_def)
  have T: "table_ok (Suc n) (hw_held w) me (set_slot ?i ?e ?T)"
    by (rule table_set_keep [OF tab s(1) E]) (use e s(4) in simp_all)
  have S: "slot_used (put_table me (set_slot ?i ?e ?T) w) d'" if "slot_used w d'" for d'
    using used_set [OF that s(1), of ?e "ht_free ?T"] st by (simp add: s(2) [symmetric])
  have H: "slot_held (put_table me (set_slot ?i ?e ?T) w) k" if k: "slot_held w k" for k
  proof -
    have "lm_owner k = me \<Longrightarrow> unat (lm_index k) = ?i \<Longrightarrow> he_gen ?e = lm_gen k \<and> he_state ?e \<noteq> Free"
      using k e s(1,2) st by (simp add: slot_held_def slot_of_def)
    with k show ?thesis by (rule held_set_keep)
  qed
  have "hm_inv (Suc n) ((put_table me (set_slot ?i ?e ?T) w)\<lparr>hw_held := hw_held w, hw_issued := hw_issued w\<rparr>)"
    by (rule hm_inv_put [OF inv T]) (use inv S H in \<open>auto simp: hm_inv_def\<close>)
  moreover have "map_of_id (put_table me (set_slot ?i ?e ?T) w) = (map_of_id w)(id_of h := live_map st)"
    using map_of_id_set [OF s(1), of "lm_gen h" ?e "ht_free ?T"] e s(2) me by (simp add: id_of_def)
  ultimately show ?thesis by (simp add: r put_table_def)
qed

section \<open>The tables implement the store\<close>

lemma hm_step_ok:
  assumes inv: "hm_inv n w" and n: "n < 2 ^ 32 - 1" and st: "hm_step w x w'"
  shows "hm_inv (Suc n) w' \<and> store_step (map_of_id w, hw_issued w) (hw_held w) x (map_of_id w', hw_issued w')"
proof -
  have same [simp]: "map_of_id (w\<lparr>hw_held := a\<rparr>) = map_of_id w" "map_of_id (w\<lparr>hw_issued := b\<rparr>) = map_of_id w" for w a b
    by (simp_all add: map_of_id_def)
  show ?thesis using st
  proof cases
    case (new me h t)
    have "fst (id_of h) = lm_owner h" by (simp add: id_of_def)
    with new_step [OF inv n new(3)] new(1,2) show ?thesis by (simp add: store_step.created)
  next
    case (clone h me h' t)
    from clone_step [OF inv n clone(3,4)] clone(1,2) show ?thesis by (simp add: store_step.copied)
  next
    case (drop h me)
    note d = drop_step [OF inv n drop(3), of me]
    show ?thesis
    proof (cases "map_of_id (put_table me (drop_handle me h (hw_tables w me)) w) = map_of_id w")
      case True
      with d drop(1,2) show ?thesis by (simp add: store_step.kept)
    next
      case False
      with d drop(1,2) show ?thesis by (simp add: store_step.collected)
    qed
  next
    case (put h me k v b t)
    then obtain m where m: "on_live me h (hw_tables w me) = Inr m" "b = (m k = None)" "t = set_live h (Live (m(k \<mapsto> v))) (hw_tables w me)"
      by (auto simp: hmap_put_def)
    from live_step [OF inv m(1), of "Live (m(k \<mapsto> v))"] on_live_map [OF m(1)] put(1,2) m(2,3) show ?thesis
      by (simp add: live_map_def store_step.written)
  next
    case (freeze h me m t)
    then have m: "on_live me h (hw_tables w me) = Inr m" "t = set_live h Dead (hw_tables w me)"
      by (auto simp: hmap_freeze_def)
    from live_step [OF inv m(1), of Dead] on_live_map [OF m(1)] freeze(1,2) m(2) show ?thesis
      by (simp add: live_map_def store_step.frozen)
  qed
qed

lemma hm_run_inv: "hm_run n w \<Longrightarrow> n < 2 ^ 32 \<Longrightarrow> hm_inv n w"
proof (induction rule: hm_run.induct)
  case start
  show ?case by (simp add: hm_inv_def hm_init_def table_ok_def)
next
  case (step n w x w')
  then show ?case using hm_step_ok [of n w x w'] by simp
qed


section \<open>Properties\<close>

text \<open>
  C31. However the threads create, copy, drop, write and freeze, each operation does to the tables what it does to a store of
  maps by identity: a new map has an identity that no map ever had, a write changes the map of its handle and no other, a
  freeze hands out the contents and ends the map, a copy changes nothing, and a drop changes nothing either unless it ends
  the map of a handle of which no counted copy is left. The bound is the width of the generations and counts.
\<close>

theorem hmap_refines_store:
  assumes "hm_run n w" "n < 2 ^ 32 - 1" "hm_step w x w'"
  shows "store_step (map_of_id w, hw_issued w) (hw_held w) x (map_of_id w', hw_issued w')"
proof -
  have "hm_inv n w" using hm_run_inv [OF assms(1)] assms(2) by simp
  from hm_step_ok [OF this assms(2,3)] show ?thesis by blast
qed

definition demo_handle :: local_map where
  "demo_handle = \<lparr>lm_owner = 3, lm_index = 0, lm_gen = 0, lm_counted = True\<rparr>"

definition demo_world :: "text_map \<Rightarrow> hm_world" where
  "demo_world m = (put_table 3 \<lparr>ht_slots = [\<lparr>he_gen = 0, he_count = 1, he_state = Live m\<rparr>], ht_free = []\<rparr> hm_init)
     \<lparr>hw_held := {#demo_handle#}, hw_issued := {(3, 0, 0)}\<rparr>"

lemma demo_run: "hm_run 1 (demo_world Map.empty)"
proof -
  have "hmap_new 3 (hw_tables hm_init 3) = (demo_handle, \<lparr>ht_slots = [\<lparr>he_gen = 0, he_count = 1, he_state = Live Map.empty\<rparr>], ht_free = []\<rparr>)"
    by (simp add: hmap_new_def hm_init_def demo_handle_def)
  from hm_run.step [OF hm_run.start hm_step.new [OF this]] show ?thesis
    by (simp add: demo_world_def id_of_def demo_handle_def hm_init_def put_table_def)
qed

lemma demo_put: "hm_step (demo_world Map.empty) (OpPut 3 demo_handle [97] [98] True) (demo_world [[97] \<mapsto> [98]])"
proof -
  have "hmap_put 3 (Local demo_handle) [97] [98] (hw_tables (demo_world Map.empty) 3) =
      Inr (True, \<lparr>ht_slots = [\<lparr>he_gen = 0, he_count = 1, he_state = Live [[97] \<mapsto> [98]]\<rparr>], ht_free = []\<rparr>)"
    by (simp add: hmap_put_def on_live_def owner_check_def slot_of_def set_live_def set_slot_def demo_world_def put_table_def demo_handle_def)
  from hm_step.put [OF _ this] show ?thesis by (simp add: demo_world_def put_table_def hm_init_def)
qed

theorem hmap_refines_store_witness:
  "store_step (map_of_id (demo_world Map.empty), {(3, 0, 0)}) {#demo_handle#} (OpPut 3 demo_handle [97] [98] True)
    (map_of_id (demo_world [[97] \<mapsto> [98]]), {(3, 0, 0)})"
  using hmap_refines_store [OF demo_run _ demo_put] by (simp add: demo_world_def)

text \<open>
  C32. A counted handle never dangles: on its owner thread it finds its own map, with what was written through any handle of
  the same identity, or it is refused as frozen. A copy that is not counted finds its map or is refused, and never the map
  of another identity; on any other thread every handle is refused by name.
\<close>

theorem hmap_handle_reaches_its_map:
  assumes "hm_run n w" "n < 2 ^ 32" "h \<in># hw_held w"
  shows "on_live me h (hw_tables w me) =
    (if me \<noteq> lm_owner h then Inl (WrongThread (lm_owner h))
     else case map_of_id w (id_of h) of
       Some m \<Rightarrow> Inr m
     | None \<Rightarrow> Inl (if slot_held w h then IsDead else HasNoMap)) \<and>
    (lm_counted h \<longrightarrow> slot_held w h) \<and> id_of h \<in> hw_issued w"
proof -
  have inv: "hm_inv n w" using hm_run_inv [OF assms(1,2)] .
  have "lm_counted h \<Longrightarrow> slot_held w h" "id_of h \<in> hw_issued w" using inv assms(3) by (simp_all add: hm_inv_def)
  then show ?thesis
    by (auto simp: on_live_def owner_check_def slot_held_def slot_of_def map_of_id_def id_of_def split: option.splits slot_state.splits if_splits)
qed

theorem hmap_handle_reaches_its_map_witness:
  "on_live 3 demo_handle (hw_tables (demo_world Map.empty) 3) = Inr Map.empty"
  using hmap_handle_reaches_its_map [OF demo_run _, of demo_handle 3]
  by (simp add: demo_world_def put_table_def demo_handle_def map_of_id_def id_of_def)

end
