(* ===== verification/Interner.thy ===== *)
theory Interner
  imports Decimal
begin

text \<open>
  The tag interner of \<open>src/src/runtime/value.rs\<close>. A published snapshot is never changed or freed, so the atomic head pointer
  is modelled by the history of all snapshots ever stored in it and a load by any of them that is not older than what the
  thread has seen: an acquire load need not return the newest. Threads take the steps of \<open>intern_tag_lockfree\<close> one atomic
  access at a time, in any order.
\<close>

section \<open>Snapshots\<close>

record tag_snapshot =
  sn_names :: "rstring list"
  sn_map :: "rstring \<Rightarrow> u32 option"

definition sn_empty :: tag_snapshot where
  "sn_empty = \<lparr>sn_names = [], sn_map = (\<lambda>_. None)\<rparr>"

text \<open>The copy with one more name, and its tag: \<open>cur.names.len() as u32\<close>.\<close>

definition new_tag :: "tag_snapshot \<Rightarrow> u32" where
  "new_tag s = of_nat (length (sn_names s))"

definition sn_extend :: "rstring \<Rightarrow> tag_snapshot \<Rightarrow> tag_snapshot" where
  "sn_extend n s = \<lparr>sn_names = sn_names s @ [n], sn_map = (sn_map s)(n \<mapsto> new_tag s)\<rparr>"

definition get_tag_name :: "tag_snapshot \<Rightarrow> u32 \<Rightarrow> rstring" where
  "get_tag_name s tag = (if unat tag < length (sn_names s) then sn_names s ! unat tag else lit ''Unknown'')"

text \<open>The locked variant, one call at a time: a table and a map behind two mutexes.\<close>

definition intern_tag_mutex :: "rstring \<Rightarrow> rstring list \<times> (rstring \<Rightarrow> u32 option) \<Rightarrow> u32 \<times> rstring list \<times> (rstring \<Rightarrow> u32 option)" where
  "intern_tag_mutex n st =
     (case st of (tbl, m) \<Rightarrow>
        case m n of Some t \<Rightarrow> (t, tbl, m)
        | None \<Rightarrow> let t = of_nat (length tbl) in (t, tbl @ [n], m(n \<mapsto> t)))"

text \<open>\<open>intern_tag_lockfree\<close> when no other thread interferes.\<close>

definition intern_tag_lockfree :: "rstring \<Rightarrow> tag_snapshot \<Rightarrow> u32 \<times> tag_snapshot" where
  "intern_tag_lockfree n s =
     (case sn_map s n of Some t \<Rightarrow> (t, s) | None \<Rightarrow> (new_tag s, sn_extend n s))"

definition intern_tag :: "rstring \<Rightarrow> tag_snapshot \<Rightarrow> u32 \<times> tag_snapshot" where
  "intern_tag = intern_tag_lockfree"

section \<open>Threads\<close>

datatype intern_pc =
    Idle
  | Missed rstring
  | Locked rstring
  | Checking rstring tag_snapshot
  | Unlocking rstring u32

record interner =
  it_hist :: "tag_snapshot list"
  it_lock :: "nat option"
  it_pc :: "nat \<Rightarrow> intern_pc"
  it_seen :: "nat \<Rightarrow> nat"
  it_log :: "(nat \<times> rstring \<times> u32) list"

definition it_init :: interner where
  "it_init = \<lparr>it_hist = [sn_empty], it_lock = None, it_pc = (\<lambda>_. Idle), it_seen = (\<lambda>_. 0), it_log = []\<rparr>"

text \<open>A load by thread \<open>k\<close> may give snapshot \<open>i\<close>.\<close>

definition may_load :: "interner \<Rightarrow> nat \<Rightarrow> nat \<Rightarrow> bool" where
  "may_load s k i \<longleftrightarrow> it_seen s k \<le> i \<and> i < length (it_hist s)"

definition returns :: "nat \<Rightarrow> rstring \<Rightarrow> u32 \<Rightarrow> interner \<Rightarrow> interner" where
  "returns k n t s = s\<lparr>it_pc := (it_pc s)(k := Idle), it_log := (k, n, t) # it_log s\<rparr>"

inductive intern_step :: "interner \<Rightarrow> interner \<Rightarrow> bool" where
  fast_hit: "it_pc s k = Idle \<Longrightarrow> may_load s k i \<Longrightarrow> sn_map (it_hist s ! i) n = Some t \<Longrightarrow>
     intern_step s (returns k n t (s\<lparr>it_seen := (it_seen s)(k := i)\<rparr>))"
| fast_miss: "it_pc s k = Idle \<Longrightarrow> may_load s k i \<Longrightarrow> sn_map (it_hist s ! i) n = None \<Longrightarrow>
     intern_step s (s\<lparr>it_seen := (it_seen s)(k := i), it_pc := (it_pc s)(k := Missed n)\<rparr>)"
| lock: "it_pc s k = Missed n \<Longrightarrow> it_lock s = None \<Longrightarrow>
     intern_step s (s\<lparr>it_lock := Some k, it_seen := (it_seen s)(k := length (it_hist s) - 1), it_pc := (it_pc s)(k := Locked n)\<rparr>)"
| reload: "it_pc s k = Locked n \<Longrightarrow> may_load s k i \<Longrightarrow>
     intern_step s (s\<lparr>it_seen := (it_seen s)(k := i), it_pc := (it_pc s)(k := Checking n (it_hist s ! i))\<rparr>)"
| slow_hit: "it_pc s k = Checking n cur \<Longrightarrow> sn_map cur n = Some t \<Longrightarrow>
     intern_step s (s\<lparr>it_pc := (it_pc s)(k := Unlocking n t)\<rparr>)"
| publish: "it_pc s k = Checking n cur \<Longrightarrow> sn_map cur n = None \<Longrightarrow>
     intern_step s (s\<lparr>it_hist := it_hist s @ [sn_extend n cur], it_seen := (it_seen s)(k := length (it_hist s)),
       it_pc := (it_pc s)(k := Unlocking n (new_tag cur))\<rparr>)"
| unlock: "it_pc s k = Unlocking n t \<Longrightarrow>
     intern_step s (returns k n t (s\<lparr>it_lock := None\<rparr>))"
| sync: "intern_step s (s\<lparr>it_seen := (it_seen s)(k := max (it_seen s k) (it_seen s j))\<rparr>)"

inductive interner_reachable :: "interner \<Rightarrow> bool" where
  start: "interner_reachable it_init"
| step: "interner_reachable s \<Longrightarrow> intern_step s s' \<Longrightarrow> interner_reachable s'"

section \<open>Snapshots are tables\<close>

definition sn_ok :: "tag_snapshot \<Rightarrow> bool" where
  "sn_ok s \<longleftrightarrow> distinct (sn_names s) \<and>
     (\<forall>n t. sn_map s n = Some t \<longleftrightarrow> (\<exists>j < length (sn_names s). sn_names s ! j = n \<and> t = of_nat j))"

definition sn_le :: "tag_snapshot \<Rightarrow> tag_snapshot \<Rightarrow> bool" where
  "sn_le s t \<longleftrightarrow> (\<exists>xs. sn_names t = sn_names s @ xs)"

lemma sn_le_refl [simp]: "sn_le s s"
  by (simp add: sn_le_def)

lemma sn_le_trans: "sn_le s t \<Longrightarrow> sn_le t u \<Longrightarrow> sn_le s u"
  by (auto simp: sn_le_def)

lemma sn_le_extend: "sn_le s (sn_extend n s)"
  by (simp add: sn_le_def sn_extend_def)

lemma sn_empty_ok [simp]: "sn_ok sn_empty"
  by (simp add: sn_ok_def sn_empty_def)

lemma sn_ok_None:
  assumes "sn_ok s" "sn_map s n = None"
  shows "n \<notin> set (sn_names s)"
proof
  assume "n \<in> set (sn_names s)"
  then obtain j where "j < length (sn_names s)" "sn_names s ! j = n" by (auto simp: in_set_conv_nth)
  then have "sn_map s n = Some (of_nat j)" using assms(1) unfolding sn_ok_def by blast
  with assms(2) show False by simp
qed

lemma ex_nth_snoc: "(\<exists>j < length (xs @ [x]). P ((xs @ [x]) ! j) j) \<longleftrightarrow> (\<exists>j < length xs. P (xs ! j) j) \<or> P x (length xs)"
proof -
  have "(\<exists>j < length (xs @ [x]). P ((xs @ [x]) ! j) j) \<longleftrightarrow> P ((xs @ [x]) ! length xs) (length xs) \<or> (\<exists>j < length xs. P ((xs @ [x]) ! j) j)"
    unfolding length_append_singleton less_Suc_eq by blast
  then show ?thesis by (auto simp: nth_append)
qed

lemma sn_extend_ok:
  assumes "sn_ok s" "sn_map s n = None"
  shows "sn_ok (sn_extend n s)"
proof -
  have n: "n \<notin> set (sn_names s)" using sn_ok_None [OF assms] .
  have "(sn_map (sn_extend n s) m = Some t) = (\<exists>j < length (sn_names s @ [n]). (sn_names s @ [n]) ! j = m \<and> t = of_nat j)" for m t
  proof -
    have old: "\<not> (\<exists>j < length (sn_names s). sn_names s ! j = n \<and> t = of_nat j)" using n by (meson nth_mem)
    show ?thesis unfolding ex_nth_snoc [where P = "\<lambda>x j. x = m \<and> t = of_nat j"]
      using assms(1) old by (cases "m = n") (auto simp: sn_extend_def new_tag_def sn_ok_def)
  qed
  then show ?thesis using assms n by (simp add: sn_ok_def sn_extend_def)
qed

lemma sn_ok_le_Some:
  assumes "sn_ok s" "sn_ok t" "sn_le s t" "sn_map s n = Some x"
  shows "sn_map t n = Some x"
proof -
  from assms obtain xs where xs: "sn_names t = sn_names s @ xs" by (auto simp: sn_le_def)
  from assms obtain j where "j < length (sn_names s)" "sn_names s ! j = n" "x = of_nat j" by (auto simp: sn_ok_def)
  then have "j < length (sn_names t)" "sn_names t ! j = n" by (simp_all add: xs nth_append)
  with assms(2) \<open>x = of_nat j\<close> show ?thesis unfolding sn_ok_def by blast
qed

text \<open>With at most \<open>2 ^ 32\<close> names, tags and names stand for each other.\<close>

lemma sn_ok_name:
  assumes "sn_ok s" "sn_map s n = Some t" "length (sn_names s) \<le> 2 ^ 32"
  shows "get_tag_name s t = n" "unat t < length (sn_names s)"
proof -
  from assms obtain j where j: "j < length (sn_names s)" "sn_names s ! j = n" "t = of_nat j" by (auto simp: sn_ok_def)
  then have "unat t = j" using assms(3) by (simp add: unat_of_nat)
  with j show "get_tag_name s t = n" "unat t < length (sn_names s)" by (simp_all add: get_tag_name_def)
qed

lemma sn_ok_inject:
  assumes "sn_ok s" "sn_map s m = Some t" "sn_map s n = Some t" "length (sn_names s) \<le> 2 ^ 32"
  shows "m = n"
  using sn_ok_name(1) [OF assms(1,2,4)] sn_ok_name(1) [OF assms(1,3,4)] by simp

section \<open>The invariant\<close>

definition in_section :: "intern_pc \<Rightarrow> bool" where
  "in_section c \<longleftrightarrow> (case c of Idle \<Rightarrow> False | Missed _ \<Rightarrow> False | _ \<Rightarrow> True)"

definition pc_ok :: "interner \<Rightarrow> nat \<Rightarrow> bool" where
  "pc_ok s k \<longleftrightarrow> (case it_pc s k of
       Idle \<Rightarrow> True | Missed _ \<Rightarrow> True
     | Locked _ \<Rightarrow> it_seen s k = length (it_hist s) - 1
     | Checking _ cur \<Rightarrow> cur = last (it_hist s) \<and> it_seen s k = length (it_hist s) - 1
     | Unlocking n t \<Rightarrow> sn_map (it_hist s ! it_seen s k) n = Some t)"

definition it_inv :: "interner \<Rightarrow> bool" where
  "it_inv s \<longleftrightarrow> it_hist s \<noteq> [] \<and> list_all sn_ok (it_hist s) \<and> sorted_wrt sn_le (it_hist s) \<and>
     (\<forall>k. it_seen s k < length (it_hist s)) \<and> (\<forall>k. in_section (it_pc s k) \<longrightarrow> it_lock s = Some k) \<and> (\<forall>k. pc_ok s k) \<and>
     (\<forall>(k, n, t) \<in> set (it_log s). sn_map (it_hist s ! it_seen s k) n = Some t)"

lemma it_inv_hist:
  assumes "it_inv s" "i \<le> j" "j < length (it_hist s)" "sn_map (it_hist s ! i) n = Some t"
  shows "sn_map (it_hist s ! j) n = Some t"
proof (cases "i = j")
  case False
  then have "sn_le (it_hist s ! i) (it_hist s ! j)" using assms by (auto simp: it_inv_def sorted_wrt_iff_nth_less)
  then show ?thesis using assms sn_ok_le_Some [of "it_hist s ! i" "it_hist s ! j"] by (auto simp: it_inv_def list_all_length)
qed (use assms in simp)

text \<open>A step of one thread that publishes nothing.\<close>

definition local_step :: "nat \<Rightarrow> nat option \<Rightarrow> nat \<Rightarrow> intern_pc \<Rightarrow> (nat \<times> rstring \<times> u32) list \<Rightarrow> interner \<Rightarrow> interner" where
  "local_step k l i c rs s =
     s\<lparr>it_lock := l, it_seen := (it_seen s)(k := i), it_pc := (it_pc s)(k := c), it_log := rs @ it_log s\<rparr>"

lemma local_step_inv:
  assumes inv: "it_inv s" and i: "may_load s k i"
    and l: "in_section c \<longrightarrow> l = Some k" "\<forall>j. j \<noteq> k \<longrightarrow> in_section (it_pc s j) \<longrightarrow> l = Some j"
    and c: "pc_ok (local_step k l i c rs s) k"
    and rs: "\<forall>(j, n, t) \<in> set rs. j = k \<and> sn_map (it_hist s ! i) n = Some t"
  shows "it_inv (local_step k l i c rs s)"
proof -
  let ?s = "local_step k l i c rs s"
  have "it_seen ?s j < length (it_hist ?s)" for j using inv i by (simp add: it_inv_def local_step_def may_load_def)
  moreover have "in_section (it_pc ?s j) \<longrightarrow> it_lock ?s = Some j" for j using l by (simp add: local_step_def)
  moreover have "pc_ok ?s j" for j
  proof (cases "j = k")
    case False
    then have "pc_ok s j" using inv by (simp add: it_inv_def)
    then show ?thesis using False by (simp add: pc_ok_def local_step_def split: intern_pc.splits)
  qed (use c in simp)
  moreover have "sn_map (it_hist ?s ! it_seen ?s j) n = Some t" if r: "(j, n, t) \<in> set (it_log ?s)" for j n t
  proof (cases "(j, n, t) \<in> set rs")
    case True
    then show ?thesis using rs by (auto simp: local_step_def)
  next
    case False
    then have "(j, n, t) \<in> set (it_log s)" using r by (simp add: local_step_def)
    then have "sn_map (it_hist s ! it_seen s j) n = Some t" using inv by (auto simp: it_inv_def)
    then show ?thesis using it_inv_hist [OF inv, of "it_seen s k" i n t] i by (auto simp: local_step_def may_load_def)
  qed
  ultimately show ?thesis using inv by (auto simp: it_inv_def local_step_def)
qed

lemma publish_inv:
  assumes inv: "it_inv s" and k: "it_pc s k = Checking n cur" and n: "sn_map cur n = None"
  shows "it_inv (s\<lparr>it_hist := it_hist s @ [sn_extend n cur], it_seen := (it_seen s)(k := length (it_hist s)),
    it_pc := (it_pc s)(k := Unlocking n (new_tag cur))\<rparr>)" (is "it_inv ?s")
proof -
  have "pc_ok s k" using inv by (simp add: it_inv_def)
  then have cur: "cur = last (it_hist s)" "it_seen s k = length (it_hist s) - 1" using k by (simp_all add: pc_ok_def)
  have ne: "it_hist s \<noteq> []" and ok: "list_all sn_ok (it_hist s)" and le: "sorted_wrt sn_le (it_hist s)"
    using inv by (simp_all add: it_inv_def)
  have cur_ok: "sn_ok cur" using ok ne cur(1) by (simp add: list_all_iff)
  have new: "sn_map (sn_extend n cur) m = Some t" if "sn_map cur m = Some t" for m t
    using sn_ok_le_Some [OF cur_ok sn_extend_ok [OF cur_ok n] sn_le_extend that] .
  have lock: "it_lock s = Some k" using inv k by (auto simp: it_inv_def in_section_def)
  have "sn_le x (sn_extend n cur)" if x: "x \<in> set (it_hist s)" for x
  proof -
    obtain j where j: "j < length (it_hist s)" "x = it_hist s ! j" using x by (metis in_set_conv_nth)
    have "sn_le x cur" unfolding cur(1) last_conv_nth [OF ne] j(2)
      using le j(1) by (cases "j = length (it_hist s) - 1") (auto simp: sorted_wrt_iff_nth_less)
    then show ?thesis using sn_le_trans sn_le_extend by blast
  qed
  then have hist: "list_all sn_ok (it_hist ?s)" "sorted_wrt sn_le (it_hist ?s)"
    using ok le sn_extend_ok [OF cur_ok n] by (simp_all add: sorted_wrt_append)
  have "pc_ok ?s j" for j
  proof (cases "j = k")
    case True
    then show ?thesis by (simp add: pc_ok_def nth_append sn_extend_def)
  next
    case False
    have "\<not> in_section (it_pc s j)" using inv lock False by (auto simp: it_inv_def)
    then show ?thesis using False by (simp add: pc_ok_def in_section_def split: intern_pc.splits)
  qed
  moreover have "in_section (it_pc ?s j) \<longrightarrow> it_lock ?s = Some j" for j using inv lock by (auto simp: it_inv_def)
  moreover have "it_seen ?s j < length (it_hist ?s)" for j using inv by (simp add: it_inv_def less_SucI)
  moreover have "sn_map (it_hist ?s ! it_seen ?s j) m = Some t" if "(j, m, t) \<in> set (it_log s)" for j m t
  proof -
    have "sn_map (it_hist s ! it_seen s j) m = Some t" "it_seen s j < length (it_hist s)" using inv that by (auto simp: it_inv_def)
    moreover have "it_hist s ! it_seen s k = cur" using cur last_conv_nth [OF ne] by simp
    ultimately show ?thesis using new by (auto simp: nth_append)
  qed
  ultimately show ?thesis using hist by (auto simp: it_inv_def)
qed

lemma may_load_seen: "it_inv s \<Longrightarrow> may_load s k (it_seen s k)"
  by (simp add: it_inv_def may_load_def)

lemma step_as_local:
  "s\<lparr>it_seen := (it_seen s)(k := i), it_pc := (it_pc s)(k := c)\<rparr> = local_step k (it_lock s) i c [] s"
  "s\<lparr>it_lock := l, it_seen := (it_seen s)(k := i), it_pc := (it_pc s)(k := c)\<rparr> = local_step k l i c [] s"
  "returns k n t (s\<lparr>it_seen := (it_seen s)(k := i)\<rparr>) = local_step k (it_lock s) i Idle [(k, n, t)] s"
  "returns k n t (s\<lparr>it_lock := l\<rparr>) = local_step k l (it_seen s k) Idle [(k, n, t)] s"
  "s\<lparr>it_pc := (it_pc s)(k := c)\<rparr> = local_step k (it_lock s) (it_seen s k) c [] s"
  "s\<lparr>it_seen := (it_seen s)(k := i)\<rparr> = local_step k (it_lock s) i (it_pc s k) [] s"
  by (simp_all add: local_step_def returns_def)

lemma intern_step_inv:
  assumes "intern_step s s'" "it_inv s"
  shows "it_inv s'"
  using assms
proof (cases rule: intern_step.cases)
  case (fast_hit k i n t)
  show ?thesis unfolding fast_hit(1) step_as_local(3)
    by (rule local_step_inv) (use fast_hit assms(2) in \<open>auto simp: it_inv_def in_section_def pc_ok_def local_step_def\<close>)
next
  case (fast_miss k i n)
  show ?thesis unfolding fast_miss(1) step_as_local(1)
    by (rule local_step_inv) (use fast_miss assms(2) in \<open>auto simp: it_inv_def in_section_def pc_ok_def local_step_def\<close>)
next
  case (lock k n)
  have "it_seen s k < length (it_hist s)" using assms(2) by (simp add: it_inv_def)
  then have "may_load s k (length (it_hist s) - 1)" by (auto simp: may_load_def)
  then show ?thesis unfolding lock(1) step_as_local(2)
    by (rule local_step_inv [OF assms(2)]) (use lock assms(2) in \<open>auto simp: it_inv_def pc_ok_def local_step_def\<close>)
next
  case (reload k n i)
  have "pc_ok s k" using assms(2) by (simp add: it_inv_def)
  then have i: "i = length (it_hist s) - 1" "it_hist s \<noteq> []" using reload assms(2) by (auto simp: pc_ok_def may_load_def it_inv_def)
  have "it_lock s = Some k" using reload assms(2) by (auto simp: it_inv_def in_section_def)
  then show ?thesis unfolding reload(1) step_as_local(1) using reload assms(2) i
    by (intro local_step_inv) (auto simp: it_inv_def pc_ok_def local_step_def last_conv_nth)
next
  case (slow_hit k n cur t)
  have "pc_ok s k" using assms(2) by (simp add: it_inv_def)
  then have c: "cur = last (it_hist s)" "it_seen s k = length (it_hist s) - 1" "it_hist s \<noteq> []"
    using slow_hit assms(2) by (auto simp: pc_ok_def it_inv_def)
  have "it_lock s = Some k" using slow_hit assms(2) by (auto simp: it_inv_def in_section_def)
  then show ?thesis unfolding slow_hit(1) step_as_local(5) using slow_hit assms(2) c
    by (intro local_step_inv may_load_seen) (auto simp: it_inv_def pc_ok_def local_step_def last_conv_nth)
next
  case (publish k n cur)
  then show ?thesis using publish_inv [OF assms(2)] by simp
next
  case (unlock k n t)
  have "pc_ok s k" using assms(2) by (simp add: it_inv_def)
  moreover have "it_lock s = Some k" using unlock assms(2) by (auto simp: it_inv_def in_section_def)
  ultimately show ?thesis unfolding unlock(1) step_as_local(4) using unlock assms(2)
    by (intro local_step_inv may_load_seen) (auto simp: it_inv_def pc_ok_def local_step_def in_section_def)
next
  case (sync k j)
  let ?i = "max (it_seen s k) (it_seen s j)"
  have i: "may_load s k ?i" using assms(2) by (simp add: it_inv_def may_load_def)
  have "pc_ok s k" "\<forall>k. it_seen s k < length (it_hist s)" using assms(2) by (simp_all add: it_inv_def)
  then have "pc_ok (local_step k (it_lock s) ?i (it_pc s k) [] s) k"
    using it_inv_hist [OF assms(2), of "it_seen s k" ?i] i
    by (auto simp: pc_ok_def local_step_def may_load_def less_eq_Suc_le max_def split: intern_pc.splits)
  then show ?thesis unfolding sync(1) step_as_local(6) using assms(2) i
    by (intro local_step_inv) (auto simp: it_inv_def)
qed

lemma reachable_inv: "interner_reachable s \<Longrightarrow> it_inv s"
proof (induction rule: interner_reachable.induct)
  case start
  show ?case by (simp add: it_inv_def it_init_def pc_ok_def in_section_def)
qed (rule intern_step_inv)

section \<open>Properties\<close>

lemma logged:
  assumes "interner_reachable s" "(k, n, t) \<in> set (it_log s)" "it_seen s k \<le> i" "i < length (it_hist s)"
  shows "sn_map (it_hist s ! i) n = Some t" "sn_ok (it_hist s ! i)"
proof -
  have inv: "it_inv s" using reachable_inv [OF assms(1)] .
  then have "sn_map (it_hist s ! it_seen s k) n = Some t" using assms(2) by (auto simp: it_inv_def)
  then show "sn_map (it_hist s ! i) n = Some t" using it_inv_hist [OF inv assms(3,4)] by blast
  show "sn_ok (it_hist s ! i)" using inv assms(4) by (simp add: it_inv_def list_all_length)
qed

lemma hist_size:
  assumes "it_inv s" "i < length (it_hist s)"
  shows "length (sn_names (it_hist s ! i)) \<le> length (sn_names (last (it_hist s)))"
proof -
  have ne: "it_hist s \<noteq> []" using assms(1) by (simp add: it_inv_def)
  have "sn_le (it_hist s ! i) (last (it_hist s))" unfolding last_conv_nth [OF ne]
    using assms by (cases "i = length (it_hist s) - 1") (auto simp: it_inv_def sorted_wrt_iff_nth_less)
  then show ?thesis by (auto simp: sn_le_def)
qed

text \<open>
  C38. However any number of threads interleave, the tags they get are globally consistent: two calls that returned got the
  same tag exactly if they asked for the same name, and from then on \<open>get_tag_name\<close> gives the name back, whichever
  snapshot the calling thread's loads return. (As long as there are at most \<open>2 ^ 32\<close> names.)
\<close>

theorem tags_globally_consistent:
  assumes s: "interner_reachable s" "length (sn_names (last (it_hist s))) \<le> 2 ^ 32"
    and a: "(k, m, t) \<in> set (it_log s)" and b: "(j, n, u) \<in> set (it_log s)"
  shows "(t = u \<longleftrightarrow> m = n) \<and> (may_load s k i \<longrightarrow> get_tag_name (it_hist s ! i) t = m)"
proof -
  have inv: "it_inv s" using reachable_inv [OF s(1)] .
  let ?z = "length (it_hist s) - 1"
  have z: "it_seen s x \<le> ?z" "?z < length (it_hist s)" for x
  proof -
    have "it_seen s x < length (it_hist s)" using inv by (simp add: it_inv_def)
    then show "it_seen s x \<le> ?z" "?z < length (it_hist s)" by auto
  qed
  have size: "length (sn_names (it_hist s ! i)) \<le> 2 ^ 32" if "i < length (it_hist s)" for i
    using hist_size [OF inv that] s(2) by linarith
  note A = logged [OF s(1) a z] and B = logged [OF s(1) b z]
  have "t = u \<Longrightarrow> m = n" using sn_ok_inject [OF A(2) A(1) _ size [OF z(2)], of n] B(1) by simp
  moreover have "m = n \<Longrightarrow> t = u" using A(1) B(1) by simp
  moreover have "get_tag_name (it_hist s ! i) t = m" if "may_load s k i"
  proof -
    have i: "it_seen s k \<le> i" "i < length (it_hist s)" using that by (simp_all add: may_load_def)
    show ?thesis using sn_ok_name(1) [OF logged(2,1) [OF s(1) a i] size [OF i(2)]] .
  qed
  ultimately show ?thesis by blast
qed

text \<open>One thread interns a name, another finds it.\<close>

definition race :: "nat \<Rightarrow> interner" where
  "race i = (let a = lit ''Some'';
     h = [sn_empty, sn_extend a sn_empty];
     go = (\<lambda>l i c r. \<lparr>it_hist = take (Suc i) h, it_lock = l, it_pc = (\<lambda>_. Idle)(0 := c), it_seen = (\<lambda>_. 0)(0 := i), it_log = r\<rparr>) in
     [it_init, go None 0 (Missed a) [], go (Some 0) 0 (Locked a) [], go (Some 0) 0 (Checking a sn_empty) [],
      go (Some 0) 1 (Unlocking a 0) [], go None 1 Idle [(0, a, 0)],
      (go None 1 Idle [(1, a, 0), (0, a, 0)])\<lparr>it_seen := (\<lambda>_. 0)(0 := 1, 1 := 1)\<rparr>] ! i)"

lemma race_steps:
  "intern_step (race 0) (race 1)" "intern_step (race 1) (race 2)" "intern_step (race 2) (race 3)"
  "intern_step (race 3) (race 4)" "intern_step (race 4) (race 5)" "intern_step (race 5) (race 6)"
proof -
  note d = race_def Let_def it_init_def may_load_def returns_def new_tag_def sn_extend_def sn_empty_def fun_eq_iff
  show "intern_step (race 0) (race 1)" using fast_miss [of "race 0" 0 0 "lit ''Some''"] by (simp add: d)
  show "intern_step (race 1) (race 2)" using lock [of "race 1" 0 "lit ''Some''"] by (simp add: d)
  show "intern_step (race 2) (race 3)" using reload [of "race 2" 0 "lit ''Some''" 0] by (simp add: d)
  show "intern_step (race 3) (race 4)" using publish [of "race 3" 0 "lit ''Some''" sn_empty] by (simp add: d)
  show "intern_step (race 4) (race 5)" using unlock [of "race 4" 0 "lit ''Some''" 0] by (simp add: d)
  show "intern_step (race 5) (race 6)" using fast_hit [of "race 5" 1 1 "lit ''Some''" 0] by (simp add: d fun_upd_idem)
qed

lemma race_reachable: "interner_reachable (race 6)"
proof -
  have "interner_reachable (race 0)" using start by (simp add: race_def Let_def)
  from step [OF step [OF step [OF step [OF step [OF step [OF this race_steps(1)] race_steps(2)] race_steps(3)] race_steps(4)] race_steps(5)] race_steps(6)]
  show ?thesis .
qed

theorem tags_globally_consistent_witness: "get_tag_name (it_hist (race 6) ! 1) 0 = lit ''Some''"
  using tags_globally_consistent [OF race_reachable, of 0 "lit ''Some''" 0 1 "lit ''Some''" 0 1]
  by (simp add: race_def Let_def may_load_def sn_extend_def sn_empty_def new_tag_def)

text \<open>Without interference the lock-free interner gives the tags of the locked one.\<close>

lemma intern_variants_agree:
  assumes "intern_tag n s = (t, s')"
  shows "intern_tag_mutex n (sn_names s, sn_map s) = (t, sn_names s', sn_map s')"
  using assms
  by (auto simp: intern_tag_def intern_tag_lockfree_def intern_tag_mutex_def new_tag_def sn_extend_def Let_def split: option.splits)

end
