(* ===== verification/RtValue.thy ===== *)
theory RtValue
  imports Decimal Interner Payload
begin

text \<open>
  The values of generated programs (\<open>src/src/runtime/value.rs\<close>) and the builtins on integers, booleans, options and
  compound values (\<open>arith.rs\<close>, \<open>bool_ops.rs\<close>, \<open>option.rs\<close>, \<open>tuple.rs\<close>). An \<open>i64\<close> is an integer within \<open>i64_range\<close>; a text
  is its UTF-8 bytes; a float its 64 bits; the tag of a constructor is the name it interns, which the interner keeps
  one to one. \<open>'x\<close> stands for the payloads of other crates and modules (decimals, maps), with what the builtins use of them
  as arguments. A panic is an \<open>rt_error\<close>, with the name of the builtin.
\<close>

section \<open>Values\<close>

datatype 'x val =
    VInt int
  | VBool bool
  | VStr rstring
  | VUnit
  | VTuple "'x val list"
  | VList "'x val list"
  | VCtor rstring "'x val list"
  | VDec 'x
  | VFloat u64
  | VBytes bytes
  | VLocal 'x
  | VFrozen 'x

datatype rt_error =
    BadType string
  | Overflow string
  | DivisionByZero string
  | NegativeShift string
  | OutOfRange string
  | EmptyList string
  | NotAnInteger rstring
  | AssertionFailed
  | UnwrapNone
  | BadTerm string
  | UnboundVariable rstring
  | UnknownFunction rstring

type_synonym 'a rt = "rt_error + 'a"

definition as_int :: "'x val \<Rightarrow> int rt" where
  "as_int v = (case v of VInt n \<Rightarrow> Inr n | _ \<Rightarrow> Inl (BadType ''as_int''))"

definition as_text :: "'x val \<Rightarrow> rstring rt" where
  "as_text v = (case v of VStr s \<Rightarrow> Inr s | _ \<Rightarrow> Inl (BadType ''as_text''))"

definition as_bool :: "'x val \<Rightarrow> bool rt" where
  "as_bool v = (case v of VBool b \<Rightarrow> Inr b | _ \<Rightarrow> Inl (BadType ''as_bool''))"

definition as_bytes :: "'x val \<Rightarrow> bytes rt" where
  "as_bytes v = (case v of VBytes b \<Rightarrow> Inr b | _ \<Rightarrow> Inl (BadType ''as_bytes''))"

text \<open>\<open>dz\<close> is \<open>Decimal::is_zero\<close>. Both zeros of a float are false, a NaN is true.\<close>

fun truthy :: "('x \<Rightarrow> bool) \<Rightarrow> 'x val \<Rightarrow> bool" where
  "truthy dz (VBool b) = b"
| "truthy dz (VInt n) = (n \<noteq> 0)"
| "truthy dz (VStr s) = (s \<noteq> [])"
| "truthy dz VUnit = False"
| "truthy dz (VTuple es) = (es \<noteq> [])"
| "truthy dz (VList es) = (es \<noteq> [])"
| "truthy dz (VCtor t fs) = True"
| "truthy dz (VDec d) = (\<not> dz d)"
| "truthy dz (VFloat x) = (x \<noteq> 0 \<and> x \<noteq> 0x8000000000000000)"
| "truthy dz (VBytes bs) = (bs \<noteq> [])"
| "truthy dz (VLocal l) = True"
| "truthy dz (VFrozen m) = True"

text \<open>The derived \<open>PartialEq\<close>: IEEE equality on floats, \<open>xeq\<close> on the foreign payloads.\<close>

definition is_nan :: "u64 \<Rightarrow> bool" where
  "is_nan x \<longleftrightarrow> x AND 0x7FF0000000000000 = 0x7FF0000000000000 \<and> x AND 0x000FFFFFFFFFFFFF \<noteq> 0"

definition float_eq :: "u64 \<Rightarrow> u64 \<Rightarrow> bool" where
  "float_eq x y \<longleftrightarrow> \<not> is_nan x \<and> \<not> is_nan y \<and> (x = y \<or> x AND 0x7FFFFFFFFFFFFFFF = 0 \<and> y AND 0x7FFFFFFFFFFFFFFF = 0)"

fun val_eq :: "('x \<Rightarrow> 'x \<Rightarrow> bool) \<Rightarrow> 'x val \<Rightarrow> 'x val \<Rightarrow> bool"
  and vals_eq :: "('x \<Rightarrow> 'x \<Rightarrow> bool) \<Rightarrow> 'x val list \<Rightarrow> 'x val list \<Rightarrow> bool" where
  "val_eq xeq (VInt a) w = (case w of VInt b \<Rightarrow> a = b | _ \<Rightarrow> False)"
| "val_eq xeq (VBool a) w = (case w of VBool b \<Rightarrow> a = b | _ \<Rightarrow> False)"
| "val_eq xeq (VStr a) w = (case w of VStr b \<Rightarrow> a = b | _ \<Rightarrow> False)"
| "val_eq xeq (VTuple a) w = (case w of VTuple b \<Rightarrow> vals_eq xeq a b | _ \<Rightarrow> False)"
| "val_eq xeq (VList a) w = (case w of VList b \<Rightarrow> vals_eq xeq a b | _ \<Rightarrow> False)"
| "val_eq xeq (VDec a) w = (case w of VDec b \<Rightarrow> xeq a b | _ \<Rightarrow> False)"
| "val_eq xeq (VFloat a) w = (case w of VFloat b \<Rightarrow> float_eq a b | _ \<Rightarrow> False)"
| "val_eq xeq (VBytes a) w = (case w of VBytes b \<Rightarrow> a = b | _ \<Rightarrow> False)"
| "val_eq xeq (VLocal a) w = (case w of VLocal b \<Rightarrow> xeq a b | _ \<Rightarrow> False)"
| "val_eq xeq (VFrozen a) w = (case w of VFrozen b \<Rightarrow> xeq a b | _ \<Rightarrow> False)"
| "val_eq xeq VUnit w = (case w of VUnit \<Rightarrow> True | _ \<Rightarrow> False)"
| "val_eq xeq (VCtor s a) w = (case w of VCtor t b \<Rightarrow> s = t \<and> vals_eq xeq a b | _ \<Rightarrow> False)"
| "vals_eq xeq [] w = (w = [])"
| "vals_eq xeq (a # as) w = (case w of [] \<Rightarrow> False | b # bs \<Rightarrow> val_eq xeq a b \<and> vals_eq xeq as bs)"

section \<open>Integers\<close>

definition checked :: "string \<Rightarrow> int \<Rightarrow> 'x val rt" where
  "checked f i = (if i64_range i then Inr (VInt i) else Inl (Overflow f))"

definition int_add :: "int \<Rightarrow> int \<Rightarrow> 'x val rt" where
  "int_add x y = checked ''int_add'' (x + y)"

definition int_sub :: "int \<Rightarrow> int \<Rightarrow> 'x val rt" where
  "int_sub x y = checked ''int_sub'' (x - y)"

definition int_mul :: "int \<Rightarrow> int \<Rightarrow> 'x val rt" where
  "int_mul x y = checked ''int_mul'' (x * y)"

text \<open>Two's complement in 64 bits.\<close>

definition wrap64 :: "int \<Rightarrow> int" where
  "wrap64 i = (i + 2 ^ 63) mod 2 ^ 64 - 2 ^ 63"

definition int_shl :: "int \<Rightarrow> int \<Rightarrow> 'x val rt" where
  "int_shl x n =
     (if n < 0 then Inl (NegativeShift ''int_shl'')
      else if x = 0 then Inr (VInt 0)
      else if 63 < n then Inl (Overflow ''int_shl'')
      else
        let r = wrap64 (x * 2 ^ nat n) in
        if r div 2 ^ nat n \<noteq> x then Inl (Overflow ''int_shl'') else Inr (VInt r))"

definition int_shr :: "int \<Rightarrow> int \<Rightarrow> 'x val rt" where
  "int_shr x n =
     (if n < 0 then Inl (NegativeShift ''int_shr'')
      else Inr (VInt (if 63 < n then (if x < 0 then - 1 else 0) else x div 2 ^ nat n)))"

definition int_bit_and :: "int \<Rightarrow> int \<Rightarrow> 'x val" where
  "int_bit_and x y = VInt (x AND y)"

definition int_bit_or :: "int \<Rightarrow> int \<Rightarrow> 'x val" where
  "int_bit_or x y = VInt (x OR y)"

definition int_bit_xor :: "int \<Rightarrow> int \<Rightarrow> 'x val" where
  "int_bit_xor x y = VInt (x XOR y)"

definition int_bit_not :: "int \<Rightarrow> 'x val" where
  "int_bit_not x = VInt (NOT x)"

definition int_lt :: "int \<Rightarrow> int \<Rightarrow> 'x val" where
  "int_lt x y = VBool (x < y)"

definition int_lte :: "int \<Rightarrow> int \<Rightarrow> 'x val" where
  "int_lte x y = VBool (x \<le> y)"

definition int_gt :: "int \<Rightarrow> int \<Rightarrow> 'x val" where
  "int_gt x y = VBool (x > y)"

definition int_gte :: "int \<Rightarrow> int \<Rightarrow> 'x val" where
  "int_gte x y = VBool (x \<ge> y)"

definition int_eq :: "int \<Rightarrow> int \<Rightarrow> 'x val" where
  "int_eq x y = VBool (x = y)"

text \<open>\<open>div_euclid\<close> and \<open>rem_euclid\<close>, which panic on the one quotient that does not fit.\<close>

definition div_euclid :: "string \<Rightarrow> int \<Rightarrow> int \<Rightarrow> int rt" where
  "div_euclid f x y =
     (if x = - (2 ^ 63) \<and> y = - 1 then Inl (Overflow f)
      else Inr (if 0 < y then x div y else - (x div (- y))))"

definition rem_euclid :: "string \<Rightarrow> int \<Rightarrow> int \<Rightarrow> int rt" where
  "rem_euclid f x y = (if x = - (2 ^ 63) \<and> y = - 1 then Inl (Overflow f) else Inr (x mod \<bar>y\<bar>))"

definition option_none :: "'x val" where
  "option_none = VCtor (lit ''None'') []"

definition option_some :: "'x val \<Rightarrow> 'x val" where
  "option_some v = VCtor (lit ''Some'') [v]"

definition int_div :: "int \<Rightarrow> int \<Rightarrow> 'x val rt" where
  "int_div x y = (if y = 0 then Inl (DivisionByZero ''int_div'') else bindE (div_euclid ''int_div'' x y) (\<lambda>q. Inr (VInt q)))"

definition int_div_checked :: "int \<Rightarrow> int \<Rightarrow> 'x val rt" where
  "int_div_checked x y =
     (if y = 0 then Inr option_none
      else bindE (div_euclid ''int_div_checked'' x y) (\<lambda>q. Inr (option_some (VInt q))))"

definition int_mod :: "int \<Rightarrow> int \<Rightarrow> 'x val rt" where
  "int_mod x y = (if y = 0 then Inl (DivisionByZero ''int_mod'') else bindE (rem_euclid ''int_mod'' x y) (\<lambda>r. Inr (VInt r)))"

definition value_eq :: "('x \<Rightarrow> 'x \<Rightarrow> bool) \<Rightarrow> 'x val \<Rightarrow> 'x val \<Rightarrow> 'x val" where
  "value_eq xeq a b = VBool (val_eq xeq a b)"

definition int_to_str :: "int \<Rightarrow> 'x val" where
  "int_to_str n = VStr (int_dec n)"

definition str_to_int :: "rstring \<Rightarrow> 'x val rt" where
  "str_to_int s = (case parse_i64 s of Some n \<Rightarrow> Inr (VInt n) | None \<Rightarrow> Inl (NotAnInteger s))"

definition int_abs :: "int \<Rightarrow> 'x val rt" where
  "int_abs n = checked ''int_abs'' \<bar>n\<bar>"

definition int_min :: "int \<Rightarrow> int \<Rightarrow> 'x val" where
  "int_min a b = VInt (min a b)"

definition int_max :: "int \<Rightarrow> int \<Rightarrow> 'x val" where
  "int_max a b = VInt (max a b)"

definition int_clamp :: "int \<Rightarrow> int \<Rightarrow> int \<Rightarrow> 'x val" where
  "int_clamp v lo hi = VInt (min (max v lo) hi)"

text \<open>Rust's \<open>/\<close> truncates.\<close>

definition quot :: "int \<Rightarrow> int \<Rightarrow> int" where
  "quot x y = sgn x * sgn y * (\<bar>x\<bar> div \<bar>y\<bar>)"

definition celsius_to_fahrenheit :: "int \<Rightarrow> 'x val rt" where
  "celsius_to_fahrenheit c =
     (if i64_range (c * 9) \<and> i64_range (quot (c * 9) 5 + 32) then Inr (VInt (quot (c * 9) 5 + 32))
      else Inl (Overflow ''celsius_to_fahrenheit''))"

definition fahrenheit_to_celsius :: "int \<Rightarrow> 'x val rt" where
  "fahrenheit_to_celsius f =
     (if i64_range (f - 32) \<and> i64_range ((f - 32) * 5) then Inr (VInt (quot ((f - 32) * 5) 9))
      else Inl (Overflow ''fahrenheit_to_celsius''))"

definition is_positive :: "int \<Rightarrow> 'x val" where
  "is_positive n = VBool (0 < n)"

definition unit_id :: "'x val \<Rightarrow> 'x val" where
  "unit_id v = VUnit"

definition seq_unit :: "'x val \<Rightarrow> 'x val rt" where
  "seq_unit v =
     (case v of
        VTuple (VUnit # VUnit # _) \<Rightarrow> Inr VUnit
      | VUnit \<Rightarrow> Inr VUnit
      | _ \<Rightarrow> Inl (BadType ''seq_unit''))"

definition seq :: "'x val \<Rightarrow> 'x val \<Rightarrow> 'x val" where
  "seq eff r = r"

section \<open>Booleans, options, compound values\<close>

definition ax_assert :: "('x \<Rightarrow> bool) \<Rightarrow> 'x val \<Rightarrow> 'x val rt" where
  "ax_assert dz v = (if truthy dz v then Inr VUnit else Inl AssertionFailed)"

definition bool_and :: "('x \<Rightarrow> bool) \<Rightarrow> 'x val \<Rightarrow> 'x val \<Rightarrow> 'x val" where
  "bool_and dz a b = VBool (truthy dz a \<and> truthy dz b)"

definition bool_or :: "('x \<Rightarrow> bool) \<Rightarrow> 'x val \<Rightarrow> 'x val \<Rightarrow> 'x val" where
  "bool_or dz a b = VBool (truthy dz a \<or> truthy dz b)"

definition bool_not :: "('x \<Rightarrow> bool) \<Rightarrow> 'x val \<Rightarrow> 'x val" where
  "bool_not dz v = VBool (\<not> truthy dz v)"

definition option_is_none :: "'x val \<Rightarrow> 'x val" where
  "option_is_none v = VBool (case v of VCtor t fs \<Rightarrow> t = lit ''None'' \<and> fs = [] | _ \<Rightarrow> False)"

definition option_is_some :: "'x val \<Rightarrow> 'x val" where
  "option_is_some v = VBool (case v of VCtor t fs \<Rightarrow> t = lit ''Some'' \<and> length fs = 1 | _ \<Rightarrow> False)"

definition option_none_fn :: "'x val \<Rightarrow> 'x val" where
  "option_none_fn v = option_none"

definition option_unwrap :: "'x val \<Rightarrow> 'x val rt" where
  "option_unwrap v =
     (case v of
        VCtor t fs \<Rightarrow>
          if t = lit ''Some'' \<and> length fs = 1 then Inr (hd fs)
          else if t = lit ''None'' then Inl UnwrapNone
          else Inl (BadType ''option_unwrap'')
      | _ \<Rightarrow> Inl (BadType ''option_unwrap''))"

definition fields_from_variadic :: "'x val \<Rightarrow> 'x val list" where
  "fields_from_variadic v = (case v of VUnit \<Rightarrow> [] | VTuple es \<Rightarrow> es | other \<Rightarrow> [other])"

definition value_make :: "'x val \<Rightarrow> 'x val" where
  "value_make v = VCtor (lit ''Value'') (fields_from_variadic v)"

text \<open>An index that may be negative or too large.\<close>

definition nth_checked :: "rt_error \<Rightarrow> 'a list \<Rightarrow> int \<Rightarrow> 'a rt" where
  "nth_checked e xs i = (if 0 \<le> i \<and> i < int (length xs) then Inr (xs ! nat i) else Inl e)"

definition value_field :: "'x val \<Rightarrow> nat \<Rightarrow> 'x val rt" where
  "value_field v idx =
     (case v of
        VCtor t fs \<Rightarrow> nth_checked (OutOfRange ''value_field'') fs (int idx)
      | VTuple es \<Rightarrow> nth_checked (OutOfRange ''value_field'') es (int idx)
      | VList es \<Rightarrow> nth_checked (OutOfRange ''value_field'') es (int idx)
      | _ \<Rightarrow> Inl (BadType ''value_field''))"

definition value_0 :: "'x val \<Rightarrow> 'x val rt" where
  "value_0 v = value_field v 0"

definition value_1 :: "'x val \<Rightarrow> 'x val rt" where
  "value_1 v = value_field v 1"

definition value_2 :: "'x val \<Rightarrow> 'x val rt" where
  "value_2 v = value_field v 2"

definition tuple_field :: "'x val \<Rightarrow> int \<Rightarrow> 'x val rt" where
  "tuple_field v idx =
     (case v of
        VTuple es \<Rightarrow> nth_checked (OutOfRange ''tuple_field'') es idx
      | VList es \<Rightarrow> nth_checked (OutOfRange ''tuple_field'') es idx
      | _ \<Rightarrow> Inl (BadType ''tuple_field''))"

definition ctor_field :: "'x val \<Rightarrow> int \<Rightarrow> 'x val rt" where
  "ctor_field v idx =
     (case v of VCtor t fs \<Rightarrow> nth_checked (OutOfRange ''ctor_field'') fs idx | _ \<Rightarrow> Inl (BadType ''ctor_field''))"

section \<open>Arithmetic is exact or refused\<close>

lemma wrap64_range: "i64_range i \<Longrightarrow> wrap64 i = i"
  by (simp add: wrap64_def i64_range_def)

lemma wrap64_in_range: "i64_range (wrap64 i)"
proof -
  have "0 \<le> (i + 2 ^ 63) mod 2 ^ 64" "(i + 2 ^ 63) mod 2 ^ 64 < 2 ^ 64" by simp_all
  then show ?thesis by (simp add: wrap64_def i64_range_def)
qed

lemma wrap64_mod: "n \<le> 64 \<Longrightarrow> wrap64 i mod 2 ^ n = i mod 2 ^ n"
proof -
  assume n: "n \<le> 64"
  have "wrap64 i = i - 2 ^ 64 * ((i + 2 ^ 63) div 2 ^ 64)" by (simp add: wrap64_def minus_mult_div_eq_mod [symmetric])
  moreover have "(2 :: int) ^ n dvd 2 ^ 64" by (rule le_imp_power_dvd [OF n])
  then have "(2 :: int) ^ n dvd wrap64 i - i" using calculation by simp
  then show ?thesis by (simp add: mod_eq_dvd_iff)
qed

text \<open>A shift to the left is a multiplication; what does not fit is refused, never wrapped.\<close>

lemma int_shl_exact:
  assumes "i64_range x" "0 \<le> n"
  shows "(int_shl x n :: 'x val rt) = (if i64_range (x * 2 ^ nat n) then Inr (VInt (x * 2 ^ nat n)) else Inl (Overflow ''int_shl''))"
proof (cases "x = 0 \<or> 63 < n")
  case True
  have "\<not> i64_range (x * 2 ^ nat n)" if "x \<noteq> 0" "63 < n"
  proof -
    have "64 \<le> nat n" using that by simp
    then have "(2 :: int) ^ 64 \<le> 2 ^ nat n" by (rule power_increasing) simp
    moreover have "1 \<le> \<bar>x\<bar>" using that by simp
    ultimately have "2 ^ 64 \<le> \<bar>x\<bar> * 2 ^ nat n" using mult_mono [of 1 "\<bar>x\<bar>" "2 ^ 64" "2 ^ nat n"] by simp
    then show ?thesis by (auto simp: i64_range_def abs_if split: if_splits)
  qed
  then show ?thesis using True assms(2) by (auto simp: int_shl_def i64_range_def)
next
  case False
  let ?p = "(2 :: int) ^ nat n" and ?r = "wrap64 (x * 2 ^ nat n)"
  have "?r mod ?p = 0" using wrap64_mod [of "nat n" "x * ?p"] False by auto
  then have r: "?r = ?r div ?p * ?p" by (metis div_mult_mod_eq add.right_neutral)
  have "?r div ?p = x \<longleftrightarrow> i64_range (x * ?p)"
  proof
    assume "?r div ?p = x"
    then show "i64_range (x * ?p)" using r wrap64_in_range by metis
  qed (simp add: wrap64_range)
  then show ?thesis using False assms(2) by (simp add: int_shl_def Let_def wrap64_range)
qed

lemma int_shr_exact:
  assumes "i64_range x" "0 \<le> n"
  shows "(int_shr x n :: 'x val rt) = Inr (VInt (x div 2 ^ nat n))"
proof (cases "63 < n")
  case True
  then have "(2 :: int) ^ 64 \<le> 2 ^ nat n" by (intro power_increasing) auto
  then have "x < 2 ^ nat n" "- (2 ^ nat n) \<le> x" using assms(1) by (auto simp: i64_range_def)
  then have "x div 2 ^ nat n = (if x < 0 then - 1 else 0)"
    using zdiv_eq_0_iff [of x "2 ^ nat n"] by (auto intro!: int_div_pos_eq [of x "2 ^ nat n" "- 1" "x + 2 ^ nat n"])
  then show ?thesis using True assms(2) by (simp add: int_shr_def)
qed (use assms(2) in \<open>simp add: int_shr_def\<close>)

lemma int_div_mod_euclid:
  assumes "i64_range x" "i64_range y" "y \<noteq> 0" "\<not> (x = - (2 ^ 63) \<and> y = - 1)"
  shows "\<exists>q r. int_div x y = (Inr (VInt q) :: 'x val rt) \<and> int_mod x y = (Inr (VInt r) :: 'x val rt) \<and>
    x = q * y + r \<and> 0 \<le> r \<and> r < \<bar>y\<bar>"
proof -
  let ?q = "if 0 < y then x div y else - (x div (- y))"
  have "x = ?q * y + x mod \<bar>y\<bar>"
  proof (cases "0 < y")
    case False
    have "x = x div (- y) * (- y) + x mod (- y)" by (rule div_mult_mod_eq [symmetric])
    then show ?thesis using False by (simp add: abs_if)
  qed simp
  moreover have "0 \<le> x mod \<bar>y\<bar>" "x mod \<bar>y\<bar> < \<bar>y\<bar>" using assms(3) by simp_all
  ultimately show ?thesis using assms(3,4) by (auto simp: int_div_def int_mod_def div_euclid_def rem_euclid_def)
qed

text \<open>The one pair of operands that \<open>int_div_checked\<close> does not check.\<close>

lemma int_div_checked_panics: "int_div_checked (- (2 ^ 63)) (- 1) = (Inl (Overflow ''int_div_checked'') :: 'x val rt)"
  by (simp add: int_div_checked_def div_euclid_def)

end
