(* ===== verification/RtList.thy ===== *)
theory RtList
  imports RtValue
begin

text \<open>
  The list builtins of \<open>src/src/runtime/list.rs\<close>. A \<open>ListBuf\<close> shares its elements and copies them before an update that
  another holder could see, so a list is a value here.
\<close>

section \<open>Narrowing\<close>

definition all_or :: "rt_error \<Rightarrow> ('x val \<Rightarrow> bool) \<Rightarrow> 'x val list \<Rightarrow> unit rt" where
  "all_or e ok items = (if list_all ok items then Inr () else Inl e)"

definition narrow_value_list :: "string \<Rightarrow> ('x val \<Rightarrow> bool) \<Rightarrow> 'x val \<Rightarrow> 'x val rt" where
  "narrow_value_list f ok v =
     (case v of
        VList items \<Rightarrow> bindE (all_or (BadType f) ok items) (\<lambda>_. Inr (VList items))
      | _ \<Rightarrow> Inl (BadType f))"

definition narrow_value :: "string \<Rightarrow> ('x val \<Rightarrow> bool) \<Rightarrow> 'x val \<Rightarrow> 'x val rt" where
  "narrow_value f ok v = (if ok v then Inr v else Inl (BadType f))"

fun is_int :: "'x val \<Rightarrow> bool" where
  "is_int (VInt _) = True"
| "is_int _ = False"

fun is_str :: "'x val \<Rightarrow> bool" where
  "is_str (VStr _) = True"
| "is_str _ = False"

fun is_bool :: "'x val \<Rightarrow> bool" where
  "is_bool (VBool _) = True"
| "is_bool _ = False"

fun is_bytes :: "'x val \<Rightarrow> bool" where
  "is_bytes (VBytes _) = True"
| "is_bytes _ = False"

definition value_list_to_int_list :: "'x val \<Rightarrow> 'x val rt" where
  "value_list_to_int_list = narrow_value_list ''value_list_to_int_list'' is_int"

definition value_list_to_text_list :: "'x val \<Rightarrow> 'x val rt" where
  "value_list_to_text_list = narrow_value_list ''value_list_to_text_list'' is_str"

definition value_list_to_bool_list :: "'x val \<Rightarrow> 'x val rt" where
  "value_list_to_bool_list = narrow_value_list ''value_list_to_bool_list'' is_bool"

definition value_to_int :: "'x val \<Rightarrow> 'x val rt" where
  "value_to_int = narrow_value ''value_to_int'' is_int"

definition value_to_text :: "'x val \<Rightarrow> 'x val rt" where
  "value_to_text = narrow_value ''value_to_text'' is_str"

definition value_to_bytes :: "'x val \<Rightarrow> 'x val rt" where
  "value_to_bytes = narrow_value ''value_to_bytes'' is_bytes"

definition value_to_bool :: "'x val \<Rightarrow> 'x val rt" where
  "value_to_bool = narrow_value ''value_to_bool'' is_bool"

definition value_to_text_list :: "'x val \<Rightarrow> 'x val rt" where
  "value_to_text_list = narrow_value_list ''value_to_text_list'' is_str"

definition value_to_int_list :: "'x val \<Rightarrow> 'x val rt" where
  "value_to_int_list = narrow_value_list ''value_to_int_list'' is_int"

section \<open>Packed text lists\<close>

fun pack_lens :: "rstring list \<Rightarrow> rstring" where
  "pack_lens [] = []"
| "pack_lens [s] = nat_text (length (chars s))"
| "pack_lens (s # ss) = nat_text (length (chars s)) @ [44] @ pack_lens ss"

fun texts :: "string \<Rightarrow> 'x val list \<Rightarrow> rstring list rt" where
  "texts f [] = Inr []"
| "texts f (v # vs) = (case v of VStr s \<Rightarrow> bindE (texts f vs) (\<lambda>ss. Inr (s # ss)) | _ \<Rightarrow> Inl (BadType f))"

definition text_list_pack :: "'x val \<Rightarrow> 'x val rt" where
  "text_list_pack v =
     (case v of
        VList items \<Rightarrow>
          bindE (texts ''text_list_pack'' items) (\<lambda>ss.
            Inr (VStr (nat_text (length items) @ [124] @ pack_lens ss @ [124] @ concat ss)))
      | _ \<Rightarrow> Inl (BadType ''text_list_pack''))"

text \<open>\<open>str::split_once\<close> and \<open>str::split\<close> at an ASCII character, and \<open>parse::<usize>\<close>.\<close>

definition cut_at :: "u8 \<Rightarrow> rstring \<Rightarrow> (rstring \<times> rstring) option" where
  "cut_at c s = (if c \<in> set s then Some (takeWhile (\<lambda>b. b \<noteq> c) s, tl (dropWhile (\<lambda>b. b \<noteq> c) s)) else None)"

function split_at :: "u8 \<Rightarrow> rstring \<Rightarrow> rstring list" where
  "split_at c s = (case dropWhile (\<lambda>b. b \<noteq> c) s of [] \<Rightarrow> [s] | _ # r \<Rightarrow> takeWhile (\<lambda>b. b \<noteq> c) s # split_at c r)"
  by pat_completeness auto
termination
proof (relation "measure (\<lambda>(c, s). length s)")
  fix c :: u8 and s :: rstring and x r
  assume "dropWhile (\<lambda>b. b \<noteq> c) s = x # r"
  then show "((c, r), c, s) \<in> measure (\<lambda>(c, s). length s)"
    using length_dropWhile_le [of "\<lambda>b. b \<noteq> c" s] by simp
qed simp

declare split_at.simps [simp del]

definition parse_usize :: "rstring \<Rightarrow> nat option" where
  "parse_usize s =
     (let ds = (case s of c # cs \<Rightarrow> if c = 0x2b then cs else s | [] \<Rightarrow> []) in
      if ds = [] then None
      else case parse_digits 0 ds of None \<Rightarrow> None | Some n \<Rightarrow> if n < 2 ^ 64 then Some n else None)"

text \<open>The byte offset after \<open>l\<close> code points, if there are as many.\<close>

fun char_cut :: "nat \<Rightarrow> rstring \<Rightarrow> nat option" where
  "char_cut 0 s = Some 0"
| "char_cut (Suc l) s =
     (case utf8_next s of
        None \<Rightarrow> None
      | Some (_, r) \<Rightarrow> map_option (\<lambda>k. (length s - length r) + k) (char_cut l r))"

fun unpack_items :: "rstring list \<Rightarrow> rstring \<Rightarrow> (rstring list \<times> rstring) rt" where
  "unpack_items [] body = Inr ([], body)"
| "unpack_items (l # ls) body =
     (case parse_usize l of
        None \<Rightarrow> Inl (BadTerm ''a length is not a number'')
      | Some n \<Rightarrow>
          (case char_cut n body of
             None \<Rightarrow> Inl (BadTerm ''items shorter than the lengths'')
           | Some k \<Rightarrow> bindE (unpack_items ls (drop k body)) (\<lambda>(ss, rest). Inr (take k body # ss, rest))))"

definition text_list_unpack :: "rstring \<Rightarrow> 'x val rt" where
  "text_list_unpack t =
     (case cut_at 124 t of
        None \<Rightarrow> Inl (BadTerm ''no count'')
      | Some (n, rest) \<Rightarrow>
          (case parse_usize n of
             None \<Rightarrow> Inl (BadTerm ''count is not a number'')
           | Some n \<Rightarrow>
               (case cut_at 124 rest of
                  None \<Rightarrow> Inl (BadTerm ''no lengths'')
                | Some (lens, body) \<Rightarrow>
                    bindE (if 0 < n then unpack_items (split_at 44 lens) body
                           else if lens \<noteq> [] then Inl (BadTerm ''count 0 with lengths'')
                           else Inr ([], body)) (\<lambda>(out, body).
                      if length out \<noteq> n then Inl (BadTerm ''count and lengths differ'')
                      else if body \<noteq> [] then Inl (BadTerm ''items longer than the lengths'')
                      else Inr (VList (map VStr out))))))"

section \<open>Lists\<close>

definition list_nil :: "'x val \<Rightarrow> 'x val" where
  "list_nil v = VList []"

definition list_make :: "'x val \<Rightarrow> 'x val" where
  "list_make v = VList (fields_from_variadic v)"

definition list_cons :: "'x val \<Rightarrow> 'x val \<Rightarrow> 'x val" where
  "list_cons e t = (case t of VList es \<Rightarrow> VList (e # es) | _ \<Rightarrow> VList [e])"

definition list_len :: "'x val \<Rightarrow> 'x val rt" where
  "list_len v = (case v of VList es \<Rightarrow> Inr (VInt (int (length es))) | _ \<Rightarrow> Inl (BadType ''list_len''))"

definition list_get :: "'x val \<Rightarrow> int \<Rightarrow> 'x val rt" where
  "list_get v idx = (case v of VList es \<Rightarrow> nth_checked (OutOfRange ''list_get'') es idx | _ \<Rightarrow> Inl (BadType ''list_get''))"

definition list_get_at :: "'x val \<Rightarrow> int \<Rightarrow> 'x val rt" where
  "list_get_at v idx =
     (if idx < 0 then Inr option_none
      else case v of
        VList es \<Rightarrow> Inr (if idx < int (length es) then option_some (es ! nat idx) else option_none)
      | _ \<Rightarrow> Inl (BadType ''list_get_at''))"

definition list_append :: "'x val \<Rightarrow> 'x val \<Rightarrow> 'x val rt" where
  "list_append v e = (case v of VList es \<Rightarrow> Inr (VList (es @ [e])) | _ \<Rightarrow> Inl (BadType ''list_append''))"

definition list_set :: "'x val \<Rightarrow> int \<Rightarrow> 'x val \<Rightarrow> 'x val rt" where
  "list_set v idx e =
     (case v of
        VList es \<Rightarrow>
          if 0 \<le> idx \<and> idx < int (length es) then Inr (VList (es[nat idx := e])) else Inl (OutOfRange ''list_set'')
      | _ \<Rightarrow> Inl (BadType ''list_set''))"

definition list_insert :: "'x val \<Rightarrow> int \<Rightarrow> 'x val \<Rightarrow> 'x val rt" where
  "list_insert v idx e =
     (case v of
        VList es \<Rightarrow>
          if 0 \<le> idx \<and> idx \<le> int (length es) then Inr (VList (take (nat idx) es @ e # drop (nat idx) es))
          else Inl (OutOfRange ''list_insert'')
      | _ \<Rightarrow> Inl (BadType ''list_insert''))"

definition list_remove :: "'x val \<Rightarrow> int \<Rightarrow> 'x val rt" where
  "list_remove v idx =
     (case v of
        VList es \<Rightarrow>
          if 0 \<le> idx \<and> idx < int (length es) then Inr (VList (take (nat idx) es @ drop (Suc (nat idx)) es))
          else Inl (OutOfRange ''list_remove'')
      | _ \<Rightarrow> Inl (BadType ''list_remove''))"

definition list_drop_last :: "'x val \<Rightarrow> 'x val rt" where
  "list_drop_last v =
     (case v of
        VList es \<Rightarrow> if es = [] then Inl (EmptyList ''list_drop_last'') else Inr (VList (butlast es))
      | _ \<Rightarrow> Inl (BadType ''list_drop_last''))"

definition list_concat :: "'x val \<Rightarrow> 'x val \<Rightarrow> 'x val rt" where
  "list_concat a b =
     (case a of
        VList xs \<Rightarrow> (case b of VList ys \<Rightarrow> Inr (VList (xs @ ys)) | _ \<Rightarrow> Inl (BadType ''list_concat''))
      | _ \<Rightarrow> Inl (BadType ''list_concat''))"

definition list_reverse :: "'x val \<Rightarrow> 'x val rt" where
  "list_reverse v = (case v of VList es \<Rightarrow> Inr (VList (rev es)) | _ \<Rightarrow> Inl (BadType ''list_reverse''))"

definition list_head :: "'x val \<Rightarrow> 'x val rt" where
  "list_head v =
     (case v of VList es \<Rightarrow> if es = [] then Inl (EmptyList ''list_head'') else Inr (hd es) | _ \<Rightarrow> Inl (BadType ''list_head''))"

definition list_tail :: "'x val \<Rightarrow> 'x val rt" where
  "list_tail v =
     (case v of VList es \<Rightarrow> if es = [] then Inl (EmptyList ''list_tail'') else Inr (VList (tl es)) | _ \<Rightarrow> Inl (BadType ''list_tail''))"

definition list_is_empty :: "'x val \<Rightarrow> 'x val rt" where
  "list_is_empty v = (case v of VList es \<Rightarrow> Inr (VBool (es = [])) | _ \<Rightarrow> Inl (BadType ''list_is_empty''))"

definition list_of_1 :: "'x val \<Rightarrow> 'x val" where
  "list_of_1 v = VList [v]"

definition list_of_2 :: "'x val \<Rightarrow> 'x val \<Rightarrow> 'x val" where
  "list_of_2 a b = VList [a, b]"

definition list_of_3 :: "'x val \<Rightarrow> 'x val \<Rightarrow> 'x val \<Rightarrow> 'x val" where
  "list_of_3 a b c = VList [a, b, c]"

definition list_str_len_lte_if_some :: "'x val \<Rightarrow> int \<Rightarrow> int \<Rightarrow> 'x val rt" where
  "list_str_len_lte_if_some v idx max_len =
     (if idx < 0 then Inr (VInt 0)
      else case v of
        VList es \<Rightarrow>
          if idx < int (length es) then
            (case es ! nat idx of
               VStr s \<Rightarrow> Inr (VInt (if int (length (chars s)) \<le> max_len then 1 else 0))
             | _ \<Rightarrow> Inl (BadType ''list_str_len_lte_if_some''))
          else Inr (VInt 0)
      | _ \<Rightarrow> Inl (BadType ''list_str_len_lte_if_some''))"

section \<open>Splitting and numbers\<close>

lemma nat_text_no: "unat c < 48 \<or> 57 < unat c \<Longrightarrow> c \<notin> set (nat_text n)"
  using nat_text_digits [of c n] by auto

lemma cut_at_append: "c \<notin> set s \<Longrightarrow> cut_at c (s @ c # t) = Some (s, t)"
  by (auto simp: cut_at_def takeWhile_append dropWhile_append)

lemma split_at_last: "c \<notin> set s \<Longrightarrow> split_at c s = [s]"
proof -
  assume "c \<notin> set s"
  then have "dropWhile (\<lambda>b. b \<noteq> c) s = []" by (metis (mono_tags, lifting) dropWhile_eq_Nil_conv)
  then show ?thesis by (subst split_at.simps) (simp only: list.case)
qed

lemma split_at_append: "c \<notin> set s \<Longrightarrow> split_at c (s @ c # t) = s # split_at c t"
  by (subst split_at.simps) (auto simp: takeWhile_append dropWhile_append)

lemma parse_usize_nat_text: "n < 2 ^ 64 \<Longrightarrow> parse_usize (nat_text n) = Some n"
proof -
  assume n: "n < 2 ^ 64"
  obtain c cs where t: "nat_text n = c # cs" using nat_text_nonempty by (meson list.exhaust)
  have "c \<noteq> 0x2b" using nat_text_no [of "0x2b" n] t by auto
  then show ?thesis using parse_nat_text [of n] n t by (simp add: parse_usize_def)
qed

end
