(* ===== verification/RustStr.thy ===== *)
theory RustStr
  imports Utf8
begin

text \<open>
  The methods of Rust's \<open>str\<close> that the text scanners use, on the sequence of code points of a string: white space
  is the Unicode property \<open>White_Space\<close>, \<open>lines\<close> ends a line at \<open>\n\<close> or \<open>\r\n\<close>.
\<close>

type_synonym str = "code_point list"

definition chs :: "string \<Rightarrow> str" where
  "chs s = map of_char s"

definition is_whitespace :: "code_point \<Rightarrow> bool" where
  "is_whitespace c \<longleftrightarrow>
     9 \<le> c \<and> c \<le> 13 \<or> c \<in> set [0x20, 0x85, 0xa0, 0x1680, 0x2028, 0x2029, 0x202f, 0x205f, 0x3000] \<or>
     0x2000 \<le> c \<and> c \<le> 0x200a"

definition trim_start :: "str \<Rightarrow> str" where
  "trim_start s = dropWhile is_whitespace s"

definition trim_end :: "str \<Rightarrow> str" where
  "trim_end s = rev (dropWhile is_whitespace (rev s))"

definition trim :: "str \<Rightarrow> str" where
  "trim s = trim_end (trim_start s)"

definition strip_prefix :: "str \<Rightarrow> str \<Rightarrow> str option" where
  "strip_prefix p s = (if take (length p) s = p then Some (drop (length p) s) else None)"

text \<open>\<open>split_whitespace().next()\<close>\<close>

definition first_word :: "str \<Rightarrow> str option" where
  "first_word s = (let w = takeWhile (\<lambda>c. \<not> is_whitespace c) (trim_start s) in if w = [] then None else Some w)"

definition split_once :: "code_point \<Rightarrow> str \<Rightarrow> (str \<times> str) option" where
  "split_once c s =
     (if c \<in> set s then Some (takeWhile (\<lambda>d. d \<noteq> c) s, tl (dropWhile (\<lambda>d. d \<noteq> c) s)) else None)"

definition strip_cr :: "str \<Rightarrow> str" where
  "strip_cr l = (if l \<noteq> [] \<and> last l = 13 then butlast l else l)"

function lines :: "str \<Rightarrow> str list" where
  "lines s =
     (if s = [] then []
      else let l = takeWhile (\<lambda>c. c \<noteq> 10) s in
        case dropWhile (\<lambda>c. c \<noteq> 10) s of
          [] \<Rightarrow> [l]
        | _ # r \<Rightarrow> strip_cr l # lines r)"
  by pat_completeness auto
termination
proof (relation "measure length")
  fix s l :: str and x :: code_point and r
  assume s: "s \<noteq> []" "dropWhile (\<lambda>c. c \<noteq> 10) s = x # r"
  have "length (dropWhile (\<lambda>c. c \<noteq> 10) s) \<le> length s" by (rule length_dropWhile_le)
  with s show "(r, s) \<in> measure length" by simp
qed simp

declare lines.simps [simp del]

section \<open>White space\<close>

lemma ws_simps [simp]: "is_whitespace 32" "is_whitespace 10" "is_whitespace 13" "\<not> is_whitespace 34" "\<not> is_whitespace 91"
    "\<not> is_whitespace 93" "\<not> is_whitespace 35" "\<not> is_whitespace 61"
  by (simp_all add: is_whitespace_def)

text \<open>A trimmed text has no white space at either end.\<close>

definition trimmed :: "str \<Rightarrow> bool" where
  "trimmed s \<longleftrightarrow> s = [] \<or> \<not> is_whitespace (hd s) \<and> \<not> is_whitespace (last s)"

lemma trim_end_id: "s = [] \<or> \<not> is_whitespace (last s) \<Longrightarrow> trim_end s = s"
  by (cases s rule: rev_cases) (auto simp: trim_end_def)

lemma trim_start_id: "s = [] \<or> \<not> is_whitespace (hd s) \<Longrightarrow> trim_start s = s"
  by (cases s) (auto simp: trim_start_def)

lemma trim_id: "trimmed s \<Longrightarrow> trim s = s"
  by (auto simp: trimmed_def trim_def trim_start_id trim_end_id)

lemma trim_start_ws [simp]: "is_whitespace c \<Longrightarrow> trim_start (c # s) = trim_start s"
  by (simp add: trim_start_def)

lemma trim_end_ws [simp]: "is_whitespace c \<Longrightarrow> trim_end (s @ [c]) = trim_end s"
  by (simp add: trim_end_def)

lemma trim_ws: "is_whitespace c \<Longrightarrow> trim (c # s) = trim s"
  by (simp add: trim_def)

lemma trim_end_trimmed: "trim_end s = [] \<or> \<not> is_whitespace (last (trim_end s))"
proof (cases "dropWhile is_whitespace (rev s)")
  case (Cons x xs)
  then have "\<not> is_whitespace x" using hd_dropWhile [of is_whitespace "rev s"] by auto
  with Cons show ?thesis by (simp add: trim_end_def)
qed (simp add: trim_end_def)

section \<open>Lines\<close>

lemma lines_Cons:
  assumes "10 \<notin> set l" "l = [] \<or> last l \<noteq> 13"
  shows "lines (l @ 10 # r) = l # lines r"
proof -
  have "takeWhile (\<lambda>c. c \<noteq> 10) (l @ 10 # r) = l" "dropWhile (\<lambda>c. c \<noteq> 10) (l @ 10 # r) = 10 # r"
    using assms(1) by (auto simp: takeWhile_append dropWhile_append)
  then show ?thesis using assms(2) by (subst lines.simps) (auto simp: Let_def strip_cr_def)
qed

definition unlines :: "str list \<Rightarrow> str" where
  "unlines ls = concat (map (\<lambda>l. l @ [10]) ls)"

lemma lines_unlines:
  assumes "list_all (\<lambda>l. 10 \<notin> set l \<and> (l = [] \<or> last l \<noteq> 13)) ls"
  shows "lines (unlines ls) = ls"
  using assms by (induction ls) (auto simp: unlines_def lines_Cons lines.simps [of "[]"])

lemma split_once_append: "c \<notin> set xs \<Longrightarrow> split_once c (xs @ c # r) = Some (xs, r)"
  by (induction xs) (auto simp: split_once_def)

lemma chs_append: "chs (s @ t) = chs s @ chs t"
  by (simp add: chs_def)

end
