(* ===== verification/RtStr.thy ===== *)
theory RtStr
  imports RtList RustStr
begin

text \<open>
  The text builtins of \<open>src/src/runtime/str_ops.rs\<close> on UTF-8 bytes. Indices are in code points; a negative one becomes a
  huge \<open>usize\<close>.
\<close>

definition as_usize :: "int \<Rightarrow> nat" where
  "as_usize i = nat (i mod 2 ^ 64)"

definition str_len :: "rstring \<Rightarrow> 'x val" where
  "str_len s = VInt (int (length (chars s)))"

definition str_concat :: "rstring \<Rightarrow> rstring \<Rightarrow> 'x val" where
  "str_concat a b = VStr (a @ b)"

definition str_char_at :: "rstring \<Rightarrow> int \<Rightarrow> 'x val" where
  "str_char_at s i =
     (if i < 0 then option_none
      else if i < int (length (chars s)) then option_some (VStr (utf8_encode1 (chars s ! nat i)))
      else option_none)"

definition str_char :: "rstring \<Rightarrow> int \<Rightarrow> 'x val rt" where
  "str_char s i = bindE (nth_checked (OutOfRange ''str_char'') (chars s) i) (\<lambda>c. Inr (VStr (utf8_encode1 c)))"

definition str_char_code :: "rstring \<Rightarrow> int \<Rightarrow> 'x val rt" where
  "str_char_code s i = bindE (nth_checked (OutOfRange ''str_char_code'') (chars s) i) (\<lambda>c. Inr (VInt (int c)))"

text \<open>One walk over the text: \<open>n\<close> code points and \<open>b\<close> bytes are behind it.\<close>

function char_walk :: "nat \<Rightarrow> nat \<Rightarrow> nat \<Rightarrow> nat \<Rightarrow> nat option \<Rightarrow> rstring \<Rightarrow> nat option \<times> nat" where
  "char_walk start stop n b sb s =
     (case utf8_next s of
        None \<Rightarrow> (if n = start then Some b else sb, b)
      | Some (_, r) \<Rightarrow>
          let sb = (if n = start then Some b else sb) in
          if n = stop then (sb, b) else char_walk start stop (Suc n) (b + (length s - length r)) sb r)"
  by pat_completeness auto
termination
  by (relation "measure (\<lambda>(start, stop, n, b, sb, s). length s)") (auto dest: utf8_next_shorter)

declare char_walk.simps [simp del]

definition char_bytes :: "rstring \<Rightarrow> nat \<Rightarrow> nat \<Rightarrow> nat option \<times> nat" where
  "char_bytes s start stop = char_walk start stop 0 0 None s"

definition str_slice :: "rstring \<Rightarrow> int \<Rightarrow> int \<Rightarrow> 'x val rt" where
  "str_slice s start stop =
     (case char_bytes s (as_usize start) (as_usize stop) of
        (Some sb, eb) \<Rightarrow> if sb \<le> eb then Inr (VStr (take (eb - sb) (drop sb s))) else Inl (OutOfRange ''str_slice'')
      | (None, eb) \<Rightarrow> Inl (OutOfRange ''str_slice''))"

fun find_bytes :: "rstring \<Rightarrow> rstring \<Rightarrow> nat option" where
  "find_bytes p [] = (if p = [] then Some 0 else None)"
| "find_bytes p (a # s) = (if take (length p) (a # s) = p then Some 0 else map_option Suc (find_bytes p s))"

definition str_find_from :: "rstring \<Rightarrow> rstring \<Rightarrow> int \<Rightarrow> 'x val" where
  "str_find_from hay needle from =
     (if from < 0 then VInt (- 1)
      else case fst (char_bytes hay (as_usize from) (as_usize from)) of
        None \<Rightarrow> VInt (- 1)
      | Some fb \<Rightarrow>
          (case find_bytes needle (drop fb hay) of
             None \<Rightarrow> VInt (- 1)
           | Some p \<Rightarrow> VInt (from + int (length (chars (take p (drop fb hay)))))))"

definition starts_with :: "rstring \<Rightarrow> rstring \<Rightarrow> bool" where
  "starts_with s p \<longleftrightarrow> take (length p) s = p"

definition str_starts_with_at :: "rstring \<Rightarrow> rstring \<Rightarrow> int \<Rightarrow> 'x val" where
  "str_starts_with_at hay needle pos =
     (if pos < 0 then VBool False
      else VBool (case fst (char_bytes hay (as_usize pos) (as_usize pos)) of
        Some pb \<Rightarrow> starts_with (drop pb hay) needle | None \<Rightarrow> False))"

function split_loop :: "rstring \<Rightarrow> rstring \<Rightarrow> rstring list" where
  "split_loop d s =
     (if d = [] then []
      else case find_bytes d s of None \<Rightarrow> [s] | Some i \<Rightarrow> take i s # split_loop d (drop (i + length d) s))"
  by pat_completeness auto
termination
proof (relation "measure (\<lambda>(d, s). length s)")
  fix d s :: rstring and i
  assume d: "d \<noteq> []" "find_bytes d s = Some i"
  have "s \<noteq> []" using d by auto
  then show "((d, drop (i + length d) s), d, s) \<in> measure (\<lambda>(d, s). length s)" using d(1) by (cases s; cases d) auto
qed simp

declare split_loop.simps [simp del]

text \<open>An empty delimiter splits at every character, with an empty text before and after.\<close>

definition split_str :: "rstring \<Rightarrow> rstring \<Rightarrow> rstring list" where
  "split_str d s = (if d = [] then [] # map utf8_encode1 (chars s) @ [[]] else split_loop d s)"

definition str_split :: "rstring \<Rightarrow> rstring \<Rightarrow> 'x val" where
  "str_split s d = VList (map VStr (split_str d s))"

definition str_starts_with :: "rstring \<Rightarrow> rstring \<Rightarrow> 'x val" where
  "str_starts_with hay p = VBool (starts_with hay p)"

definition str_ends_with :: "rstring \<Rightarrow> rstring \<Rightarrow> 'x val" where
  "str_ends_with hay q = VBool (length q \<le> length hay \<and> drop (length hay - length q) hay = q)"

definition str_trim :: "rstring \<Rightarrow> 'x val" where
  "str_trim s = VStr (utf8_encode (trim (chars s)))"

definition str_contains :: "rstring \<Rightarrow> rstring \<Rightarrow> 'x val" where
  "str_contains hay p = VBool (find_bytes p hay \<noteq> None)"

definition str_eq :: "rstring \<Rightarrow> rstring \<Rightarrow> 'x val" where
  "str_eq a b = VBool (a = b)"

definition str_index_of :: "rstring \<Rightarrow> rstring \<Rightarrow> 'x val" where
  "str_index_of hay p =
     (case find_bytes p hay of None \<Rightarrow> VInt (- 1) | Some i \<Rightarrow> VInt (int (length (chars (take i hay)))))"

text \<open>\<open>split_once\<close> at a text.\<close>

definition split_once_str :: "rstring \<Rightarrow> rstring \<Rightarrow> (rstring \<times> rstring) option" where
  "split_once_str d s = (case find_bytes d s of None \<Rightarrow> None | Some i \<Rightarrow> Some (take i s, drop (i + length d) s))"

definition str_before :: "rstring \<Rightarrow> rstring \<Rightarrow> 'x val" where
  "str_before s d = VStr (case split_once_str d s of Some (a, _) \<Rightarrow> a | None \<Rightarrow> s)"

definition str_after :: "rstring \<Rightarrow> rstring \<Rightarrow> 'x val" where
  "str_after s d = VStr (case split_once_str d s of Some (_, b) \<Rightarrow> b | None \<Rightarrow> [])"

definition str_between :: "rstring \<Rightarrow> rstring \<Rightarrow> rstring \<Rightarrow> 'x val" where
  "str_between s a b =
     (let rest = (case split_once_str a s of Some (_, r) \<Rightarrow> r | None \<Rightarrow> s) in
      VStr (case split_once_str b rest of Some (x, _) \<Rightarrow> x | None \<Rightarrow> rest))"

definition bool_to_str :: "bool \<Rightarrow> 'x val" where
  "bool_to_str b = VStr (if b then lit ''true'' else lit ''false'')"

text \<open>The low 32 bits as a scalar value, the null character when they are none.\<close>

definition chr :: "int \<Rightarrow> 'x val" where
  "chr n = (let c = nat (n mod 2 ^ 32) in VStr (utf8_encode1 (if is_scalar c then c else 0)))"

definition str_cmp :: "rstring \<Rightarrow> rstring \<Rightarrow> 'x val" where
  "str_cmp a b = VInt (if a = b then 0 else if (a, b) \<in> lexord {(x, y). x < y} then - 1 else 1)"

definition ord :: "rstring \<Rightarrow> 'x val" where
  "ord s = VInt (case chars s of [] \<Rightarrow> - 1 | c # _ \<Rightarrow> int c)"

fun join_texts :: "rstring \<Rightarrow> rstring list \<Rightarrow> rstring" where
  "join_texts sep [] = []"
| "join_texts sep [s] = s"
| "join_texts sep (s # ss) = s @ sep @ join_texts sep ss"

definition str_join :: "'x val \<Rightarrow> rstring \<Rightarrow> 'x val rt" where
  "str_join v sep =
     (case v of VList items \<Rightarrow> bindE (texts ''str_join'' items) (\<lambda>ss. Inr (VStr (join_texts sep ss))) | _ \<Rightarrow> Inl (BadType ''str_join''))"

text \<open>\<open>str::replace\<close> joins the pieces of the split.\<close>

definition str_replace :: "rstring \<Rightarrow> rstring \<Rightarrow> rstring \<Rightarrow> 'x val" where
  "str_replace s a b = VStr (join_texts b (split_str a s))"

definition str_repeat :: "rstring \<Rightarrow> int \<Rightarrow> 'x val" where
  "str_repeat s n = VStr (concat (replicate (if 0 < n then nat n else 0) s))"

fun cycle_take :: "nat \<Rightarrow> 'a list \<Rightarrow> 'a list \<Rightarrow> 'a list" where
  "cycle_take 0 xs ys = []"
| "cycle_take (Suc n) xs [] = (if xs = [] then [] else hd xs # cycle_take n xs (tl xs))"
| "cycle_take (Suc n) xs (y # ys) = y # cycle_take n xs ys"

definition padding :: "rstring \<Rightarrow> int \<Rightarrow> rstring \<Rightarrow> rstring" where
  "padding s width pad =
     (let cur = int (length (chars s)) in
      if width \<le> cur \<or> pad = [] then []
      else utf8_encode (cycle_take (nat (width - cur)) (chars pad) []))"

definition str_pad_left :: "rstring \<Rightarrow> int \<Rightarrow> rstring \<Rightarrow> 'x val" where
  "str_pad_left s width pad = VStr (padding s width pad @ s)"

definition str_pad_right :: "rstring \<Rightarrow> int \<Rightarrow> rstring \<Rightarrow> 'x val" where
  "str_pad_right s width pad = VStr (s @ padding s width pad)"

section \<open>Slices\<close>

lemma chars_encode: "list_all is_scalar cs \<Longrightarrow> chars (utf8_encode cs) = cs"
  using utf8_decode_encode [of cs] by (simp add: chars_def)

lemma utf8_encode_simps [simp]: "utf8_encode [] = []" "utf8_encode (c # cs) = utf8_encode1 c @ utf8_encode cs"
  "utf8_encode (cs @ ds) = utf8_encode cs @ utf8_encode ds"
  by (simp_all add: utf8_encode_def)

text \<open>The walk finds the byte offsets of two code points.\<close>

lemma char_walk_encode:
  assumes "list_all is_scalar cs" "n \<le> stop"
  shows "char_walk start stop n b sb (utf8_encode cs) =
    (if n \<le> start \<and> start \<le> min stop (n + length cs) then Some (b + length (utf8_encode (take (start - n) cs))) else sb,
     b + length (utf8_encode (take (stop - n) cs)))"
  using assms
proof (induction cs arbitrary: n b sb)
  case Nil
  then show ?case by (subst char_walk.simps) auto
next
  case (Cons c cs)
  have next_c: "utf8_next (utf8_encode (c # cs)) = Some (c, utf8_encode cs)"
    using utf8_next_encode1 [of c "utf8_encode cs"] Cons.prems(1) by simp
  have len: "length (utf8_encode (c # cs)) - length (utf8_encode cs) = length (utf8_encode1 c)" by simp
  show ?case
  proof (cases "n = stop")
    case True
    then show ?thesis using next_c by (subst char_walk.simps) (auto simp: Let_def)
  next
    case False
    then have n: "Suc n \<le> stop" using Cons.prems(2) by simp
    have t: "take (k - n) (c # cs) = c # take (k - Suc n) cs" if "n < k" for k
    proof -
      have "k - n = Suc (k - Suc n)" using that by simp
      then show ?thesis by (simp only: take_Suc_Cons)
    qed
    show ?thesis
      using next_c False Cons.IH [of "Suc n"] Cons.prems(1) n t [of stop] t [of start]
      by (subst char_walk.simps) (auto simp: Let_def len simp del: utf8_encode_simps(2), auto)
  qed
qed

lemma as_usize_id: "0 \<le> i \<Longrightarrow> i < 2 ^ 63 \<Longrightarrow> as_usize i = nat i"
  by (simp add: as_usize_def)

text \<open>A slice by byte offsets is the slice of the code points, and refused exactly when its start is beyond its end.\<close>

lemma str_slice_code_points:
  assumes cs: "list_all is_scalar cs" and a: "0 \<le> a" "a < 2 ^ 63" and b: "0 \<le> b" "b < 2 ^ 63"
  shows "(str_slice (utf8_encode cs) a b :: 'x val rt) =
    (if nat a \<le> min (nat b) (length cs) then Inr (VStr (utf8_encode (drop (nat a) (take (nat b) cs)))) else Inl (OutOfRange ''str_slice''))"
proof (cases "nat a \<le> min (nat b) (length cs)")
  case False
  then show ?thesis
    by (auto simp: str_slice_def char_bytes_def char_walk_encode [OF cs] as_usize_id [OF a] as_usize_id [OF b])
next
  case True
  let ?x = "utf8_encode (take (nat a) cs)" and ?y = "utf8_encode (drop (nat a) (take (nat b) cs))"
  have "take (nat b) cs = take (nat a) cs @ drop (nat a) (take (nat b) cs)"
    using True append_take_drop_id [of "nat a" "take (nat b) cs"] by (auto simp: min_def split: if_splits)
  then have xy: "utf8_encode (take (nat b) cs) = ?x @ ?y" by (metis utf8_encode_simps(3))
  have "utf8_encode cs = utf8_encode (take (nat b) cs) @ utf8_encode (drop (nat b) cs)"
    by (metis append_take_drop_id utf8_encode_simps(3))
  then have "take (length ?y) (drop (length ?x) (utf8_encode cs)) = ?y" by (simp add: xy)
  then show ?thesis using True
    by (simp add: str_slice_def char_bytes_def char_walk_encode [OF cs] as_usize_id [OF a] as_usize_id [OF b] xy)
qed

end
