(* ===== verification/Frames.thy ===== *)
theory Frames
  imports RtStr
begin

text \<open>
  The durable record formats: the hash-checked frames of the write-ahead log and of sealed blocks
  (\<open>parse_frames_from_bytes\<close> of \<open>src/src/runtime/walindex.rs\<close>, the one parser all indexes share), the completeness trailer of
  a block file (\<open>src/src/runtime/blockfile.rs\<close>) and the raw frames of \<open>src/src/runtime/rawblk.rs\<close>. The parsers call a
  visitor for each frame; here they return the frames in the order of the visits. SHA-256 is a parameter.
\<close>

section \<open>Numbers of fixed width\<close>

text \<open>\<open>format!("{:0width$}", n)\<close>\<close>

definition pad :: "nat \<Rightarrow> nat \<Rightarrow> rstring" where
  "pad n width = replicate (width - length (nat_text n)) 48 @ nat_text n"

text \<open>\<open>str::trim\<close> on bytes.\<close>

definition trim_text :: "rstring \<Rightarrow> rstring" where
  "trim_text s = utf8_encode (trim (chars s))"

section \<open>Hash-checked frames\<close>

definition sha256_hex :: "(bytes \<Rightarrow> hash256) \<Rightarrow> bytes \<Rightarrow> rstring" where
  "sha256_hex sha p = hash256_to_hex (sha p)"

record wal_frame =
  fr_off :: nat
  fr_env :: bytes
  fr_payload :: bytes
  fr_hash :: rstring

definition wal_frame_bytes :: "(bytes \<Rightarrow> hash256) \<Rightarrow> bytes \<Rightarrow> bytes \<Rightarrow> bytes" where
  "wal_frame_bytes sha env p = sha256_hex sha p @ pad (length p) 10 @ pad (length env) 10 @ env @ p"

text \<open>One frame at \<open>off\<close>, where a header fits; \<open>None\<close> is a torn or invalid one.\<close>

definition frame_at :: "(bytes \<Rightarrow> hash256) \<Rightarrow> bytes \<Rightarrow> nat \<Rightarrow> wal_frame option" where
  "frame_at sha dat off =
     (let hexh = take 64 (drop off dat);
          plenf = take 10 (drop (off + 64) dat);
          vlenf = take 10 (drop (off + 74) dat) in
      if \<not> utf8_valid hexh \<or> \<not> utf8_valid plenf \<or> \<not> utf8_valid vlenf then None
      else case parse_usize (trim_text plenf) of
        None \<Rightarrow> None
      | Some plen \<Rightarrow>
          (case parse_usize (trim_text vlenf) of
             None \<Rightarrow> None
           | Some vlen \<Rightarrow>
               if length dat < off + 84 + vlen + plen then None
               else
                 let env = take vlen (drop (off + 84) dat);
                     payload = take plen (drop (off + 84 + vlen) dat) in
                 if sha256_hex sha payload \<noteq> hexh then None
                 else Some \<lparr>fr_off = off + 84 + vlen, fr_env = env, fr_payload = payload, fr_hash = hexh\<rparr>))"

definition frame_end :: "wal_frame \<Rightarrow> nat" where
  "frame_end f = fr_off f + length (fr_payload f)"

lemma frame_at_end: "frame_at sha dat off = Some f \<Longrightarrow> off + 84 \<le> frame_end f \<and> frame_end f \<le> length dat"
  by (auto simp: frame_at_def Let_def frame_end_def split: if_splits option.splits)

text \<open>The frames from \<open>off\<close> on, where the walk ends and whether at a torn frame.\<close>

function parse_frames_from_bytes :: "(bytes \<Rightarrow> hash256) \<Rightarrow> bytes \<Rightarrow> nat \<Rightarrow> wal_frame list \<times> nat \<times> bool" where
  "parse_frames_from_bytes sha dat off =
     (if off + 84 \<le> length dat then
        (case frame_at sha dat off of
           None \<Rightarrow> ([], off, True)
         | Some f \<Rightarrow> (let (fs, e, torn) = parse_frames_from_bytes sha dat (frame_end f) in (f # fs, e, torn)))
      else ([], off, False))"
  by pat_completeness auto
termination
  by (relation "measure (\<lambda>(sha, dat, off). length dat - off)") (auto dest: frame_at_end)

declare parse_frames_from_bytes.simps [simp del]

section \<open>Complete block files\<close>

definition BLOCK_MAGIC :: bytes where
  "BLOCK_MAGIC = lit ''AXVBLK1'' @ [10]"

definition BLOCK_LEN_DIGITS :: nat where
  "BLOCK_LEN_DIGITS = 16"

definition BLOCK_TRAILER_LEN :: nat where
  "BLOCK_TRAILER_LEN = 8 + BLOCK_LEN_DIGITS"

definition trailer_for :: "nat \<Rightarrow> bytes" where
  "trailer_for body_len = BLOCK_MAGIC @ pad body_len BLOCK_LEN_DIGITS"

text \<open>\<open>prealloc\<close> is the value of \<open>prealloc_enabled\<close>.\<close>

definition split_complete :: "bool \<Rightarrow> bytes \<Rightarrow> bytes option" where
  "split_complete prealloc dat =
     (let cut = length dat - BLOCK_TRAILER_LEN; body = take cut dat; trailer = drop cut dat in
      if BLOCK_TRAILER_LEN \<le> length dat \<and> take 8 trailer = BLOCK_MAGIC \<and> utf8_valid (drop 8 trailer) \<and>
         parse_usize (trim_text (drop 8 trailer)) = Some (length body)
      then Some body
      else if prealloc then None else Some dat)"

definition body_is_intact :: "nat \<Rightarrow> nat \<Rightarrow> bool \<Rightarrow> bool" where
  "body_is_intact body_len end_off torn \<longleftrightarrow> \<not> torn \<and> end_off = body_len"

section \<open>Raw frames\<close>

definition RAW_MAGIC :: bytes where
  "RAW_MAGIC = lit ''RAWF1''"

definition SENTINEL :: bytes where
  "SENTINEL = lit ''RAWEND''"

definition HDR :: nat where
  "HDR = 5 + 1 + 20 + 10"

definition OVERHEAD :: nat where
  "OVERHEAD = HDR + 6"

definition encode_frame :: "u8 \<Rightarrow> int \<Rightarrow> bytes \<Rightarrow> bytes" where
  "encode_frame kind ts pl = RAW_MAGIC @ [kind] @ pad (nat (max ts 0)) 20 @ pad (length pl) 10 @ pl @ SENTINEL"

text \<open>\<open>dec\<close>: a number without sign, of any length, with checked arithmetic.\<close>

fun dec_loop :: "nat \<Rightarrow> bytes \<Rightarrow> nat option" where
  "dec_loop n [] = Some n"
| "dec_loop n (c # cs) =
     (if c < 48 \<or> 57 < c then None
      else if 2 ^ 64 \<le> n * 10 + unat (c - 48) then None
      else dec_loop (n * 10 + unat (c - 48)) cs)"

definition dec :: "bytes \<Rightarrow> nat option" where
  "dec b = dec_loop 0 b"

text \<open>\<open>v as i64\<close>\<close>

definition as_i64 :: "nat \<Rightarrow> int" where
  "as_i64 n = wrap64 (int n)"

definition raw_frame_at :: "bytes \<Rightarrow> nat \<Rightarrow> (u8 \<times> int \<times> bytes) option" where
  "raw_frame_at dat off =
     (if take 5 (drop off dat) \<noteq> RAW_MAGIC then None
      else case dec (take 20 (drop (off + 6) dat)) of
        None \<Rightarrow> None
      | Some ts \<Rightarrow>
          (case dec (take 10 (drop (off + 26) dat)) of
             None \<Rightarrow> None
           | Some plen \<Rightarrow>
               let e = off + OVERHEAD + plen in
               if 2 ^ 64 \<le> e \<or> length dat < e then None
               else if take 6 (drop (e - 6) dat) \<noteq> SENTINEL then None
               else Some (dat ! (off + 5), as_i64 ts, take plen (drop (off + HDR) dat))))"

lemma raw_frame_at_end:
  "raw_frame_at dat off = Some (k, ts, p) \<Longrightarrow> off + OVERHEAD + length p \<le> length dat"
  by (auto simp: raw_frame_at_def Let_def OVERHEAD_def HDR_def split: if_splits option.splits)

function parse_raw_frames :: "bytes \<Rightarrow> nat \<Rightarrow> (u8 \<times> int \<times> bytes) list" where
  "parse_raw_frames dat off =
     (if off + OVERHEAD \<le> length dat then
        (case raw_frame_at dat off of
           None \<Rightarrow> []
         | Some f \<Rightarrow> f # parse_raw_frames dat (off + OVERHEAD + length (snd (snd f))))
      else [])"
  by pat_completeness auto
termination
  by (relation "measure (\<lambda>(dat, off). length dat - off)") (auto simp: OVERHEAD_def)

declare parse_raw_frames.simps [simp del]

end
