(* ===== verification/WalWalk.thy ===== *)
theory WalWalk
  imports Frames
begin

text \<open>
  The two sources of durable frames (\<open>src/src/runtime/walindex.rs\<close>): the segments \<open><prefix><seq>.log\<close> of the write-ahead log,
  walked forward from a position, and the sealed blocks \<open>block-<seq>.bin\<close> of the hot tier. The files are a function from
  paths to contents. A walk returns the frames it visits, each with the number of its file, and the position to resume
  from; the number of frames the code counts is the length of that list. A walk goes on as long as there is a next file,
  so it is a partial function; \<open>walk_frames_returns\<close> and \<open>walk_hotblk_returns\<close> (theory WalRules) show that it returns on
  every store of finitely many files.
\<close>

type_synonym files = "rstring \<Rightarrow> bytes option"
type_synonym visit = "int \<times> wal_frame"
type_synonym wal_pos = "int \<times> int"

definition segment_path :: "rstring \<Rightarrow> int \<Rightarrow> rstring" where
  "segment_path prefix sq = prefix @ int_dec sq @ lit ''.log''"

definition read_segment :: "files \<Rightarrow> rstring \<Rightarrow> int \<Rightarrow> bytes option" where
  "read_segment fs prefix sq = fs (segment_path prefix sq)"

definition segment_len :: "files \<Rightarrow> rstring \<Rightarrow> int \<Rightarrow> nat option" where
  "segment_len fs prefix sq = map_option length (fs (segment_path prefix sq))"

text \<open>The loop of \<open>walk_frames\<close>; \<open>wm\<close> is the watermark it reports when a segment is gone.\<close>

partial_function (option) walk_loop ::
  "(bytes \<Rightarrow> hash256) \<Rightarrow> files \<Rightarrow> rstring \<Rightarrow> wal_pos \<Rightarrow> int \<Rightarrow> int \<Rightarrow> (visit list \<times> wal_pos) option" where
  "walk_loop sha fs prefix wm cur_seg off =
     (case read_segment fs prefix cur_seg of
        None \<Rightarrow> Some ([], wm)
      | Some dat \<Rightarrow>
          (case parse_frames_from_bytes sha dat (nat off) of
             (frs, off_us, torn) \<Rightarrow>
               if \<not> torn \<and> off_us = length dat \<and> read_segment fs prefix (cur_seg + 1) \<noteq> None
               then Option.bind (walk_loop sha fs prefix wm (cur_seg + 1) 0)
                      (\<lambda>(vs, fr). Some (map (Pair cur_seg) frs @ vs, fr))
               else Some (map (Pair cur_seg) frs, (cur_seg, int off_us))))"

definition walk_frames ::
  "(bytes \<Rightarrow> hash256) \<Rightarrow> rstring \<Rightarrow> files \<Rightarrow> wal_pos \<Rightarrow> (visit list \<times> wal_pos) option" where
  "walk_frames sha prefix fs wm = walk_loop sha fs prefix wm (fst wm) (snd wm)"

definition WAL_DIR :: rstring where
  "WAL_DIR = lit ''.axverity/wal/''"

text \<open>\<open>strip_prefix\<close>, then \<open>strip_suffix('-')\<close>.\<close>

definition hotblk_dir_from_wal_prefix :: "rstring \<Rightarrow> rstring option" where
  "hotblk_dir_from_wal_prefix prefix =
     (if take (length WAL_DIR) prefix \<noteq> WAL_DIR then None
      else let r = drop (length WAL_DIR) prefix in
        if r = [] \<or> List.last r \<noteq> 45 then None
        else if butlast r = [] then None
        else Some (lit ''.axverity/hotblocks/'' @ butlast r))"

definition block_path :: "rstring \<Rightarrow> int \<Rightarrow> rstring" where
  "block_path flush_dir sq = flush_dir @ lit ''/block-'' @ int_dec sq @ lit ''.bin''"

text \<open>One block, and the loop over the blocks.\<close>

partial_function (option) hotblk_loop ::
  "(bytes \<Rightarrow> hash256) \<Rightarrow> bool \<Rightarrow> files \<Rightarrow> rstring \<Rightarrow> int \<Rightarrow> (visit list \<times> int) option" where
  "hotblk_loop sha prealloc fs flush_dir sq =
     (case fs (block_path flush_dir sq) of
        None \<Rightarrow> Some ([], sq)
      | Some dat \<Rightarrow>
          (case split_complete prealloc dat of
             None \<Rightarrow> Some ([], sq)
           | Some body \<Rightarrow>
               (case parse_frames_from_bytes sha body 0 of
                  (frs, end_off, torn) \<Rightarrow>
                    if body_is_intact (length body) end_off torn
                    then Option.bind (hotblk_loop sha prealloc fs flush_dir (sq + 1))
                           (\<lambda>(vs, e). Some (map (Pair sq) frs @ vs, e))
                    else Some (map (Pair sq) frs, sq))))"

definition walk_hotblk_frames ::
  "(bytes \<Rightarrow> hash256) \<Rightarrow> bool \<Rightarrow> rstring \<Rightarrow> files \<Rightarrow> int \<Rightarrow> (visit list \<times> int) option" where
  "walk_hotblk_frames sha prealloc flush_dir fs from_seq = hotblk_loop sha prealloc fs flush_dir (max from_seq 1)"

end
