(* ===== verification/WalIndex.thy ===== *)
theory WalIndex
  imports WalWalk
begin

text \<open>
  The indexes over the durable frames: the content index of \<open>src/src/runtime/walindex.rs\<close> (digest to location, with its
  disposable snapshot and the resident handles), and the primary-key index of \<open>src/src/runtime/pkindex.rs\<close>. Both are
  folds over the frames a walk visits. A hash map is a map; where its order shows (the lines of a snapshot), the order is
  an argument.
\<close>

section \<open>The content index\<close>

type_synonym loc = "int \<times> int \<times> int"

record idx_shard =
  ix_shard :: rstring
  ix_map :: "rstring \<Rightarrow> loc option"
  ix_fseg :: int
  ix_foff :: int
  ix_hb_seq :: int

definition fresh_shard :: "rstring \<Rightarrow> idx_shard" where
  "fresh_shard nm = \<lparr>ix_shard = nm, ix_map = Map.empty, ix_fseg = 0, ix_foff = 0, ix_hb_seq = 1\<rparr>"

definition bump_frontier :: "int \<Rightarrow> int \<Rightarrow> idx_shard \<Rightarrow> idx_shard" where
  "bump_frontier seg e sh =
     (if ix_fseg sh < seg \<or> seg = ix_fseg sh \<and> ix_foff sh < e then sh\<lparr>ix_fseg := seg, ix_foff := e\<rparr> else sh)"

text \<open>The visitors: a frame of the log, and a frame of a block, whose number is stored negated.\<close>

definition wal_visit :: "visit \<Rightarrow> (rstring \<Rightarrow> loc option) \<Rightarrow> (rstring \<Rightarrow> loc option)" where
  "wal_visit v m = m(fr_hash (snd v) \<mapsto> (fst v, int (fr_off (snd v)), int (length (fr_payload (snd v)))))"

definition hotblk_visit :: "visit \<Rightarrow> (rstring \<Rightarrow> loc option) \<Rightarrow> (rstring \<Rightarrow> loc option)" where
  "hotblk_visit v m = m(fr_hash (snd v) \<mapsto> (- fst v, int (fr_off (snd v)), int (length (fr_payload (snd v)))))"

definition scan_hotblk ::
  "(bytes \<Rightarrow> hash256) \<Rightarrow> bool \<Rightarrow> files \<Rightarrow> rstring \<Rightarrow> idx_shard \<Rightarrow> (idx_shard \<times> nat) option" where
  "scan_hotblk sha prealloc fs prefix sh =
     (case hotblk_dir_from_wal_prefix prefix of
        None \<Rightarrow> Some (sh, 0)
      | Some dir \<Rightarrow>
          map_option (\<lambda>(vs, nxt). (sh\<lparr>ix_map := fold hotblk_visit vs (ix_map sh), ix_hb_seq := nxt\<rparr>, length vs))
            (walk_hotblk_frames sha prealloc dir fs (ix_hb_seq sh)))"

text \<open>The part of \<open>do_rebuild\<close> and \<open>do_replay\<close> that replays the log from a position.\<close>

definition replay_wal ::
  "(bytes \<Rightarrow> hash256) \<Rightarrow> files \<Rightarrow> rstring \<Rightarrow> wal_pos \<Rightarrow> idx_shard \<Rightarrow> (idx_shard \<times> nat) option" where
  "replay_wal sha fs prefix wm sh =
     map_option (\<lambda>(vs, fr). (bump_frontier (fst fr) (snd fr) (sh\<lparr>ix_map := fold wal_visit vs (ix_map sh)\<rparr>), length vs))
       (walk_frames sha prefix fs wm)"

subsection \<open>The snapshot\<close>

definition SNAP_MAGIC :: rstring where
  "SNAP_MAGIC = lit ''WALIDX1''"

definition snap_line :: "rstring \<times> loc \<Rightarrow> rstring" where
  "snap_line e = (case e of (k, seg, off, len) \<Rightarrow> k @ [9] @ int_dec seg @ [9] @ int_dec off @ [9] @ int_dec len)"

definition snap_header :: "idx_shard \<Rightarrow> nat \<Rightarrow> rstring" where
  "snap_header sh count = SNAP_MAGIC @ [9] @ int_dec (ix_fseg sh) @ [9] @ int_dec (ix_foff sh) @ [9] @ nat_text count"

text \<open>\<open>es\<close> is the content of the map in the order of its iterator.\<close>

definition snap_body :: "idx_shard \<Rightarrow> (rstring \<times> loc) list \<Rightarrow> bytes" where
  "snap_body sh es = concat (map (\<lambda>l. l @ [10]) (snap_header sh (length es) # map snap_line es))"

definition text_lines :: "rstring \<Rightarrow> rstring list" where
  "text_lines s = map utf8_encode (lines (chars s))"

definition parse_or :: "int \<Rightarrow> rstring \<Rightarrow> int" where
  "parse_or d s = (case parse_i64 s of None \<Rightarrow> d | Some i \<Rightarrow> i)"

definition snap_header_of :: "rstring \<Rightarrow> (wal_pos \<times> nat) option" where
  "snap_header_of hdr =
     (case split_at 9 hdr of
        [magic, a, b, c] \<Rightarrow>
          if magic \<noteq> SNAP_MAGIC then None
          else
            let wm_seg = parse_or (- 1) a; wm_off = parse_or (- 1) b;
                count = (case parse_usize c of None \<Rightarrow> 2 ^ 64 - 1 | Some n \<Rightarrow> n) in
            if wm_seg < 0 \<or> wm_off < 0 \<or> count = 2 ^ 64 - 1 then None else Some ((wm_seg, wm_off), count)
      | _ \<Rightarrow> None)"

definition snap_entry_of :: "rstring \<Rightarrow> (rstring \<times> loc) option" where
  "snap_entry_of l =
     (case split_at 9 l of
        [k, a, b, c] \<Rightarrow>
          let seg = parse_or (- 1) a; off = parse_or (- 1) b; len = parse_or (- 1) c in
          if seg < 0 \<or> off < 0 \<or> len < 0 then None else Some (k, seg, off, len)
      | _ \<Rightarrow> None)"

fun stage :: "rstring list \<Rightarrow> (rstring \<times> loc) list option" where
  "stage [] = Some []"
| "stage (l # ls) =
     (case snap_entry_of l of
        None \<Rightarrow> None
      | Some e \<Rightarrow> map_option (Cons e) (stage ls))"

definition load_snapshot :: "files \<Rightarrow> rstring \<Rightarrow> (rstring \<Rightarrow> loc option) \<Rightarrow> (rstring \<Rightarrow> loc option) \<times> wal_pos" where
  "load_snapshot fs path m =
     (case fs path of
        None \<Rightarrow> (m, (0, 0))
      | Some content \<Rightarrow>
          if \<not> utf8_valid content then (m, (0, 0))
          else case text_lines content of
            [] \<Rightarrow> (m, (0, 0))
          | hdr # ls \<Rightarrow>
              (case snap_header_of hdr of
                 None \<Rightarrow> (m, (0, 0))
               | Some (wm, count) \<Rightarrow>
                   (case stage ls of
                      None \<Rightarrow> (m, (0, 0))
                    | Some es \<Rightarrow>
                        if length es \<noteq> count then (m, (0, 0))
                        else (fold (\<lambda>(k, l) m. m(k \<mapsto> l)) es m, wm))))"

subsection \<open>Rebuild and replay\<close>

definition do_rebuild ::
  "(bytes \<Rightarrow> hash256) \<Rightarrow> bool \<Rightarrow> files \<Rightarrow> rstring \<Rightarrow> rstring \<Rightarrow> idx_shard \<Rightarrow> (idx_shard \<times> nat) option" where
  "do_rebuild sha prealloc fs prefix snap_path sh =
     (let (m, wm) = load_snapshot fs snap_path (ix_map sh);
          sh = bump_frontier (fst wm) (snd wm) (sh\<lparr>ix_map := m\<rparr>) in
      Option.bind (replay_wal sha fs prefix wm sh) (\<lambda>(sh, n).
      Option.bind (scan_hotblk sha prealloc fs prefix sh) (\<lambda>(sh, k). Some (sh, n + k))))"

definition wal_has_delta :: "files \<Rightarrow> rstring \<Rightarrow> wal_pos \<Rightarrow> bool" where
  "wal_has_delta fs prefix from =
     (let has_next = segment_len fs prefix (fst from + 1) \<noteq> None in
      case segment_len fs prefix (fst from) of
        Some len \<Rightarrow> \<not> (int len \<le> snd from \<and> \<not> has_next)
      | None \<Rightarrow> has_next)"

definition do_replay ::
  "(bytes \<Rightarrow> hash256) \<Rightarrow> bool \<Rightarrow> files \<Rightarrow> rstring \<Rightarrow> idx_shard \<Rightarrow> (idx_shard \<times> nat) option" where
  "do_replay sha prealloc fs prefix sh =
     (let from = (ix_fseg sh, ix_foff sh) in
      Option.bind (if wal_has_delta fs prefix from then replay_wal sha fs prefix from sh else Some (sh, 0)) (\<lambda>(sh, n).
      Option.bind (scan_hotblk sha prealloc fs prefix sh) (\<lambda>(sh, k). Some (sh, n + k))))"

section \<open>Handles\<close>

text \<open>The tables of one thread. A panic for a handle that is not there is a value of the error type.\<close>

record walidx =
  wx_idx :: "int \<Rightarrow> idx_shard option"
  wx_next :: int
  wx_resident :: "rstring \<Rightarrow> int option"

datatype walidx_error = UnknownHandle string int | ResidentVanished int

definition walidx_init :: walidx where
  "walidx_init = \<lparr>wx_idx = Map.empty, wx_next = 1, wx_resident = Map.empty\<rparr>"

definition next_handle :: "walidx \<Rightarrow> int \<times> walidx" where
  "next_handle t = (wx_next t, t\<lparr>wx_next := wx_next t + 1\<rparr>)"

definition walidx_open :: "rstring \<Rightarrow> walidx \<Rightarrow> int \<times> walidx" where
  "walidx_open shard t =
     (let (h, t) = next_handle t in (h, t\<lparr>wx_idx := (wx_idx t)(h \<mapsto> fresh_shard shard)\<rparr>))"

definition walidx_insert ::
  "int \<Rightarrow> rstring \<Rightarrow> int \<Rightarrow> int \<Rightarrow> int \<Rightarrow> walidx \<Rightarrow> walidx_error + walidx" where
  "walidx_insert h key seg off len t =
     (case wx_idx t h of
        None \<Rightarrow> Inl (UnknownHandle ''walidx_insert'' h)
      | Some sh \<Rightarrow>
          Inr (t\<lparr>wx_idx := (wx_idx t)(h \<mapsto>
            bump_frontier seg (wrap64 (off + len)) (sh\<lparr>ix_map := (ix_map sh)(key \<mapsto> (seg, off, len))\<rparr>))\<rparr>))"

definition walidx_has :: "int \<Rightarrow> rstring \<Rightarrow> walidx \<Rightarrow> walidx_error + bool" where
  "walidx_has h key t =
     (case wx_idx t h of None \<Rightarrow> Inl (UnknownHandle ''walidx_has'' h) | Some sh \<Rightarrow> Inr (ix_map sh key \<noteq> None))"

definition loc_text :: "loc option \<Rightarrow> rstring" where
  "loc_text l = (case l of Some (seg, off, len) \<Rightarrow> int_dec seg @ [9] @ int_dec off @ [9] @ int_dec len | None \<Rightarrow> [])"

definition walidx_get :: "int \<Rightarrow> rstring \<Rightarrow> walidx \<Rightarrow> walidx_error + rstring" where
  "walidx_get h key t =
     (case wx_idx t h of None \<Rightarrow> Inl (UnknownHandle ''walidx_get'' h) | Some sh \<Rightarrow> Inr (loc_text (ix_map sh key)))"

text \<open>\<open>write_durable\<close> replaces the file in one step.\<close>

definition write_durable :: "rstring \<Rightarrow> bytes \<Rightarrow> files \<Rightarrow> files" where
  "write_durable path b fs = fs(path \<mapsto> b)"

definition walidx_snapshot ::
  "int \<Rightarrow> rstring \<Rightarrow> (rstring \<times> loc) list \<Rightarrow> walidx \<Rightarrow> files \<Rightarrow> walidx_error + files" where
  "walidx_snapshot h path es t fs =
     (case wx_idx t h of
        None \<Rightarrow> Inl (UnknownHandle ''walidx_snapshot'' h)
      | Some sh \<Rightarrow> Inr (write_durable path (snap_body sh es) fs))"

definition walidx_rebuild ::
  "(bytes \<Rightarrow> hash256) \<Rightarrow> bool \<Rightarrow> files \<Rightarrow> int \<Rightarrow> rstring \<Rightarrow> rstring \<Rightarrow> walidx \<Rightarrow> (walidx_error + walidx \<times> nat) option" where
  "walidx_rebuild sha prealloc fs h prefix snap t =
     (case wx_idx t h of
        None \<Rightarrow> Some (Inl (UnknownHandle ''walidx_rebuild'' h))
      | Some sh \<Rightarrow>
          map_option (\<lambda>(sh, n). Inr (t\<lparr>wx_idx := (wx_idx t)(h \<mapsto> sh)\<rparr>, n)) (do_rebuild sha prealloc fs prefix snap sh))"

definition walidx_replay ::
  "(bytes \<Rightarrow> hash256) \<Rightarrow> bool \<Rightarrow> files \<Rightarrow> int \<Rightarrow> rstring \<Rightarrow> walidx \<Rightarrow> (walidx_error + walidx \<times> nat) option" where
  "walidx_replay sha prealloc fs h prefix t =
     (case wx_idx t h of
        None \<Rightarrow> Some (Inl (UnknownHandle ''walidx_replay'' h))
      | Some sh \<Rightarrow>
          map_option (\<lambda>(sh, n). Inr (t\<lparr>wx_idx := (wx_idx t)(h \<mapsto> sh)\<rparr>, n)) (do_replay sha prealloc fs prefix sh))"

definition walidx_res_get ::
  "(bytes \<Rightarrow> hash256) \<Rightarrow> bool \<Rightarrow> files \<Rightarrow> rstring \<Rightarrow> rstring \<Rightarrow> rstring \<Rightarrow> rstring \<Rightarrow> walidx \<Rightarrow>
   (walidx_error + walidx \<times> rstring) option" where
  "walidx_res_get sha prealloc fs shard prefix snap key t =
     (let (h, t') = (case wx_resident t shard of
            Some h \<Rightarrow> (h, t)
          | None \<Rightarrow>
              let (h, t) = next_handle t in
              (h, t\<lparr>wx_idx := (wx_idx t)(h \<mapsto> fresh_shard shard), wx_resident := (wx_resident t)(shard \<mapsto> h)\<rparr>)) in
      case wx_idx t' h of
        None \<Rightarrow> Some (Inl (ResidentVanished h))
      | Some sh \<Rightarrow>
          map_option (\<lambda>(sh, n). Inr (t'\<lparr>wx_idx := (wx_idx t')(h \<mapsto> sh)\<rparr>, loc_text (ix_map sh key)))
            (if wx_resident t shard = None then do_rebuild sha prealloc fs prefix snap sh
             else do_replay sha prealloc fs prefix sh))"

definition residency_mode :: rstring where
  "residency_mode = lit ''query''"

definition walidx_res_scope :: "rstring \<Rightarrow> walidx \<Rightarrow> walidx" where
  "walidx_res_scope which t =
     (if residency_mode = which
      then t\<lparr>wx_idx := (wx_idx t) |` (- ran (wx_resident t)), wx_resident := Map.empty\<rparr>
      else t)"

section \<open>The primary-key index\<close>

definition env_to_name :: "bytes \<Rightarrow> rstring option" where
  "env_to_name env =
     (if env = [] then None
      else if \<not> utf8_valid env then None
      else case split_at 9 env of
        tab # rest \<Rightarrow>
          if tab = lit ''FACT'' \<or> tab = lit ''CONTRADICTS'' then None
          else (case rest of _ # pk # _ \<Rightarrow> Some (tab @ [58] @ pk) | _ \<Rightarrow> None)
      | [] \<Rightarrow> None)"

definition pk_visit :: "visit \<Rightarrow> (rstring \<Rightarrow> rstring option) \<Rightarrow> (rstring \<Rightarrow> rstring option)" where
  "pk_visit v m =
     (case env_to_name (fr_env (snd v)) of
        None \<Rightarrow> m
      | Some nm \<Rightarrow> m(nm \<mapsto> lit ''sha256:'' @ fr_hash (snd v)))"

record pk_shard =
  pk_name :: rstring
  pk_map :: "rstring \<Rightarrow> rstring option"

record pkidx =
  px_idx :: "int \<Rightarrow> pk_shard option"
  px_next :: int

definition pkidx_open :: "rstring \<Rightarrow> pkidx \<Rightarrow> int \<times> pkidx" where
  "pkidx_open shard t =
     (px_next t, t\<lparr>px_idx := (px_idx t)(px_next t \<mapsto> \<lparr>pk_name = shard, pk_map = Map.empty\<rparr>), px_next := px_next t + 1\<rparr>)"

definition pkidx_has :: "int \<Rightarrow> rstring \<Rightarrow> pkidx \<Rightarrow> walidx_error + bool" where
  "pkidx_has h nm t =
     (case px_idx t h of None \<Rightarrow> Inl (UnknownHandle ''pkidx_has'' h) | Some sh \<Rightarrow> Inr (pk_map sh nm \<noteq> None))"

definition pkidx_get :: "int \<Rightarrow> rstring \<Rightarrow> pkidx \<Rightarrow> walidx_error + rstring" where
  "pkidx_get h nm t =
     (case px_idx t h of
        None \<Rightarrow> Inl (UnknownHandle ''pkidx_get'' h)
      | Some sh \<Rightarrow> Inr (case pk_map sh nm of Some a \<Rightarrow> a | None \<Rightarrow> []))"

definition pkidx_rebuild ::
  "(bytes \<Rightarrow> hash256) \<Rightarrow> files \<Rightarrow> int \<Rightarrow> rstring \<Rightarrow> pkidx \<Rightarrow> (walidx_error + pkidx \<times> nat) option" where
  "pkidx_rebuild sha fs h prefix t =
     (case px_idx t h of
        None \<Rightarrow> Some (Inl (UnknownHandle ''pkidx_rebuild'' h))
      | Some sh \<Rightarrow>
          map_option (\<lambda>(vs, fr).
              Inr (t\<lparr>px_idx := (px_idx t)(h \<mapsto> sh\<lparr>pk_map := fold pk_visit vs (pk_map sh)\<rparr>)\<rparr>, length vs))
            (walk_frames sha prefix fs (0, 0)))"

end
