(* ===== verification/FieldIndex.thy ===== *)
theory FieldIndex
  imports WalIndex
begin

text \<open>
  The field index of \<open>src/src/runtime/fieldidx.rs\<close>: for every field and value the digests of the records that have it, in
  the order in which they were appended. It reads the same frames as the content index, through the same walks.
\<close>

type_synonym postings = "rstring \<Rightarrow> rstring list option"

record field_shard =
  fx_map :: postings
  fx_fseg :: int
  fx_foff :: int
  fx_hb_seq :: int

definition fresh_field_shard :: field_shard where
  "fresh_field_shard = \<lparr>fx_map = Map.empty, fx_fseg = 0, fx_foff = 0, fx_hb_seq = 1\<rparr>"

definition field_bump_frontier :: "int \<Rightarrow> int \<Rightarrow> field_shard \<Rightarrow> field_shard" where
  "field_bump_frontier seg e sh =
     (if fx_fseg sh < seg \<or> seg = fx_fseg sh \<and> fx_foff sh < e then sh\<lparr>fx_fseg := seg, fx_foff := e\<rparr> else sh)"

definition push_dedup :: "rstring list \<Rightarrow> rstring \<Rightarrow> rstring list" where
  "push_dedup l h = (if h \<in> set l then l else l @ [h])"

text \<open>\<open>push_dedup(map.entry(key).or_default(), hash)\<close>\<close>

definition add_posting :: "rstring \<Rightarrow> rstring \<Rightarrow> postings \<Rightarrow> postings" where
  "add_posting key h m = m(key \<mapsto> push_dedup (case m key of Some l \<Rightarrow> l | None \<Rightarrow> []) h)"

section \<open>What a payload declares\<close>

fun index_cells :: "rstring \<Rightarrow> rstring list \<Rightarrow> postings \<Rightarrow> postings" where
  "index_cells addr [] m = m"
| "index_cells addr (cell # cells) m =
     index_cells addr cells
       (case cut_at 61 cell of
          Some (f, v) \<Rightarrow> add_posting (f @ [9] @ v) addr m
        | None \<Rightarrow> m)"

definition index_payload :: "rstring \<Rightarrow> rstring \<Rightarrow> postings \<Rightarrow> postings" where
  "index_payload txt own_hash m =
     (case split_at 9 txt of
        kind # cells \<Rightarrow>
          if kind = lit ''RECORD'' then index_cells (lit ''sha256:'' @ own_hash) cells m
          else if kind = lit ''FIELDIDX'' then
            (case cells of [f, v, h] \<Rightarrow> add_posting (f @ [9] @ v) h m | _ \<Rightarrow> m)
          else m
      | [] \<Rightarrow> m)"

definition field_visit :: "visit \<Rightarrow> postings \<Rightarrow> postings" where
  "field_visit v m =
     (if utf8_valid (fr_payload (snd v)) then index_payload (fr_payload (snd v)) (fr_hash (snd v)) m else m)"

section \<open>The snapshot\<close>

definition FIELD_MAGIC :: rstring where
  "FIELD_MAGIC = lit ''FIELDIDX1''"

text \<open>\<open>es\<close> is the content of the map in the order of its iterator.\<close>

definition field_snap_body :: "field_shard \<Rightarrow> (rstring \<times> rstring list) list \<Rightarrow> bytes" where
  "field_snap_body sh es =
     FIELD_MAGIC @ [9] @ int_dec (fx_fseg sh) @ [9] @ int_dec (fx_foff sh) @ [9] @ nat_text (sum_list (map (length \<circ> snd) es)) @ [10] @
     concat (map (\<lambda>(k, hs). concat (map (\<lambda>h. k @ [9] @ h @ [10]) hs)) es)"

text \<open>\<open>rsplitn(2, '\t')\<close>: cut at the last tab.\<close>

definition cut_last_tab :: "rstring \<Rightarrow> (rstring \<times> rstring) option" where
  "cut_last_tab l = map_option (\<lambda>(a, b). (rev b, rev a)) (cut_at 9 (rev l))"

definition field_header_of :: "rstring \<Rightarrow> (wal_pos \<times> nat) option" where
  "field_header_of hdr =
     (case split_at 9 hdr of
        [magic, a, b, c] \<Rightarrow>
          if magic \<noteq> FIELD_MAGIC then None
          else
            let wm_seg = parse_or (- 1) a; wm_off = parse_or (- 1) b;
                count = (case parse_usize c of None \<Rightarrow> 2 ^ 64 - 1 | Some n \<Rightarrow> n) in
            if wm_seg < 0 \<or> wm_off < 0 \<or> count = 2 ^ 64 - 1 then None else Some ((wm_seg, wm_off), count)
      | _ \<Rightarrow> None)"

fun field_stage :: "rstring list \<Rightarrow> (rstring \<times> rstring) list option" where
  "field_stage [] = Some []"
| "field_stage (l # ls) = (case cut_last_tab l of None \<Rightarrow> None | Some e \<Rightarrow> map_option (Cons e) (field_stage ls))"

definition field_load_snapshot :: "files \<Rightarrow> rstring \<Rightarrow> postings \<Rightarrow> postings \<times> wal_pos" where
  "field_load_snapshot fs path m =
     (case fs path of
        None \<Rightarrow> (m, (0, 0))
      | Some content \<Rightarrow>
          if \<not> utf8_valid content then (m, (0, 0))
          else case text_lines content of
            [] \<Rightarrow> (m, (0, 0))
          | hdr # ls \<Rightarrow>
              (case field_header_of hdr of
                 None \<Rightarrow> (m, (0, 0))
               | Some (wm, count) \<Rightarrow>
                   (case field_stage ls of
                      None \<Rightarrow> (m, (0, 0))
                    | Some es \<Rightarrow>
                        if length es \<noteq> count then (m, (0, 0))
                        else (fold (\<lambda>(k, h). add_posting k h) es m, wm))))"

section \<open>Rebuild and replay\<close>

definition field_scan_hotblk ::
  "(bytes \<Rightarrow> hash256) \<Rightarrow> bool \<Rightarrow> files \<Rightarrow> rstring \<Rightarrow> field_shard \<Rightarrow> (field_shard \<times> nat) option" where
  "field_scan_hotblk sha prealloc fs prefix sh =
     (case hotblk_dir_from_wal_prefix prefix of
        None \<Rightarrow> Some (sh, 0)
      | Some dir \<Rightarrow>
          map_option (\<lambda>(vs, nxt). (sh\<lparr>fx_map := fold field_visit vs (fx_map sh), fx_hb_seq := nxt\<rparr>, length vs))
            (walk_hotblk_frames sha prealloc dir fs (fx_hb_seq sh)))"

definition field_replay_wal ::
  "(bytes \<Rightarrow> hash256) \<Rightarrow> files \<Rightarrow> rstring \<Rightarrow> wal_pos \<Rightarrow> field_shard \<Rightarrow> (field_shard \<times> nat) option" where
  "field_replay_wal sha fs prefix wm sh =
     map_option (\<lambda>(vs, fr).
         (field_bump_frontier (fst fr) (snd fr) (sh\<lparr>fx_map := fold field_visit vs (fx_map sh)\<rparr>), length vs))
       (walk_frames sha prefix fs wm)"

definition field_do_rebuild ::
  "(bytes \<Rightarrow> hash256) \<Rightarrow> bool \<Rightarrow> files \<Rightarrow> rstring \<Rightarrow> rstring \<Rightarrow> field_shard \<Rightarrow> (field_shard \<times> nat) option" where
  "field_do_rebuild sha prealloc fs prefix snap_path sh =
     (let (m, wm) = field_load_snapshot fs snap_path (fx_map sh);
          sh = field_bump_frontier (fst wm) (snd wm) (sh\<lparr>fx_map := m\<rparr>) in
      Option.bind (field_replay_wal sha fs prefix wm sh) (\<lambda>(sh, n).
      Option.bind (field_scan_hotblk sha prealloc fs prefix sh) (\<lambda>(sh, k). Some (sh, n + k))))"

definition field_do_replay ::
  "(bytes \<Rightarrow> hash256) \<Rightarrow> bool \<Rightarrow> files \<Rightarrow> rstring \<Rightarrow> field_shard \<Rightarrow> (field_shard \<times> nat) option" where
  "field_do_replay sha prealloc fs prefix sh =
     (let from = (fx_fseg sh, fx_foff sh) in
      Option.bind (if wal_has_delta fs prefix from then field_replay_wal sha fs prefix from sh else Some (sh, 0)) (\<lambda>(sh, n).
      Option.bind (field_scan_hotblk sha prealloc fs prefix sh) (\<lambda>(sh, k). Some (sh, n + k))))"

section \<open>Handles\<close>

record fieldidx =
  fd_idx :: "int \<Rightarrow> field_shard option"
  fd_next :: int
  fd_resident :: "rstring \<Rightarrow> int option"

definition fieldidx_open :: "fieldidx \<Rightarrow> int \<times> fieldidx" where
  "fieldidx_open t = (fd_next t, t\<lparr>fd_idx := (fd_idx t)(fd_next t \<mapsto> fresh_field_shard), fd_next := fd_next t + 1\<rparr>)"

definition fieldidx_insert :: "int \<Rightarrow> rstring \<Rightarrow> rstring \<Rightarrow> rstring \<Rightarrow> fieldidx \<Rightarrow> walidx_error + fieldidx" where
  "fieldidx_insert h f v hash t =
     (case fd_idx t h of
        None \<Rightarrow> Inl (UnknownHandle ''fieldidx_insert'' h)
      | Some sh \<Rightarrow>
          Inr (t\<lparr>fd_idx := (fd_idx t)(h \<mapsto> sh\<lparr>fx_map := add_posting (f @ [9] @ v) hash (fx_map sh)\<rparr>)\<rparr>))"

definition postings_text :: "rstring list option \<Rightarrow> rstring" where
  "postings_text l = (case l of Some hs \<Rightarrow> join_texts [10] hs | None \<Rightarrow> [])"

definition fieldidx_get :: "int \<Rightarrow> rstring \<Rightarrow> rstring \<Rightarrow> fieldidx \<Rightarrow> walidx_error + rstring" where
  "fieldidx_get h f v t =
     (case fd_idx t h of
        None \<Rightarrow> Inl (UnknownHandle ''fieldidx_get'' h)
      | Some sh \<Rightarrow> Inr (postings_text (fx_map sh (f @ [9] @ v))))"

definition fieldidx_snapshot ::
  "int \<Rightarrow> rstring \<Rightarrow> (rstring \<times> rstring list) list \<Rightarrow> fieldidx \<Rightarrow> files \<Rightarrow> walidx_error + files" where
  "fieldidx_snapshot h path es t fs =
     (case fd_idx t h of
        None \<Rightarrow> Inl (UnknownHandle ''fieldidx_snapshot'' h)
      | Some sh \<Rightarrow> Inr (write_durable path (field_snap_body sh es) fs))"

definition fieldidx_rebuild ::
  "(bytes \<Rightarrow> hash256) \<Rightarrow> bool \<Rightarrow> files \<Rightarrow> int \<Rightarrow> rstring \<Rightarrow> rstring \<Rightarrow> fieldidx \<Rightarrow> (walidx_error + fieldidx \<times> nat) option" where
  "fieldidx_rebuild sha prealloc fs h prefix snap t =
     (case fd_idx t h of
        None \<Rightarrow> Some (Inl (UnknownHandle ''fieldidx_rebuild'' h))
      | Some sh \<Rightarrow>
          map_option (\<lambda>(sh, n). Inr (t\<lparr>fd_idx := (fd_idx t)(h \<mapsto> sh)\<rparr>, n)) (field_do_rebuild sha prealloc fs prefix snap sh))"

definition fieldidx_replay ::
  "(bytes \<Rightarrow> hash256) \<Rightarrow> bool \<Rightarrow> files \<Rightarrow> int \<Rightarrow> rstring \<Rightarrow> fieldidx \<Rightarrow> (walidx_error + fieldidx \<times> nat) option" where
  "fieldidx_replay sha prealloc fs h prefix t =
     (case fd_idx t h of
        None \<Rightarrow> Some (Inl (UnknownHandle ''fieldidx_replay'' h))
      | Some sh \<Rightarrow>
          map_option (\<lambda>(sh, n). Inr (t\<lparr>fd_idx := (fd_idx t)(h \<mapsto> sh)\<rparr>, n)) (field_do_replay sha prealloc fs prefix sh))"

definition fieldidx_res_get ::
  "(bytes \<Rightarrow> hash256) \<Rightarrow> bool \<Rightarrow> files \<Rightarrow> rstring \<Rightarrow> rstring \<Rightarrow> rstring \<Rightarrow> rstring \<Rightarrow> rstring \<Rightarrow> fieldidx \<Rightarrow>
   (walidx_error + fieldidx \<times> rstring) option" where
  "fieldidx_res_get sha prealloc fs shard prefix snap f v t =
     (let (h, t') = (case fd_resident t shard of
            Some h \<Rightarrow> (h, t)
          | None \<Rightarrow>
              (fd_next t, t\<lparr>fd_next := fd_next t + 1, fd_idx := (fd_idx t)(fd_next t \<mapsto> fresh_field_shard),
                 fd_resident := (fd_resident t)(shard \<mapsto> fd_next t)\<rparr>)) in
      case fd_idx t' h of
        None \<Rightarrow> Some (Inl (ResidentVanished h))
      | Some sh \<Rightarrow>
          map_option (\<lambda>(sh, n). Inr (t'\<lparr>fd_idx := (fd_idx t')(h \<mapsto> sh)\<rparr>, postings_text (fx_map sh (f @ [9] @ v))))
            (if fd_resident t shard = None then field_do_rebuild sha prealloc fs prefix snap sh
             else field_do_replay sha prealloc fs prefix sh))"

definition fieldidx_res_scope :: "rstring \<Rightarrow> fieldidx \<Rightarrow> fieldidx" where
  "fieldidx_res_scope which t =
     (if residency_mode = which
      then t\<lparr>fd_idx := (fd_idx t) |` (- ran (fd_resident t)), fd_resident := Map.empty\<rparr>
      else t)"

section \<open>Recovery of the hot tier\<close>

text \<open>\<open>src/src/runtime/hotblk_recover.rs\<close>, a reader of its own over the same parser.\<close>

record recover_shard =
  rs_dir :: rstring
  rs_pk :: "rstring \<Rightarrow> rstring option"
  rs_hashes :: "rstring set"
  rs_blocks :: nat
  rs_frames :: nat

definition hotblk_recover_open :: "rstring \<Rightarrow> recover_shard" where
  "hotblk_recover_open dir = \<lparr>rs_dir = dir, rs_pk = Map.empty, rs_hashes = {}, rs_blocks = 0, rs_frames = 0\<rparr>"

definition recover_visit :: "wal_frame \<Rightarrow> recover_shard \<Rightarrow> recover_shard" where
  "recover_visit f sh =
     sh\<lparr>rs_pk := (case env_to_name (fr_env f) of Some nm \<Rightarrow> (rs_pk sh)(nm \<mapsto> lit ''sha256:'' @ fr_hash f) | None \<Rightarrow> rs_pk sh),
        rs_hashes := insert (fr_hash f) (rs_hashes sh), rs_frames := rs_frames sh + 1\<rparr>"

partial_function (option) recover_loop ::
  "(bytes \<Rightarrow> hash256) \<Rightarrow> bool \<Rightarrow> files \<Rightarrow> int \<Rightarrow> recover_shard \<Rightarrow> recover_shard option" where
  "recover_loop sha prealloc fs sq sh =
     (case fs (block_path (rs_dir sh) sq) of
        None \<Rightarrow> Some sh
      | Some dat \<Rightarrow>
          (case split_complete prealloc dat of
             None \<Rightarrow> Some sh
           | Some body \<Rightarrow>
               (case parse_frames_from_bytes sha body 0 of
                  (frs, end_off, torn) \<Rightarrow>
                    if body_is_intact (length body) end_off torn
                    then recover_loop sha prealloc fs (sq + 1) (fold recover_visit frs (sh\<lparr>rs_blocks := rs_blocks sh + 1\<rparr>))
                    else Some (fold recover_visit frs (sh\<lparr>rs_blocks := rs_blocks sh + 1\<rparr>)))))"

definition hotblk_recover_rebuild ::
  "(bytes \<Rightarrow> hash256) \<Rightarrow> bool \<Rightarrow> files \<Rightarrow> recover_shard \<Rightarrow> recover_shard option" where
  "hotblk_recover_rebuild sha prealloc fs sh = recover_loop sha prealloc fs 1 (sh\<lparr>rs_blocks := 0, rs_frames := 0\<rparr>)"

definition hotblk_recover_pk_get :: "rstring \<Rightarrow> recover_shard \<Rightarrow> rstring" where
  "hotblk_recover_pk_get nm sh = (case rs_pk sh nm of Some a \<Rightarrow> a | None \<Rightarrow> [])"

definition hotblk_recover_has_hash :: "rstring \<Rightarrow> recover_shard \<Rightarrow> bool" where
  "hotblk_recover_has_hash hexh sh =
     ((if take 7 hexh = lit ''sha256:'' then drop 7 hexh else hexh) \<in> rs_hashes sh)"

definition hotblk_recover_stats :: "recover_shard \<Rightarrow> rstring" where
  "hotblk_recover_stats sh = nat_text (rs_blocks sh) @ [9] @ nat_text (rs_frames sh)"

end
