(* ===== verification/FrameRules.thy ===== *)
theory FrameRules
  imports Frames
begin

text \<open>
  What the frame parsers accept: written frames are read back, a file that is cut anywhere gives the frames that are whole,
  a file that grows gives the same frames and then more, and a block that is still being written is never taken for a
  complete one.
\<close>

section \<open>Numbers of fixed width\<close>

lemma nat_text_length: "n < 10 ^ w \<Longrightarrow> 0 < w \<Longrightarrow> length (nat_text n) \<le> w"
proof (induction w arbitrary: n)
  case (Suc w)
  show ?case
  proof (cases "n < 10")
    case False
    then have w: "0 < w" using Suc.prems(1) by (cases w) simp_all
    have "n div 10 < 10 ^ w" using Suc.prems(1) less_mult_imp_div_less [of n "10 ^ w" 10] by (simp add: mult.commute)
    with w show ?thesis using Suc.IH [of "n div 10"] by (simp add: nat_text_rec(2) [OF False])
  qed (simp add: nat_text_rec)
qed simp

lemma pad_length: "n < 10 ^ w \<Longrightarrow> 0 < w \<Longrightarrow> length (pad n w) = w"
  using nat_text_length [of n w] by (simp add: pad_def)

lemma pad_digits: "c \<in> set (pad n w) \<Longrightarrow> 48 \<le> unat c \<and> unat c < 58"
  using nat_text_digits [of c n] by (auto simp: pad_def)

lemma parse_digits_zeros: "parse_digits 0 (replicate k 48 @ s) = parse_digits 0 s"
  by (induction k) simp_all

lemma parse_usize_pad: "n < 2 ^ 64 \<Longrightarrow> parse_usize (pad n w) = Some n"
proof -
  assume n: "n < 2 ^ 64"
  obtain c cs where t: "pad n w = c # cs" using nat_text_nonempty by (metis pad_def append_is_Nil_conv list.exhaust)
  have "c \<noteq> 0x2b" using pad_digits [of "0x2b" n w] t by auto
  then show ?thesis using parse_digits_zeros [of "w - length (nat_text n)" "nat_text n"] parse_nat_text [of n] n t
    by (simp add: parse_usize_def pad_def)
qed

lemma ascii_chars: "list_all (\<lambda>b. unat b < 128) s \<Longrightarrow> chars s = map unat s"
  by (simp add: chars_def utf8_valid_ascii)

lemma ascii_valid: "list_all (\<lambda>b. unat b < 128) s \<Longrightarrow> utf8_valid s"
  by (simp add: utf8_valid_def utf8_valid_ascii)

lemma pad_ascii: "list_all (\<lambda>b. unat b < 128) (pad n w)"
  by (auto simp: list_all_iff dest: pad_digits)

lemma trim_pad: "trim_text (pad n w) = pad n w"
proof -
  have "trimmed (map unat (pad n w))"
  proof -
    have "pad n w \<noteq> []" using nat_text_nonempty by (simp add: pad_def)
    then have "hd (pad n w) \<in> set (pad n w)" "last (pad n w) \<in> set (pad n w)" by simp_all
    from this [THEN pad_digits] \<open>pad n w \<noteq> []\<close> show ?thesis
      by (auto simp: trimmed_def hd_map last_map is_whitespace_def)
  qed
  then show ?thesis by (simp add: trim_text_def ascii_chars [OF pad_ascii] trim_id utf8_encode_ascii [OF pad_ascii])
qed

lemma hex_range_mem: "c \<in> set (hash256_to_hex h) \<Longrightarrow> 48 \<le> unat c \<and> unat c < 103"
  using hex_range [of h] by (simp add: list_all_iff)

lemma hex_ascii: "list_all (\<lambda>b. unat b < 128) (hash256_to_hex h)"
  by (auto simp: list_all_iff dest: hex_range_mem)

section \<open>Frames\<close>

text \<open>A record that fits the frame's fields, and a digest of 32 bytes.\<close>

definition rec_ok :: "(bytes \<Rightarrow> hash256) \<Rightarrow> bytes \<times> bytes \<Rightarrow> bool" where
  "rec_ok sha r \<longleftrightarrow> length (fst r) < 10 ^ 10 \<and> length (snd r) < 10 ^ 10 \<and> length (sha (snd r)) = 32"

definition frame_of :: "(bytes \<Rightarrow> hash256) \<Rightarrow> bytes \<times> bytes \<Rightarrow> bytes" where
  "frame_of sha r = wal_frame_bytes sha (fst r) (snd r)"

lemma frame_of_length: "rec_ok sha r \<Longrightarrow> length (frame_of sha r) = 84 + length (fst r) + length (snd r)"
  by (simp add: rec_ok_def frame_of_def wal_frame_bytes_def sha256_hex_def hash256_to_hex_length pad_length)

lemma small_usize: "n < 10 ^ 10 \<Longrightarrow> n < 2 ^ 64" for n :: nat
  by simp

text \<open>The header of a frame, whether its end is there or not.\<close>

lemma frame_header:
  assumes r: "rec_ok sha r" and d: "drop off dat = take n (frame_of sha r @ rest)" "84 \<le> n"
  shows "take 64 (drop off dat) = sha256_hex sha (snd r)" "take 10 (drop (off + 64) dat) = pad (length (snd r)) 10"
    "take 10 (drop (off + 74) dat) = pad (length (fst r)) 10"
    "drop (off + 84) dat = take (n - 84) (fst r @ snd r @ rest)"
proof -
  have l: "length (sha256_hex sha (snd r)) = 64" "length (pad (length (snd r)) 10) = 10" "length (pad (length (fst r)) 10) = 10"
    using r by (simp_all add: rec_ok_def sha256_hex_def hash256_to_hex_length pad_length)
  have dd: "drop (off + k) dat = drop k (take n (frame_of sha r @ rest))" for k using d(1) by (simp add: drop_drop [symmetric] add.commute)
  show "take 64 (drop off dat) = sha256_hex sha (snd r)" using d l by (simp add: frame_of_def wal_frame_bytes_def)
  show "take 10 (drop (off + 64) dat) = pad (length (snd r)) 10" "take 10 (drop (off + 74) dat) = pad (length (fst r)) 10"
    "drop (off + 84) dat = take (n - 84) (fst r @ snd r @ rest)"
    using dd [of 64] dd [of 74] dd [of 84] d(2) l by (simp_all add: frame_of_def wal_frame_bytes_def drop_take take_drop min_def)
qed

lemma frame_at_whole:
  assumes r: "rec_ok sha r" and d: "drop off dat = frame_of sha r @ rest"
  shows "frame_at sha dat off = Some \<lparr>fr_off = off + 84 + length (fst r), fr_env = fst r, fr_payload = snd r, fr_hash = sha256_hex sha (snd r)\<rparr>"
proof -
  have n: "84 \<le> length (frame_of sha r @ rest)" using frame_of_length [OF r] by simp
  have d': "drop off dat = take (length (frame_of sha r @ rest)) (frame_of sha r @ rest)" using d by simp
  note h = frame_header [OF r d' n]
  have "length dat - off = length (frame_of sha r @ rest)" using arg_cong [OF d, of length] by (simp only: length_drop)
  then have len: "length dat = off + length (frame_of sha r @ rest)" using n by linarith
  have "drop (off + 84) dat = fst r @ snd r @ rest" using h(4) frame_of_length [OF r] by simp
  moreover have "drop (off + 84 + length (fst r)) dat = drop (length (fst r)) (drop (off + 84) dat)" by (simp add: add.commute)
  ultimately show ?thesis using h(1-3) len r frame_of_length [OF r] parse_usize_pad [OF small_usize]
    by (simp add: frame_at_def Let_def trim_pad rec_ok_def ascii_valid pad_ascii hex_ascii sha256_hex_def)
qed

text \<open>A frame that is cut is not accepted.\<close>

lemma frame_at_cut:
  assumes r: "rec_ok sha r" and d: "drop off dat = take n (frame_of sha r)" "off + 84 \<le> length dat" "n < length (frame_of sha r)"
  shows "frame_at sha dat off = None"
proof -
  have n: "84 \<le> n" and len: "length dat = off + n"
  proof -
    have "length dat - off = n" using arg_cong [OF d(1), of length] d(3) by simp
    then show "84 \<le> n" "length dat = off + n" using d(2) by simp_all
  qed
  have d': "drop off dat = take n (frame_of sha r @ [])" using d by simp
  note h = frame_header [OF r d' n]
  show ?thesis using h(1-3) len d(3) r frame_of_length [OF r] parse_usize_pad [OF small_usize]
    by (simp add: frame_at_def Let_def trim_pad rec_ok_def)
qed


text \<open>A frame that a file has it keeps when the file grows.\<close>

lemma drop_take_grow: "a + k \<le> length dat \<Longrightarrow> take k (drop a (dat @ ext)) = take k (drop a dat)"
  by simp

lemma frame_at_grow:
  assumes "frame_at sha dat off = Some f" "off + 84 \<le> length dat"
  shows "frame_at sha (dat @ ext) off = Some f"
proof -
  have h: "take 64 (drop off (dat @ ext)) = take 64 (drop off dat)"
    "take 10 (drop (off + 64) (dat @ ext)) = take 10 (drop (off + 64) dat)"
    "take 10 (drop (off + 74) (dat @ ext)) = take 10 (drop (off + 74) dat)"
    using assms(2) by simp_all
  from assms(1) obtain p v where pv: "parse_usize (trim_text (take 10 (drop (off + 64) dat))) = Some p"
    "parse_usize (trim_text (take 10 (drop (off + 74) dat))) = Some v" "off + 84 + v + p \<le> length dat"
    by (auto simp: frame_at_def Let_def split: if_splits option.splits)
  have "take v (drop (off + 84) (dat @ ext)) = take v (drop (off + 84) dat)"
    "take p (drop (off + 84 + v) (dat @ ext)) = take p (drop (off + 84 + v) dat)"
    using pv(3) by simp_all
  then show ?thesis using assms(1) h pv unfolding frame_at_def Let_def h pv option.case by (simp split: if_splits)
qed

lemma parse_frames_grow:
  assumes "parse_frames_from_bytes sha dat off = (fs, e, torn)"
  shows "parse_frames_from_bytes sha (dat @ ext) off =
    (let (fs', e', torn') = parse_frames_from_bytes sha (dat @ ext) e in (fs @ fs', e', torn'))"
  using assms
proof (induction sha dat off arbitrary: fs rule: parse_frames_from_bytes.induct)
  case (1 sha dat off)
  show ?case
  proof (cases "off + 84 \<le> length dat \<and> frame_at sha dat off \<noteq> None")
    case True
    then obtain f where f: "frame_at sha dat off = Some f" by auto
    with True "1.prems" obtain fs0 where fs0: "parse_frames_from_bytes sha dat (frame_end f) = (fs0, e, torn)" "fs = f # fs0"
      unfolding parse_frames_from_bytes.simps [of sha dat off] by (auto split: prod.splits)
    from "1.IH" [OF _ f this(1)] True fs0(2) frame_at_grow [OF f] show ?thesis
      by (subst parse_frames_from_bytes.simps) (auto simp: Let_def split: prod.splits)
  next
    case False
    with "1.prems" have "fs = [] \<and> e = off"
      unfolding parse_frames_from_bytes.simps [of sha dat off] by (auto split: if_splits option.splits)
    then show ?thesis by (simp split: prod.splits)
  qed
qed

text \<open>The frames of a log, with the offsets they have there.\<close>

fun frames_at :: "(bytes \<Rightarrow> hash256) \<Rightarrow> nat \<Rightarrow> (bytes \<times> bytes) list \<Rightarrow> wal_frame list" where
  "frames_at sha off [] = []"
| "frames_at sha off (r # rs) =
     \<lparr>fr_off = off + 84 + length (fst r), fr_env = fst r, fr_payload = snd r, fr_hash = sha256_hex sha (snd r)\<rparr>
     # frames_at sha (off + length (frame_of sha r)) rs"

definition log_of :: "(bytes \<Rightarrow> hash256) \<Rightarrow> (bytes \<times> bytes) list \<Rightarrow> bytes" where
  "log_of sha rs = concat (map (frame_of sha) rs)"

lemma log_of_simps [simp]: "log_of sha [] = []" "log_of sha (r # rs) = frame_of sha r @ log_of sha rs"
  "log_of sha (rs @ rs') = log_of sha rs @ log_of sha rs'"
  by (simp_all add: log_of_def)

lemma parse_frames_log:
  assumes "list_all (rec_ok sha) rs" "drop off dat = log_of sha rs @ rest" "off \<le> length dat"
  shows "parse_frames_from_bytes sha dat off =
    (let (fs, e, torn) = parse_frames_from_bytes sha dat (off + length (log_of sha rs)) in (frames_at sha off rs @ fs, e, torn))"
  using assms
proof (induction rs arbitrary: off)
  case (Cons r rs)
  have r: "rec_ok sha r" and d: "drop off dat = frame_of sha r @ log_of sha rs @ rest" using Cons.prems by simp_all
  let ?n = "length (frame_of sha r)"
  have l: "length dat - off = length (frame_of sha r @ log_of sha rs @ rest)" using arg_cong [OF d, of length] by (simp only: length_drop)
  have n: "off + ?n \<le> length dat" "84 \<le> ?n" using l Cons.prems(3) frame_of_length [OF r] by simp_all
  have "drop (off + ?n) dat = drop ?n (drop off dat)" by (simp add: add.commute)
  then have d': "drop (off + ?n) dat = log_of sha rs @ rest" using d by simp
  note ih = Cons.IH [OF _ d' n(1)]
  show ?case using frame_at_whole [OF r d] ih n Cons.prems(1) frame_of_length [OF r]
    by (subst parse_frames_from_bytes.simps) (simp add: frame_end_def Let_def add.assoc split: prod.splits)
qed (simp split: prod.splits)


section \<open>A log that is cut\<close>

text \<open>The records whose frames lie within the first \<open>n\<close> bytes.\<close>

fun whole :: "(bytes \<Rightarrow> hash256) \<Rightarrow> nat \<Rightarrow> (bytes \<times> bytes) list \<Rightarrow> (bytes \<times> bytes) list" where
  "whole sha n [] = []"
| "whole sha n (r # rs) =
     (if length (frame_of sha r) \<le> n then r # whole sha (n - length (frame_of sha r)) rs else [])"

lemma whole_split:
  "\<exists>rest. rs = whole sha n rs @ rest \<and> take n (log_of sha rs) = log_of sha (whole sha n rs) @ take (n - length (log_of sha (whole sha n rs))) (log_of sha rest) \<and>
     (rest \<noteq> [] \<longrightarrow> n - length (log_of sha (whole sha n rs)) < length (frame_of sha (hd rest)))"
proof (induction rs arbitrary: n)
  case (Cons r rs)
  show ?case
  proof (cases "length (frame_of sha r) \<le> n")
    case True
    from Cons.IH [of "n - length (frame_of sha r)"] obtain rest where
      "rs = whole sha (n - length (frame_of sha r)) rs @ rest"
      "take (n - length (frame_of sha r)) (log_of sha rs) = log_of sha (whole sha (n - length (frame_of sha r)) rs) @
        take (n - length (frame_of sha r) - length (log_of sha (whole sha (n - length (frame_of sha r)) rs))) (log_of sha rest)"
      "rest \<noteq> [] \<longrightarrow> n - length (frame_of sha r) - length (log_of sha (whole sha (n - length (frame_of sha r)) rs)) < length (frame_of sha (hd rest))"
      by blast
    then show ?thesis using True by (intro exI [of _ rest]) simp
  qed (intro exI [of _ "r # rs"], simp)
qed simp

lemma parse_frames_end:
  assumes "off + 84 \<le> length dat \<Longrightarrow> frame_at sha dat off = None"
  shows "parse_frames_from_bytes sha dat off = ([], off, off + 84 \<le> length dat)"
  using assms by (subst parse_frames_from_bytes.simps) (auto split: option.splits)

lemma parse_frames_cut:
  assumes rs: "list_all (rec_ok sha) rs"
  shows "parse_frames_from_bytes sha (take n (log_of sha rs)) 0 =
    (frames_at sha 0 (whole sha n rs), length (log_of sha (whole sha n rs)),
     length (log_of sha (whole sha n rs)) + 84 \<le> min n (length (log_of sha rs)))"
proof -
  let ?w = "whole sha n rs" and ?d = "take n (log_of sha rs)"
  let ?e = "length (log_of sha ?w)"
  obtain rest where r: "rs = ?w @ rest" "?d = log_of sha ?w @ take (n - ?e) (log_of sha rest)"
    "rest \<noteq> [] \<Longrightarrow> n - ?e < length (frame_of sha (hd rest))" using whole_split [of rs sha n] by blast
  have ok: "list_all (rec_ok sha) ?w" "list_all (rec_ok sha) rest" using rs r(1) by (metis list_all_append)+
  have stop: "parse_frames_from_bytes sha ?d ?e = ([], ?e, ?e + 84 \<le> length ?d)"
  proof (rule parse_frames_end)
    assume long: "?e + 84 \<le> length ?d"
    then obtain q qs where q: "rest = q # qs" using arg_cong [OF r(2), of length] by (cases rest) (simp_all split: if_splits add: min_def)
    have "drop ?e (log_of sha ?w @ take (n - ?e) (log_of sha rest)) = take (n - ?e) (log_of sha rest)" by simp
    then have "drop ?e ?d = take (n - ?e) (log_of sha rest)" by (simp only: r(2) [symmetric])
    then have cut: "drop ?e ?d = take (n - ?e) (frame_of sha q)" using r(3) q by simp
    then show "frame_at sha ?d ?e = None" using frame_at_cut [OF _ cut long] ok(2) q r(3) by simp
  qed
  have "drop 0 ?d = log_of sha ?w @ take (n - ?e) (log_of sha rest)" using r(2) by simp
  from parse_frames_log [OF ok(1) this] stop show ?thesis by (simp add: min.commute)
qed

section \<open>A block that is being written\<close>

lemma frames_at_end:
  "list_all (rec_ok sha) rs \<Longrightarrow> parse_frames_from_bytes sha (log_of sha rs) 0 = (frames_at sha 0 rs, length (log_of sha rs), False)"
proof -
  assume rs: "list_all (rec_ok sha) rs"
  have "whole sha (length (log_of sha rs)) rs = rs" by (induction rs) simp_all
  then show ?thesis using parse_frames_cut [OF rs, of "length (log_of sha rs)"] by simp
qed

lemma trailer_length: "n < 10 ^ 16 \<Longrightarrow> length (trailer_for n) = 24"
  by (simp add: trailer_for_def BLOCK_MAGIC_def BLOCK_LEN_DIGITS_def pad_length lit_def)

lemma hex_not_A: "c \<in> set (hash256_to_hex h) \<Longrightarrow> c \<noteq> 65"
proof (induction h)
  case (Cons b h)
  have "hex_digit n \<noteq> 65" if n: "n < 16" for n
  proof -
    from n have "unat (of_nat (48 + n) :: u8) = 48 + n" "unat (of_nat (87 + n) :: u8) = 87 + n" by (simp_all only: unat_of_nat_8)
    then have "unat (hex_digit n) \<noteq> 65" using n by (simp only: hex_digit_def) (simp split: if_split)
    then show ?thesis by auto
  qed
  moreover have "unat b div 16 < 16" "unat b mod 16 < 16" using unat_bound [of b] by simp_all
  ultimately show ?case using Cons by (auto simp: hash256_to_hex_def)
qed (simp add: hash256_to_hex_def)

lemma frame_head: "rec_ok sha r \<Longrightarrow> \<exists>c cs. frame_of sha r = c # cs \<and> c \<noteq> 65"
proof -
  assume r: "rec_ok sha r"
  then have "length (sha256_hex sha (snd r)) = 64" by (simp add: rec_ok_def sha256_hex_def hash256_to_hex_length)
  then obtain c cs where c: "sha256_hex sha (snd r) = c # cs" by (cases "sha256_hex sha (snd r)") auto
  have "c \<in> set (hash256_to_hex (sha (snd r)))" using c by (simp add: sha256_hex_def)
  then have "c \<noteq> 65" using hex_not_A by blast
  then show ?thesis using c by (simp add: frame_of_def wal_frame_bytes_def)
qed

lemma split_complete_whole:
  assumes "n = length body" "n < 10 ^ 16"
  shows "split_complete prealloc (body @ trailer_for n) = Some body"
  using assms trailer_length [of n] parse_usize_pad [of n 16]
  by (simp add: split_complete_def Let_def BLOCK_TRAILER_LEN_def BLOCK_LEN_DIGITS_def trailer_for_def BLOCK_MAGIC_def lit_def trim_pad ascii_valid pad_ascii)

text \<open>No proper beginning of a block is complete with an intact body.\<close>

lemma block_prefix_open:
  assumes rs: "list_all (rec_ok sha) rs" and small: "length (log_of sha rs) < 10 ^ 16"
    and k: "k < length (log_of sha rs) + 24"
    and b: "split_complete True (take k (log_of sha rs @ trailer_for (length (log_of sha rs)))) = Some body"
    and p: "parse_frames_from_bytes sha body 0 = (frs, e, torn)"
  shows "\<not> body_is_intact (length body) e torn"
proof
  let ?L = "log_of sha rs"
  let ?d = "take k (?L @ trailer_for (length ?L))"
  assume intact: "body_is_intact (length body) e torn"
  have len: "length ?d = k" using k trailer_length [OF small] by simp
  from b have m: "24 \<le> k" "body = take (k - 24) ?d" "take 8 (drop (k - 24) ?d) = BLOCK_MAGIC"
    unfolding split_complete_def Let_def len by (auto simp: BLOCK_TRAILER_LEN_def BLOCK_LEN_DIGITS_def split: if_splits)
  have short: "k - 24 < length ?L" using k m(1) by simp
  have body: "body = take (k - 24) ?L" using m(2) short by simp
  let ?w = "whole sha (k - 24) rs"
  have "length (log_of sha ?w) = k - 24"
    using intact p parse_frames_cut [OF rs, of "k - 24"] short by (simp add: body_is_intact_def body)
  then obtain rest where r: "rs = ?w @ rest" using whole_split [of rs sha "k - 24"] by blast
  with \<open>length (log_of sha ?w) = k - 24\<close> short have "rest \<noteq> []" by (metis append_Nil2 less_irrefl)
  then obtain q qs where q: "rest = q # qs" by (cases rest) auto
  from rs r q have "rec_ok sha q" by (metis list_all_append list.pred_inject(2))
  then obtain c cs where c: "frame_of sha q = c # cs" "c \<noteq> 65" using frame_head by blast
  have "?L = log_of sha ?w @ c # cs @ log_of sha qs" using arg_cong [OF r, of "log_of sha"] q c(1) by simp
  then have "?L ! (k - 24) = c" using \<open>length (log_of sha ?w) = k - 24\<close> by (metis nth_append_length)
  moreover have "?d ! (k - 24) = ?L ! (k - 24)" using short m(1) by (simp add: nth_append)
  moreover have "take 8 (drop (k - 24) ?d) ! 0 = ?d ! (k - 24)" using m(1) len by (simp del: length_take take_append)
  ultimately show False using m(3) c(2) by (simp add: BLOCK_MAGIC_def lit_def)
qed

end
