(* ===== verification/WalRules.thy ===== *)
theory WalRules
  imports WalIndex FrameRules
begin

text \<open>
  The walks return on every finite store; a walk of a store that has grown is the walk of the old store, resumed where it
  ended. The second is the law of the interface \<open>frame_source\<close>, under which every projection of the frames can be
  brought up to date incrementally; the log and the blocks are interpretations of it.
\<close>

section \<open>File names\<close>

lemma segment_path_inject: "segment_path p i = segment_path p j \<longleftrightarrow> i = j"
  by (simp add: segment_path_def int_dec_inject)

lemma block_path_inject: "block_path d i = block_path d j \<longleftrightarrow> i = j"
  by (simp add: block_path_def int_dec_inject)

text \<open>A chain of numbered files in a finite store ends.\<close>

lemma numbered_induct:
  assumes fin: "finite (dom fs)" and inj: "\<And>i j. path i = path j \<longleftrightarrow> i = j"
    and step: "\<And>s. (fs (path s) \<noteq> None \<Longrightarrow> P (s + 1)) \<Longrightarrow> P s"
  shows "P (s :: int)"
proof -
  let ?A = "\<lambda>s. {i. s \<le> i \<and> fs (path i) \<noteq> None}"
  have finA: "finite (?A s)" for s
  proof (rule finite_imageD)
    show "finite (path ` ?A s)" using fin by (rule finite_subset [rotated]) auto
    show "inj_on path (?A s)" using inj by (simp add: inj_on_def)
  qed
  show ?thesis
  proof (induction "card (?A s)" arbitrary: s rule: less_induct)
    case less
    show ?case
    proof (rule step)
      assume "fs (path s) \<noteq> None"
      then have "s \<in> ?A s" "s \<notin> ?A (s + 1)" by simp_all
      moreover have "?A (s + 1) \<subseteq> ?A s" by auto
      ultimately have "?A (s + 1) \<subset> ?A s" by blast
      then show "P (s + 1)" using less psubset_card_mono [OF finA] by blast
    qed
  qed
qed

lemma walk_loop_returns:
  assumes fin: "finite (dom fs)"
  shows "\<exists>r. walk_loop sha fs prefix wm seg off = Some r"
proof (induction seg arbitrary: off rule: numbered_induct [of fs "segment_path prefix"])
  case (3 s)
  show ?case
  proof (cases "fs (segment_path prefix s)")
    case None
    then show ?thesis by (subst walk_loop.simps) (simp add: read_segment_def)
  next
    case (Some dat)
    with 3 obtain r where "walk_loop sha fs prefix wm (s + 1) 0 = Some r" by blast
    with Some show ?thesis by (subst walk_loop.simps) (auto simp: read_segment_def split: prod.splits)
  qed
qed (simp_all add: segment_path_inject fin)

text \<open>The watermark only matters where its segment is gone.\<close>

lemma walk_loop_wm:
  assumes fin: "finite (dom fs)" and "read_segment fs prefix seg \<noteq> None"
  shows "walk_loop sha fs prefix wm seg off = walk_loop sha fs prefix wm' seg off"
  using assms(2)
proof (induction seg arbitrary: off rule: numbered_induct [of fs "segment_path prefix"])
  case (3 s)
  then have "read_segment fs prefix (s + 1) \<noteq> None \<Longrightarrow> walk_loop sha fs prefix wm (s + 1) 0 = walk_loop sha fs prefix wm' (s + 1) 0"
    by (simp add: read_segment_def)
  with "3.prems" show ?case
    by (subst (1 2) walk_loop.simps) (auto split: option.split prod.split)
qed (simp_all add: segment_path_inject fin)

lemma walk_frames_returns: "finite (dom fs) \<Longrightarrow> \<exists>vs fr. walk_frames sha prefix fs wm = Some (vs, fr)"
  using walk_loop_returns [of fs sha prefix wm "fst wm" "snd wm"] by (auto simp: walk_frames_def)

lemma walk_hotblk_returns: "finite (dom fs) \<Longrightarrow> \<exists>vs e. walk_hotblk_frames sha prealloc dir fs from = Some (vs, e)"
proof -
  assume fin: "finite (dom fs)"
  have "\<exists>r. hotblk_loop sha prealloc fs dir s = Some r" for s
  proof (induction s rule: numbered_induct [of fs "block_path dir"])
    case (3 s)
    then show ?case
      by (cases "fs (block_path dir s)"; subst hotblk_loop.simps) (auto split: option.splits prod.splits)
  qed (simp_all add: block_path_inject fin)
  then show ?thesis by (simp add: walk_hotblk_frames_def)
qed

section \<open>Sources of frames\<close>

locale frame_source =
  fixes walk :: "'s \<Rightarrow> 'p \<Rightarrow> ('v list \<times> 'p) option"
    and grows :: "'s \<Rightarrow> 's \<Rightarrow> bool"
  assumes resume: "grows s s' \<Longrightarrow> walk s p = Some (vs, q) \<Longrightarrow>
      walk s' p = map_option (\<lambda>(vs', q'). (vs @ vs', q')) (walk s' q)"
begin

text \<open>A projection is a fold over the frames: resumed, it is the projection of the whole store.\<close>

lemma projection_resume:
  assumes "grows s s'" "walk s p = Some (vs, q)" "walk s' q = Some (vs', q')"
  shows "\<exists>ws. walk s' p = Some (ws, q') \<and> length ws = length vs + length vs' \<and> fold f ws m = fold f vs' (fold f vs m)"
  using resume [OF assms(1,2)] assms(3) by simp

lemma walk_idle: "grows s s \<Longrightarrow> walk s p = Some (vs, q) \<Longrightarrow> walk s q = Some ([], q) \<or> walk s q = None"
  using resume [of s s p vs q] by (cases "walk s q") auto

end

text \<open>The log grows: a file only gets longer, and only while it is the last.\<close>

definition log_grows :: "rstring \<Rightarrow> files \<Rightarrow> files \<Rightarrow> bool" where
  "log_grows prefix fs fs' \<longleftrightarrow> finite (dom fs) \<and> finite (dom fs') \<and>
     (\<forall>s dat. read_segment fs prefix s = Some dat \<longrightarrow>
        (\<exists>ext. read_segment fs' prefix s = Some (dat @ ext) \<and> (read_segment fs prefix (s + 1) \<noteq> None \<longrightarrow> ext = [])))"

lemma log_grows_read:
  assumes "log_grows prefix fs fs'" "read_segment fs prefix s = Some dat"
  obtains ext where "read_segment fs' prefix s = Some (dat @ ext)" "read_segment fs prefix (s + 1) \<noteq> None \<Longrightarrow> ext = []"
  using assms unfolding log_grows_def by blast

lemma walk_loop_resume:
  assumes g: "log_grows prefix fs fs'"
    and w: "walk_loop sha fs prefix wm seg off = Some (vs, q)" "read_segment fs prefix seg \<noteq> None"
  shows "walk_loop sha fs' prefix wm' seg off = map_option (\<lambda>(vs', q'). (vs @ vs', q')) (walk_frames sha prefix fs' q)"
  using w
proof (induction seg arbitrary: off vs rule: numbered_induct [of fs "segment_path prefix"])
  case (3 s)
  have fin': "finite (dom fs')" using g by (simp add: log_grows_def)
  from "3.prems"(2) obtain dat where dat: "read_segment fs prefix s = Some dat" by auto
  from log_grows_read [OF g dat] obtain ext where
    ext: "read_segment fs' prefix s = Some (dat @ ext)" "read_segment fs prefix (s + 1) \<noteq> None \<Longrightarrow> ext = []" by blast
  obtain frs e torn where p: "parse_frames_from_bytes sha dat (nat off) = (frs, e, torn)" by (metis prod_cases3)
  show ?case
  proof (cases "\<not> torn \<and> e = length dat \<and> read_segment fs prefix (s + 1) \<noteq> None")
    case True
    then obtain vs1 where vs1: "walk_loop sha fs prefix wm (s + 1) 0 = Some (vs1, q)" "vs = map (Pair s) frs @ vs1"
      using "3.prems"(1) dat p unfolding walk_loop.simps [of sha fs prefix wm s off] by (auto simp: bind_eq_Some_conv)
    have nxt: "read_segment fs' prefix (s + 1) \<noteq> None" using True log_grows_read [OF g] by (metis option.distinct(1) option.exhaust)
    have "fs (segment_path prefix s) \<noteq> None" using dat by (simp add: read_segment_def)
    from "3.IH" [OF this vs1(1)] True ext p nxt show ?thesis
      unfolding walk_loop.simps [of sha fs' prefix wm' s off]
      by (cases "walk_frames sha prefix fs' q") (auto simp: vs1(2))
  next
    case False
    then have q: "vs = map (Pair s) frs" "q = (s, int e)"
      using "3.prems"(1) dat p unfolding walk_loop.simps [of sha fs prefix wm s off] by (auto split: if_splits)
    obtain frs' e' torn' where p': "parse_frames_from_bytes sha (dat @ ext) e = (frs', e', torn')" by (metis prod_cases3)
    with parse_frames_grow [OF p, of ext]
    have p2: "parse_frames_from_bytes sha (dat @ ext) (nat off) = (frs @ frs', e', torn')" by simp
    have "walk_loop sha fs' prefix wm' s (int e) = walk_frames sha prefix fs' q"
      using walk_loop_wm [OF fin', of prefix s sha wm' "int e" q] ext(1) by (simp add: q walk_frames_def)
    moreover have "walk_loop sha fs' prefix wm' s off = map_option (\<lambda>(vs', q'). (vs @ vs', q')) (walk_loop sha fs' prefix wm' s (int e))"
      using ext(1) p' p2
      by (subst (1 2) walk_loop.simps, cases "walk_loop sha fs' prefix wm' (s + 1) 0") (auto simp: q)
    ultimately show ?thesis by simp
  qed
qed (use g in \<open>simp_all add: segment_path_inject log_grows_def\<close>)

lemma walk_frames_resume:
  assumes g: "log_grows prefix fs fs'" and w: "walk_frames sha prefix fs p = Some (vs, q)"
  shows "walk_frames sha prefix fs' p = map_option (\<lambda>(vs', q'). (vs @ vs', q')) (walk_frames sha prefix fs' q)"
proof (cases "read_segment fs prefix (fst p)")
  case None
  then have "vs = [] \<and> q = p" using w walk_loop.simps [of sha fs prefix p "fst p" "snd p"] by (simp add: walk_frames_def)
  then show ?thesis by (cases "walk_frames sha prefix fs' p") auto
next
  case (Some dat)
  with walk_loop_resume [OF g] w show ?thesis by (simp add: walk_frames_def)
qed

text \<open>Blocks: those that are whole stay as they are, and none is broken.\<close>

definition block_intact :: "(bytes \<Rightarrow> hash256) \<Rightarrow> bool \<Rightarrow> bytes \<Rightarrow> bool" where
  "block_intact sha prealloc dat =
     (case split_complete prealloc dat of
        None \<Rightarrow> False
      | Some body \<Rightarrow> (case parse_frames_from_bytes sha body 0 of (frs, e, torn) \<Rightarrow> body_is_intact (length body) e torn))"

definition blocks_grow :: "(bytes \<Rightarrow> hash256) \<Rightarrow> bool \<Rightarrow> rstring \<Rightarrow> files \<Rightarrow> files \<Rightarrow> bool" where
  "blocks_grow sha prealloc dir fs fs' \<longleftrightarrow> finite (dom fs) \<and> finite (dom fs') \<and>
     (\<forall>s dat. fs (block_path dir s) = Some dat \<longrightarrow>
        (if block_intact sha prealloc dat then fs' (block_path dir s) = Some dat else split_complete prealloc dat = None))"

lemma hotblk_loop_resume:
  assumes g: "blocks_grow sha prealloc dir fs fs'" and w: "hotblk_loop sha prealloc fs dir s = Some (vs, q)"
  shows "s \<le> q \<and> hotblk_loop sha prealloc fs' dir s = map_option (\<lambda>(vs', q'). (vs @ vs', q')) (hotblk_loop sha prealloc fs' dir q)"
  using w
proof (induction s arbitrary: vs rule: numbered_induct [of fs "block_path dir"])
  case (3 s)
  have stop: ?case if "vs = [] \<and> q = s" using that by (cases "hotblk_loop sha prealloc fs' dir s") auto
  show ?case
  proof (cases "\<exists>dat body. fs (block_path dir s) = Some dat \<and> split_complete prealloc dat = Some body")
    case False
    then have "vs = [] \<and> q = s" using 3(2) unfolding hotblk_loop.simps [of sha prealloc fs dir s] by (auto split: option.splits)
    then show ?thesis by (rule stop)
  next
    case True
    then obtain dat body where d: "fs (block_path dir s) = Some dat" "split_complete prealloc dat = Some body" by blast
    obtain frs e torn where p: "parse_frames_from_bytes sha body 0 = (frs, e, torn)" by (metis prod_cases3)
    from g d have i: "block_intact sha prealloc dat" "fs' (block_path dir s) = Some dat"
      unfolding blocks_grow_def by (metis option.distinct(1))+
    then have b: "body_is_intact (length body) e torn" by (simp add: block_intact_def d(2) p)
    then obtain vs1 where vs1: "hotblk_loop sha prealloc fs dir (s + 1) = Some (vs1, q)" "vs = map (Pair s) frs @ vs1"
      using 3(2) d p unfolding hotblk_loop.simps [of sha prealloc fs dir s] by (auto simp: bind_eq_Some_conv)
    have "fs (block_path dir s) \<noteq> None" using d by simp
    from 3(1) [OF this vs1(1)] i d b p show ?thesis
      unfolding hotblk_loop.simps [of sha prealloc fs' dir s]
      by (cases "hotblk_loop sha prealloc fs' dir q") (auto simp: vs1(2))
  qed
qed (use g in \<open>simp_all add: block_path_inject blocks_grow_def\<close>)

lemma walk_hotblk_resume:
  assumes g: "blocks_grow sha prealloc dir fs fs'" and w: "walk_hotblk_frames sha prealloc dir fs p = Some (vs, q)"
  shows "walk_hotblk_frames sha prealloc dir fs' p = map_option (\<lambda>(vs', q'). (vs @ vs', q')) (walk_hotblk_frames sha prealloc dir fs' q)"
proof -
  have "max p 1 \<le> q" using hotblk_loop_resume [OF g] w unfolding walk_hotblk_frames_def by blast
  then have "max q 1 = q" by simp
  then show ?thesis using hotblk_loop_resume [OF g] w unfolding walk_hotblk_frames_def by metis
qed

interpretation wal: frame_source "walk_frames sha prefix" "log_grows prefix" for sha prefix
  by unfold_locales (rule walk_frames_resume)

interpretation hb: frame_source "walk_hotblk_frames sha prealloc dir" "blocks_grow sha prealloc dir" for sha prealloc dir
  by unfold_locales (rule walk_hotblk_resume)

end
