(* ===== verification/WalClaims.thy ===== *)
theory WalClaims
  imports WalRules
begin

text \<open>
  The indexes over the log: a replay brings a shard to what a fresh rebuild gives, every entry leads to bytes with its
  digest, a snapshot never changes the result, a binding of the primary-key index leads to its object, and a resident
  handle is always there.
\<close>

section \<open>Positions\<close>

definition pos_le :: "wal_pos \<Rightarrow> wal_pos \<Rightarrow> bool" where
  "pos_le p q \<longleftrightarrow> 0 \<le> snd q \<and> (fst p < fst q \<or> fst p = fst q \<and> snd p \<le> snd q)"

lemma parse_frames_le: "parse_frames_from_bytes sha dat off = (fs, e, torn) \<Longrightarrow> off \<le> e"
proof (induction sha dat off arbitrary: fs rule: parse_frames_from_bytes.induct)
  case (1 sha dat off)
  show ?case
  proof (cases "off + 84 \<le> length dat \<and> frame_at sha dat off \<noteq> None")
    case True
    then obtain f where f: "frame_at sha dat off = Some f" by auto
    with True "1.prems" obtain fs0 where "parse_frames_from_bytes sha dat (frame_end f) = (fs0, e, torn)"
      unfolding parse_frames_from_bytes.simps [of sha dat off] by (auto split: prod.splits)
    from "1.IH" [OF _ f this] True frame_at_end [OF f] show ?thesis by simp
  next
    case False
    with "1.prems" show ?thesis
      unfolding parse_frames_from_bytes.simps [of sha dat off] by (auto split: if_splits option.splits)
  qed
qed

lemma walk_loop_le:
  assumes fin: "finite (dom fs)" and "walk_loop sha fs prefix wm s off = Some (vs, q)" "read_segment fs prefix s \<noteq> None"
  shows "pos_le (s, off) q \<and> (\<forall>v\<in>set vs. s \<le> fst v)"
  using assms(2,3)
proof (induction s arbitrary: off vs rule: numbered_induct [of fs "segment_path prefix"])
  case (3 s)
  from "3.prems"(2) obtain dat where dat: "read_segment fs prefix s = Some dat" by auto
  obtain frs e torn where p: "parse_frames_from_bytes sha dat (nat off) = (frs, e, torn)" by (metis prod_cases3)
  note w = "3.prems"(1) [unfolded walk_loop.simps [of sha fs prefix wm s off]]
  show ?case
  proof (cases "\<not> torn \<and> e = length dat \<and> read_segment fs prefix (s + 1) \<noteq> None")
    case True
    then obtain vs1 where vs1: "walk_loop sha fs prefix wm (s + 1) 0 = Some (vs1, q)" "vs = map (Pair s) frs @ vs1"
      using w dat p by (auto simp: bind_eq_Some_conv)
    have "fs (segment_path prefix s) \<noteq> None" using dat by (simp add: read_segment_def)
    from "3.IH" [OF this vs1(1)] True show ?thesis by (auto simp: pos_le_def vs1(2))
  next
    case False
    then have "vs = map (Pair s) frs" "q = (s, int e)" using w dat p by (auto split: if_splits)
    then show ?thesis using parse_frames_le [OF p] by (auto simp: pos_le_def)
  qed
qed (simp_all add: segment_path_inject fin)

lemma walk_frames_le:
  assumes "finite (dom fs)" "walk_frames sha prefix fs p = Some (vs, q)" "0 \<le> snd p"
  shows "pos_le p q" "v \<in> set vs \<Longrightarrow> fst p \<le> fst v"
proof -
  have "pos_le p q \<and> (\<forall>v\<in>set vs. fst p \<le> fst v)"
  proof (cases "read_segment fs prefix (fst p)")
    case None
    then show ?thesis using assms(2,3) walk_loop.simps [of sha fs prefix p "fst p" "snd p"] by (simp add: walk_frames_def pos_le_def)
  next
    case Some
    then show ?thesis using walk_loop_le [OF assms(1), of sha prefix p "fst p" "snd p" vs q] assms(2) by (simp add: walk_frames_def)
  qed
  then show "pos_le p q" "v \<in> set vs \<Longrightarrow> fst p \<le> fst v" by blast+
qed

lemma hotblk_ge: "finite (dom fs) \<Longrightarrow> walk_hotblk_frames sha prealloc dir fs p = Some (vs, q) \<Longrightarrow> v \<in> set vs \<Longrightarrow> 1 \<le> fst v"
proof -
  assume fin: "finite (dom fs)" and w: "walk_hotblk_frames sha prealloc dir fs p = Some (vs, q)" and v: "v \<in> set vs"
  have "hotblk_loop sha prealloc fs dir s = Some (vs, q) \<Longrightarrow> \<forall>v\<in>set vs. s \<le> fst v" for s vs
  proof (induction s arbitrary: vs rule: numbered_induct [of fs "block_path dir"])
    case (3 s)
    from 3(2) [unfolded hotblk_loop.simps [of sha prealloc fs dir s]] 3(1) show ?case
      by (fastforce simp: bind_eq_Some_conv split: option.splits prod.splits if_splits)
  qed (simp_all add: block_path_inject fin)
  with w v show ?thesis unfolding walk_hotblk_frames_def by fastforce
qed

section \<open>What rebuild and replay compute\<close>

lemma replay_wal_walk:
  assumes "walk_frames sha prefix fs p = Some (vs, q)" "finite (dom fs)" "0 \<le> snd p" "p = (ix_fseg sh, ix_foff sh)"
  shows "replay_wal sha fs prefix p sh =
    Some (sh\<lparr>ix_map := fold wal_visit vs (ix_map sh), ix_fseg := fst q, ix_foff := snd q\<rparr>, length vs)"
  using walk_frames_le(1) [OF assms(2,1,3)] assms(1,4)
  by (cases sh; cases q) (auto simp: replay_wal_def bump_frontier_def pos_le_def)

text \<open>The size test before a replay skips only walks that find nothing.\<close>

lemma no_delta:
  assumes "\<not> wal_has_delta fs prefix p" "0 \<le> snd p"
  shows "walk_frames sha prefix fs p = Some ([], p)"
proof (cases "read_segment fs prefix (fst p)")
  case None
  then show ?thesis using walk_loop.simps [of sha fs prefix p "fst p" "snd p"] by (simp add: walk_frames_def)
next
  case (Some dat)
  with assms have l: "int (length dat) \<le> snd p" "read_segment fs prefix (fst p + 1) = None"
    by (auto simp: wal_has_delta_def segment_len_def read_segment_def)
  then have "\<not> nat (snd p) + 84 \<le> length dat" by linarith
  then have "parse_frames_from_bytes sha dat (nat (snd p)) = ([], nat (snd p), False)"
    by (subst parse_frames_from_bytes.simps) simp
  then show ?thesis using Some l assms(2) walk_loop.simps [of sha fs prefix p "fst p" "snd p"] by (simp add: walk_frames_def)
qed

definition hot_walk :: "(bytes \<Rightarrow> hash256) \<Rightarrow> bool \<Rightarrow> files \<Rightarrow> rstring \<Rightarrow> int \<Rightarrow> (visit list \<times> int) option" where
  "hot_walk sha prealloc fs prefix s =
     (case hotblk_dir_from_wal_prefix prefix of None \<Rightarrow> Some ([], s) | Some dir \<Rightarrow> walk_hotblk_frames sha prealloc dir fs s)"

lemma scan_hotblk_walk:
  "hot_walk sha prealloc fs prefix (ix_hb_seq sh) = Some (hs, k) \<Longrightarrow>
    scan_hotblk sha prealloc fs prefix sh = Some (sh\<lparr>ix_map := fold hotblk_visit hs (ix_map sh), ix_hb_seq := k\<rparr>, length hs)"
  by (auto simp: hot_walk_def scan_hotblk_def split: option.splits)

lemma hot_walk_returns: "finite (dom fs) \<Longrightarrow> \<exists>hs k. hot_walk sha prealloc fs prefix s = Some (hs, k)"
  using walk_hotblk_returns [of fs sha prealloc _ s] by (simp add: hot_walk_def split: option.split)

lemma hot_walk_ge: "finite (dom fs) \<Longrightarrow> hot_walk sha prealloc fs prefix s = Some (hs, k) \<Longrightarrow> v \<in> set hs \<Longrightarrow> 1 \<le> fst v"
  by (auto simp: hot_walk_def dest: hotblk_ge split: option.splits)

lemma do_replay_walk:
  assumes "walk_frames sha prefix fs (ix_fseg sh, ix_foff sh) = Some (vs, q)" "finite (dom fs)" "0 \<le> ix_foff sh"
    and "hot_walk sha prealloc fs prefix (ix_hb_seq sh) = Some (hs, k)"
  shows "do_replay sha prealloc fs prefix sh =
    Some (sh\<lparr>ix_map := fold hotblk_visit hs (fold wal_visit vs (ix_map sh)), ix_fseg := fst q, ix_foff := snd q, ix_hb_seq := k\<rparr>,
      length vs + length hs)"
proof (cases "wal_has_delta fs prefix (ix_fseg sh, ix_foff sh)")
  case True
  let ?sh = "sh\<lparr>ix_map := fold wal_visit vs (ix_map sh), ix_fseg := fst q, ix_foff := snd q\<rparr>"
  have "scan_hotblk sha prealloc fs prefix ?sh =
    Some (?sh\<lparr>ix_map := fold hotblk_visit hs (ix_map ?sh), ix_hb_seq := k\<rparr>, length hs)"
    by (rule scan_hotblk_walk) (simp add: assms(4))
  with True replay_wal_walk [OF assms(1,2) _ refl] assms(3) show ?thesis by (simp add: do_replay_def)
next
  case False
  then have "vs = []" "q = (ix_fseg sh, ix_foff sh)" using no_delta [OF False, of sha] assms(1,3) by simp_all
  with False scan_hotblk_walk [OF assms(4)] show ?thesis by (cases sh) (simp add: do_replay_def)
qed

text \<open>A rebuild, from what the snapshot gave.\<close>

lemma do_rebuild_walk:
  assumes "load_snapshot fs snap Map.empty = (m, wm)" "0 \<le> fst wm" "0 \<le> snd wm"
    and "walk_frames sha prefix fs wm = Some (vs, q)" "finite (dom fs)" "hot_walk sha prealloc fs prefix 1 = Some (hs, k)"
  shows "do_rebuild sha prealloc fs prefix snap (fresh_shard nm) =
    Some (\<lparr>ix_shard = nm, ix_map = fold hotblk_visit hs (fold wal_visit vs m), ix_fseg = fst q, ix_foff = snd q, ix_hb_seq = k\<rparr>,
      length vs + length hs)"
proof -
  let ?sh = "\<lparr>ix_shard = nm, ix_map = m, ix_fseg = fst wm, ix_foff = snd wm, ix_hb_seq = 1\<rparr>"
  let ?sh2 = "?sh\<lparr>ix_map := fold wal_visit vs m, ix_fseg := fst q, ix_foff := snd q\<rparr>"
  have "bump_frontier (fst wm) (snd wm) ((fresh_shard nm)\<lparr>ix_map := m\<rparr>) = ?sh"
    using assms(2,3) by (auto simp: bump_frontier_def fresh_shard_def)
  moreover have "replay_wal sha fs prefix wm ?sh = Some (?sh2, length vs)"
    using replay_wal_walk [OF assms(4,5,3), of ?sh] by simp
  moreover have "scan_hotblk sha prealloc fs prefix ?sh2 =
    Some (?sh2\<lparr>ix_map := fold hotblk_visit hs (ix_map ?sh2), ix_hb_seq := k\<rparr>, length hs)"
    by (rule scan_hotblk_walk) (simp add: assms(6))
  ultimately show ?thesis using assms(1) by (simp add: do_rebuild_def fresh_shard_def)
qed

lemma load_missing: "fs snap = None \<Longrightarrow> load_snapshot fs snap m = (m, (0, 0))"
  by (simp add: load_snapshot_def)


section \<open>Replay is rebuild\<close>

definition visit_key :: "visit \<Rightarrow> rstring" where
  "visit_key v = fr_hash (snd v)"

lemma visit_keys: "dom (wal_visit v m) = insert (visit_key v) (dom m)" "dom (hotblk_visit v m) = insert (visit_key v) (dom m)"
  by (auto simp: wal_visit_def hotblk_visit_def visit_key_def)

lemma visits_commute:
  "visit_key v \<notin> visit_key ` set hs \<Longrightarrow> wal_visit v (fold hotblk_visit hs m) = fold hotblk_visit hs (wal_visit v m)"
  by (induction hs arbitrary: m) (auto simp: wal_visit_def hotblk_visit_def visit_key_def fun_upd_twist)

lemma folds_commute:
  "visit_key ` set vs \<inter> visit_key ` set hs = {} \<Longrightarrow>
    fold wal_visit vs (fold hotblk_visit hs m) = fold hotblk_visit hs (fold wal_visit vs m)"
  by (induction vs arbitrary: m) (auto simp: visits_commute)

definition in_block :: "idx_shard \<Rightarrow> rstring \<Rightarrow> bool" where
  "in_block sh k = (case ix_map sh k of Some (s, _) \<Rightarrow> s < 0 | None \<Rightarrow> False)"

lemma hot_fold_keys:
  "k \<in> visit_key ` set hs \<Longrightarrow> (\<And>v. v \<in> set hs \<Longrightarrow> 1 \<le> fst v) \<Longrightarrow> \<exists>s l. fold hotblk_visit hs m k = Some (s, l) \<and> s < 0"
proof (induction hs rule: rev_induct)
  case (snoc v hs)
  show ?case
  proof (cases "k = visit_key v")
    case True
    then show ?thesis using snoc.prems(2) [of v] by (simp add: hotblk_visit_def visit_key_def)
  next
    case False
    with snoc show ?thesis by (auto simp: hotblk_visit_def visit_key_def)
  qed
qed simp

text \<open>The objects the log gained since a shard was current.\<close>

definition logged_since :: "(bytes \<Rightarrow> hash256) \<Rightarrow> rstring \<Rightarrow> files \<Rightarrow> idx_shard \<Rightarrow> rstring list" where
  "logged_since sha prefix fs sh =
     (case walk_frames sha prefix fs (ix_fseg sh, ix_foff sh) of Some (vs, _) \<Rightarrow> map visit_key vs | None \<Rightarrow> [])"

definition hot_grows :: "(bytes \<Rightarrow> hash256) \<Rightarrow> bool \<Rightarrow> rstring \<Rightarrow> files \<Rightarrow> files \<Rightarrow> bool" where
  "hot_grows sha prealloc prefix fs fs' =
     (case hotblk_dir_from_wal_prefix prefix of None \<Rightarrow> True | Some dir \<Rightarrow> blocks_grow sha prealloc dir fs fs')"

lemma hot_walk_resume:
  assumes "hot_grows sha prealloc prefix fs fs'" "hot_walk sha prealloc fs prefix s = Some (hs, k)"
    "hot_walk sha prealloc fs' prefix k = Some (hs', k')"
  shows "hot_walk sha prealloc fs' prefix s = Some (hs @ hs', k')"
  using assms hb.resume by (auto simp: hot_walk_def hot_grows_def split: option.splits)

lemma rebuild_parts:
  assumes "do_rebuild sha prealloc fs prefix snap (fresh_shard nm) = Some (sh, n)" "fs snap = None" "finite (dom fs)"
  obtains vs q hs k where "walk_frames sha prefix fs (0, 0) = Some (vs, q)" "hot_walk sha prealloc fs prefix 1 = Some (hs, k)"
    "sh = \<lparr>ix_shard = nm, ix_map = fold hotblk_visit hs (fold wal_visit vs Map.empty), ix_fseg = fst q, ix_foff = snd q, ix_hb_seq = k\<rparr>"
    "n = length vs + length hs" "pos_le (0, 0) q"
proof -
  obtain vs q where w: "walk_frames sha prefix fs (0, 0) = Some (vs, q)" using walk_frames_returns [OF assms(3)] by blast
  obtain hs k where h: "hot_walk sha prealloc fs prefix 1 = Some (hs, k)" using hot_walk_returns [OF assms(3)] by blast
  from do_rebuild_walk [OF load_missing [of fs snap, OF assms(2)] _ _ w assms(3) h] assms(1) walk_frames_le(1) [OF assms(3) w] that [OF w h]
  show ?thesis by simp
qed

text \<open>A store of one record, under a prefix that has no blocks.\<close>

definition one_log :: "(bytes \<Rightarrow> hash256) \<Rightarrow> rstring \<Rightarrow> bytes \<times> bytes \<Rightarrow> files" where
  "one_log sha prefix r = [segment_path prefix 0 \<mapsto> frame_of sha r]"

definition one_shard :: "(bytes \<Rightarrow> hash256) \<Rightarrow> rstring \<Rightarrow> bytes \<times> bytes \<Rightarrow> idx_shard" where
  "one_shard sha nm r = \<lparr>ix_shard = nm,
     ix_map = [sha256_hex sha (snd r) \<mapsto> (0, 84 + int (length (fst r)), int (length (snd r)))],
     ix_fseg = 0, ix_foff = int (length (frame_of sha r)), ix_hb_seq = 1\<rparr>"

lemma one_segment_walk:
  assumes "rec_ok sha r" "read_segment fs prefix 0 = Some (frame_of sha r)" "read_segment fs prefix 1 = None"
  shows "walk_frames sha prefix fs (0, 0) =
    Some ([(0, \<lparr>fr_off = 84 + length (fst r), fr_env = fst r, fr_payload = snd r, fr_hash = sha256_hex sha (snd r)\<rparr>)],
      (0, int (length (frame_of sha r))))"
proof -
  have "parse_frames_from_bytes sha (frame_of sha r) 0 = (frames_at sha 0 [r], length (frame_of sha r), False)"
    using frames_at_end [of sha "[r]"] assms by simp
  then show ?thesis
    using walk_loop.simps [of sha fs prefix "(0, 0)" 0 0] assms(2,3) by (simp add: walk_frames_def)
qed

lemma one_log_walk:
  assumes "rec_ok sha r"
  shows "walk_frames sha prefix (one_log sha prefix r) (0, 0) =
    Some ([(0, \<lparr>fr_off = 84 + length (fst r), fr_env = fst r, fr_payload = snd r, fr_hash = sha256_hex sha (snd r)\<rparr>)],
      (0, int (length (frame_of sha r))))"
  using assms by (rule one_segment_walk) (simp_all add: one_log_def read_segment_def segment_path_inject)

lemma one_log_rebuild:
  assumes "rec_ok sha r" "hotblk_dir_from_wal_prefix prefix = None" "snap \<noteq> segment_path prefix 0"
  shows "do_rebuild sha prealloc (one_log sha prefix r) prefix snap (fresh_shard nm) = Some (one_shard sha nm r, 1)"
proof -
  have h: "hot_walk sha prealloc (one_log sha prefix r) prefix 1 = Some ([], 1)" using assms(2) by (simp add: hot_walk_def)
  have l: "load_snapshot (one_log sha prefix r) snap Map.empty = (Map.empty, (0, 0))"
    using assms(3) by (intro load_missing) (simp add: one_log_def)
  have "finite (dom (one_log sha prefix r))" by (simp add: one_log_def)
  from do_rebuild_walk [OF l _ _ one_log_walk [OF assms(1)] this h] show ?thesis
    by (simp add: one_shard_def wal_visit_def)
qed

lemma one_log_grows: "log_grows prefix (one_log sha prefix r) ([segment_path prefix 0 \<mapsto> frame_of sha r @ ext])"
  by (simp add: log_grows_def one_log_def read_segment_def segment_path_inject split: if_splits)

definition demo_sha :: "bytes \<Rightarrow> hash256" where
  "demo_sha b = replicate 31 0 @ [of_nat (length b)]"

definition demo_prefix :: rstring where
  "demo_prefix = lit ''w-''"

definition demo_rec :: "bytes \<times> bytes" where
  "demo_rec = ([116, 9, 49, 9, 55], [120])"

lemma demo_ok: "rec_ok demo_sha demo_rec" "hotblk_dir_from_wal_prefix demo_prefix = None" "lit ''s'' \<noteq> segment_path demo_prefix 0"
  by (simp_all add: rec_ok_def demo_sha_def demo_rec_def demo_prefix_def hotblk_dir_from_wal_prefix_def WAL_DIR_def segment_path_def lit_def)

text \<open>
  C26. A shard that was built from an empty table, and replayed after the store has grown (files of the log only got
  longer, and only the last one; whole blocks stayed), is the shard a rebuild of the grown store gives, its map, frontier
  and next block included, and the two frame counts add up to that of the rebuild: \<open>do_replay\<close> walked exactly the delta,
  the size test before it included. The one condition is that none of the new log frames is of an object the shard found
  in a block.
\<close>

theorem walidx_replay_is_rebuild:
  assumes "log_grows prefix fs fs'" "hot_grows sha prealloc prefix fs fs'" "fs snap = None" "fs' snap = None"
    and "do_rebuild sha prealloc fs prefix snap (fresh_shard nm) = Some (sh, n)"
    and "\<And>k. k \<in> set (logged_since sha prefix fs' sh) \<Longrightarrow> \<not> in_block sh k"
  shows "\<exists>sh' d. do_replay sha prealloc fs' prefix sh = Some (sh', d) \<and>
    do_rebuild sha prealloc fs' prefix snap (fresh_shard nm) = Some (sh', n + d)"
proof -
  have fin: "finite (dom fs)" "finite (dom fs')" using assms(1) by (simp_all add: log_grows_def)
  obtain vs q hs k where w: "walk_frames sha prefix fs (0, 0) = Some (vs, q)" and h: "hot_walk sha prealloc fs prefix 1 = Some (hs, k)"
    and sh: "sh = \<lparr>ix_shard = nm, ix_map = fold hotblk_visit hs (fold wal_visit vs Map.empty), ix_fseg = fst q, ix_foff = snd q, ix_hb_seq = k\<rparr>"
    and n: "n = length vs + length hs" and q: "pos_le (0, 0) q"
    using rebuild_parts [OF assms(5,3) fin(1)] .
  obtain vs' q' where w': "walk_frames sha prefix fs' q = Some (vs', q')" using walk_frames_returns [OF fin(2)] by blast
  obtain hs' k' where h': "hot_walk sha prealloc fs' prefix k = Some (hs', k')" using hot_walk_returns [OF fin(2)] by blast
  have W: "walk_frames sha prefix fs' (0, 0) = Some (vs @ vs', q')" using wal.resume [OF assms(1) w] w' by simp
  note H = hot_walk_resume [OF assms(2) h h']
  have "visit_key v \<notin> visit_key ` set hs" if v: "v \<in> set vs'" for v
  proof
    assume "visit_key v \<in> visit_key ` set hs"
    from hot_fold_keys [OF this hot_walk_ge [OF fin(1) h]] obtain s l where
      "ix_map sh (visit_key v) = Some (s, l)" "s < 0" unfolding sh by force
    then have "in_block sh (visit_key v)" by (simp add: in_block_def)
    moreover have "visit_key v \<in> set (logged_since sha prefix fs' sh)" using v w' by (simp add: logged_since_def sh)
    ultimately show False using assms(6) by blast
  qed
  then have disj: "visit_key ` set vs' \<inter> visit_key ` set hs = {}" by blast
  have "0 \<le> ix_foff sh" using q by (simp add: pos_le_def sh)
  from do_replay_walk [OF _ fin(2) this, of sha prefix vs' q' prealloc hs' k'] w' h'
    do_rebuild_walk [OF load_missing [of fs' snap, OF assms(4)] _ _ W fin(2) H] show ?thesis
    by (simp add: sh n folds_commute [OF disj])
qed

theorem walidx_replay_is_rebuild_witness:
  "\<exists>sh' d. do_replay demo_sha False [segment_path demo_prefix 0 \<mapsto> frame_of demo_sha demo_rec @ frame_of demo_sha ([], [1, 2])]
      demo_prefix (one_shard demo_sha [] demo_rec) = Some (sh', d) \<and>
    do_rebuild demo_sha False [segment_path demo_prefix 0 \<mapsto> frame_of demo_sha demo_rec @ frame_of demo_sha ([], [1, 2])]
      demo_prefix (lit ''s'') (fresh_shard []) = Some (sh', 1 + d)"
proof (rule walidx_replay_is_rebuild)
  show "log_grows demo_prefix (one_log demo_sha demo_prefix demo_rec)
      [segment_path demo_prefix 0 \<mapsto> frame_of demo_sha demo_rec @ frame_of demo_sha ([], [1, 2])]" by (rule one_log_grows)
  show "do_rebuild demo_sha False (one_log demo_sha demo_prefix demo_rec) demo_prefix (lit ''s'') (fresh_shard []) =
      Some (one_shard demo_sha [] demo_rec, 1)" by (rule one_log_rebuild [OF demo_ok])
qed (use demo_ok(2,3) in \<open>simp_all add: hot_grows_def one_log_def one_shard_def in_block_def split: option.split\<close>)

section \<open>Entries lead to their objects\<close>

text \<open>The bytes a location stands for: of a segment, or of the body of the block whose number is stored negated.\<close>

definition slice :: "bytes \<Rightarrow> int \<Rightarrow> int \<Rightarrow> bytes option" where
  "slice b off len = (if 0 \<le> off \<and> 0 \<le> len \<and> nat off + nat len \<le> length b then Some (take (nat len) (drop (nat off) b)) else None)"

definition stored :: "bool \<Rightarrow> rstring \<Rightarrow> files \<Rightarrow> loc \<Rightarrow> bytes option" where
  "stored prealloc prefix fs l =
     (case l of (seg, off, len) \<Rightarrow>
        if 0 \<le> seg then Option.bind (read_segment fs prefix seg) (\<lambda>b. slice b off len)
        else Option.bind (hotblk_dir_from_wal_prefix prefix) (\<lambda>dir.
             Option.bind (fs (block_path dir (- seg))) (\<lambda>dat.
             Option.bind (split_complete prealloc dat) (\<lambda>b. slice b off len))))"

definition resolves :: "(bytes \<Rightarrow> hash256) \<Rightarrow> bool \<Rightarrow> rstring \<Rightarrow> files \<Rightarrow> rstring \<Rightarrow> loc \<Rightarrow> bool" where
  "resolves sha prealloc prefix fs k l = (case stored prealloc prefix fs l of Some p \<Rightarrow> sha256_hex sha p = k | None \<Rightarrow> False)"

lemma frame_at_slice:
  "frame_at sha dat off = Some f \<Longrightarrow>
    slice dat (int (fr_off f)) (int (length (fr_payload f))) = Some (fr_payload f) \<and> sha256_hex sha (fr_payload f) = fr_hash f"
  by (auto simp: frame_at_def Let_def slice_def nat_int_add split: if_splits option.splits)

lemma parse_frames_slice:
  "parse_frames_from_bytes sha dat off = (fs, e, torn) \<Longrightarrow> f \<in> set fs \<Longrightarrow>
    slice dat (int (fr_off f)) (int (length (fr_payload f))) = Some (fr_payload f) \<and> sha256_hex sha (fr_payload f) = fr_hash f"
proof (induction sha dat off arbitrary: fs rule: parse_frames_from_bytes.induct)
  case (1 sha dat off)
  show ?case
  proof (cases "off + 84 \<le> length dat \<and> frame_at sha dat off \<noteq> None")
    case True
    then obtain g where g: "frame_at sha dat off = Some g" by auto
    with True "1.prems"(1) obtain fs0 where fs0: "parse_frames_from_bytes sha dat (frame_end g) = (fs0, e, torn)" "fs = g # fs0"
      unfolding parse_frames_from_bytes.simps [of sha dat off] by (auto split: prod.splits)
    from "1.IH" [OF _ g fs0(1)] True "1.prems"(2) frame_at_slice [OF g] fs0(2) show ?thesis by auto
  next
    case False
    with "1.prems" show ?thesis
      unfolding parse_frames_from_bytes.simps [of sha dat off] by (auto split: if_splits option.splits)
  qed
qed


lemma walk_resolves:
  assumes fin: "finite (dom fs)" and w: "walk_frames sha prefix fs p = Some (vs, q)" and v: "v \<in> set vs"
  shows "resolves sha prealloc prefix fs (visit_key v) (fst v, int (fr_off (snd v)), int (length (fr_payload (snd v)))) \<or> fst v < 0"
proof -
  have "walk_loop sha fs prefix wm s off = Some (vs, q) \<Longrightarrow>
      \<forall>v\<in>set vs. \<exists>dat. read_segment fs prefix (fst v) = Some dat \<and>
        slice dat (int (fr_off (snd v))) (int (length (fr_payload (snd v)))) = Some (fr_payload (snd v)) \<and>
        sha256_hex sha (fr_payload (snd v)) = visit_key v" for wm s off vs
  proof (induction s arbitrary: off vs rule: numbered_induct [of fs "segment_path prefix"])
    case (3 s)
    show ?case
    proof (cases "read_segment fs prefix s")
      case None
      then show ?thesis using 3(2) by (subst (asm) walk_loop.simps) simp
    next
      case (Some dat)
      obtain frs e torn where p: "parse_frames_from_bytes sha dat (nat off) = (frs, e, torn)" by (metis prod_cases3)
      have here: "\<forall>v\<in>Pair s ` set frs. \<exists>dat. read_segment fs prefix (fst v) = Some dat \<and>
          slice dat (int (fr_off (snd v))) (int (length (fr_payload (snd v)))) = Some (fr_payload (snd v)) \<and>
          sha256_hex sha (fr_payload (snd v)) = visit_key v"
        using parse_frames_slice [OF p] Some by (simp add: visit_key_def)
      note w = 3(2) [unfolded walk_loop.simps [of sha fs prefix wm s off]]
      show ?thesis
      proof (cases "\<not> torn \<and> e = length dat \<and> read_segment fs prefix (s + 1) \<noteq> None")
        case True
        then obtain vs1 where vs1: "walk_loop sha fs prefix wm (s + 1) 0 = Some (vs1, q)" "vs = map (Pair s) frs @ vs1"
          using w Some p by (auto simp: bind_eq_Some_conv)
        have "fs (segment_path prefix s) \<noteq> None" using Some by (simp add: read_segment_def)
        from 3(1) [OF this vs1(1)] here show ?thesis unfolding vs1(2) by (simp only: set_append set_map ball_Un)
      next
        case False
        then have "vs = map (Pair s) frs" using w Some p by (auto split: if_splits)
        with here show ?thesis by (simp only: set_map)
      qed
    qed
  qed (simp_all add: segment_path_inject fin)
  from this [OF w [unfolded walk_frames_def]] v obtain dat where "read_segment fs prefix (fst v) = Some dat"
    "slice dat (int (fr_off (snd v))) (int (length (fr_payload (snd v)))) = Some (fr_payload (snd v))"
    "sha256_hex sha (fr_payload (snd v)) = visit_key v" by blast
  then show ?thesis by (simp add: resolves_def stored_def)
qed

lemma hot_walk_resolves:
  assumes fin: "finite (dom fs)" and w: "hot_walk sha prealloc fs prefix s = Some (hs, k)" and v: "v \<in> set hs"
  shows "resolves sha prealloc prefix fs (visit_key v) (- fst v, int (fr_off (snd v)), int (length (fr_payload (snd v))))"
proof -
  from w v obtain dir where dir: "hotblk_dir_from_wal_prefix prefix = Some dir" "walk_hotblk_frames sha prealloc dir fs s = Some (hs, k)"
    by (auto simp: hot_walk_def split: option.splits)
  have "hotblk_loop sha prealloc fs dir i = Some (hs, k) \<Longrightarrow>
      \<forall>v\<in>set hs. \<exists>dat body. fs (block_path dir (fst v)) = Some dat \<and> split_complete prealloc dat = Some body \<and>
        slice body (int (fr_off (snd v))) (int (length (fr_payload (snd v)))) = Some (fr_payload (snd v)) \<and>
        sha256_hex sha (fr_payload (snd v)) = visit_key v" for i hs
  proof (induction i arbitrary: hs rule: numbered_induct [of fs "block_path dir"])
    case (3 i)
    note w = 3(2) [unfolded hotblk_loop.simps [of sha prealloc fs dir i]]
    show ?case
    proof (cases "\<exists>dat body. fs (block_path dir i) = Some dat \<and> split_complete prealloc dat = Some body")
      case False
      then have "hs = []" using w by (auto split: option.splits)
      then show ?thesis by simp
    next
      case True
      then obtain dat body where d: "fs (block_path dir i) = Some dat" "split_complete prealloc dat = Some body" by blast
      obtain frs e torn where p: "parse_frames_from_bytes sha body 0 = (frs, e, torn)" by (metis prod_cases3)
      have here: "\<forall>v\<in>Pair i ` set frs. \<exists>dat body. fs (block_path dir (fst v)) = Some dat \<and> split_complete prealloc dat = Some body \<and>
          slice body (int (fr_off (snd v))) (int (length (fr_payload (snd v)))) = Some (fr_payload (snd v)) \<and>
          sha256_hex sha (fr_payload (snd v)) = visit_key v"
        using parse_frames_slice [OF p] d by (simp add: visit_key_def)
      show ?thesis
      proof (cases "body_is_intact (length body) e torn")
        case True
        then obtain hs1 where hs1: "hotblk_loop sha prealloc fs dir (i + 1) = Some (hs1, k)" "hs = map (Pair i) frs @ hs1"
          using w d p by (auto simp: bind_eq_Some_conv)
        have "fs (block_path dir i) \<noteq> None" using d by simp
        from 3(1) [OF this hs1(1)] here show ?thesis unfolding hs1(2) by (simp only: set_append set_map ball_Un)
      next
        case False
        then have "hs = map (Pair i) frs" using w d p by auto
        with here show ?thesis by (simp only: set_map)
      qed
    qed
  qed (simp_all add: block_path_inject fin)
  from this [OF dir(2) [unfolded walk_hotblk_frames_def]] v obtain dat body where
    "fs (block_path dir (fst v)) = Some dat" "split_complete prealloc dat = Some body"
    "slice body (int (fr_off (snd v))) (int (length (fr_payload (snd v)))) = Some (fr_payload (snd v))"
    "sha256_hex sha (fr_payload (snd v)) = visit_key v" by blast
  then show ?thesis using hot_walk_ge [OF fin w v] by (simp add: resolves_def stored_def dir(1))
qed

definition index_sound :: "(bytes \<Rightarrow> hash256) \<Rightarrow> bool \<Rightarrow> rstring \<Rightarrow> files \<Rightarrow> (rstring \<Rightarrow> loc option) \<Rightarrow> bool" where
  "index_sound sha prealloc prefix fs m \<longleftrightarrow> (\<forall>k l. m k = Some l \<longrightarrow> resolves sha prealloc prefix fs k l)"

lemma index_sound_upd:
  "index_sound sha prealloc prefix fs m \<Longrightarrow> resolves sha prealloc prefix fs k l \<Longrightarrow> index_sound sha prealloc prefix fs (m(k \<mapsto> l))"
  unfolding index_sound_def by (metis fun_upd_apply option.inject)

lemma wal_fold_sound:
  assumes "\<And>v. v \<in> set vs \<Longrightarrow> resolves sha prealloc prefix fs (visit_key v) (fst v, int (fr_off (snd v)), int (length (fr_payload (snd v))))"
  shows "index_sound sha prealloc prefix fs m \<Longrightarrow> index_sound sha prealloc prefix fs (fold wal_visit vs m)"
  using assms by (induction vs arbitrary: m) (auto simp: wal_visit_def visit_key_def intro: index_sound_upd)

lemma hot_fold_sound:
  assumes "\<And>v. v \<in> set vs \<Longrightarrow> resolves sha prealloc prefix fs (visit_key v) (- fst v, int (fr_off (snd v)), int (length (fr_payload (snd v))))"
  shows "index_sound sha prealloc prefix fs m \<Longrightarrow> index_sound sha prealloc prefix fs (fold hotblk_visit vs m)"
  using assms by (induction vs arbitrary: m) (auto simp: hotblk_visit_def visit_key_def intro: index_sound_upd)

text \<open>The stores and the shards over them, from a first rebuild on.\<close>

inductive shard_run :: "(bytes \<Rightarrow> hash256) \<Rightarrow> bool \<Rightarrow> rstring \<Rightarrow> rstring \<Rightarrow> files \<Rightarrow> idx_shard \<Rightarrow> bool"
  for sha prealloc prefix snap where
  built: "finite (dom fs) \<Longrightarrow> fs snap = None \<Longrightarrow> do_rebuild sha prealloc fs prefix snap (fresh_shard nm) = Some (sh, n) \<Longrightarrow>
    shard_run sha prealloc prefix snap fs sh"
| grown: "shard_run sha prealloc prefix snap fs sh \<Longrightarrow> log_grows prefix fs fs' \<Longrightarrow> hot_grows sha prealloc prefix fs fs' \<Longrightarrow>
    shard_run sha prealloc prefix snap fs' sh"
| replayed: "shard_run sha prealloc prefix snap fs sh \<Longrightarrow> do_replay sha prealloc fs prefix sh = Some (sh', n) \<Longrightarrow>
    shard_run sha prealloc prefix snap fs sh'"

lemma slice_append: "slice b off len = Some p \<Longrightarrow> slice (b @ ext) off len = Some p"
  by (auto simp: slice_def split: if_splits)

lemma resolves_grown:
  assumes "resolves sha prealloc prefix fs k l" "log_grows prefix fs fs'" "hot_grows sha prealloc prefix fs fs'"
  shows "resolves sha prealloc prefix fs' k l"
proof -
  obtain seg off len where l: "l = (seg, off, len)" by (cases l)
  from assms(1) obtain p where p: "stored prealloc prefix fs l = Some p" "sha256_hex sha p = k"
    by (auto simp: resolves_def split: option.splits)
  have "stored prealloc prefix fs' l = Some p"
  proof (cases "0 \<le> seg")
    case True
    with p(1) obtain dat where dat: "read_segment fs prefix seg = Some dat" "slice dat off len = Some p"
      by (auto simp: stored_def l bind_eq_Some_conv)
    from log_grows_read [OF assms(2) dat(1)] obtain ext where "read_segment fs' prefix seg = Some (dat @ ext)" by blast
    with True dat(2) show ?thesis by (simp add: stored_def l slice_append)
  next
    case False
    with p(1) obtain dir dat b where d: "hotblk_dir_from_wal_prefix prefix = Some dir" "fs (block_path dir (- seg)) = Some dat"
      "split_complete prealloc dat = Some b" "slice b off len = Some p"
      by (auto simp: stored_def l bind_eq_Some_conv)
    with assms(3) have "fs' (block_path dir (- seg)) = Some dat"
      unfolding hot_grows_def blocks_grow_def by (simp split: if_splits) (metis option.distinct(1))
    with False d show ?thesis by (simp add: stored_def l)
  qed
  with p(2) show ?thesis by (simp add: resolves_def)
qed

text \<open>A shard of a run: the offset of its frontier, and what its walks visit.\<close>

lemma shard_run_finite: "shard_run sha prealloc prefix snap fs sh \<Longrightarrow> finite (dom fs)"
  by (induction rule: shard_run.induct) (simp_all add: log_grows_def)

lemma shard_run_frontier: "shard_run sha prealloc prefix snap fs sh \<Longrightarrow> 0 \<le> ix_fseg sh \<and> 0 \<le> ix_foff sh"
proof (induction rule: shard_run.induct)
  case (built fs nm sh n)
  show ?case by (rule rebuild_parts [OF built(3,2,1)]) (auto simp: pos_le_def)
next
  case (replayed fs sh sh' n)
  note fin = shard_run_finite [OF replayed(1)]
  obtain vs q where w: "walk_frames sha prefix fs (ix_fseg sh, ix_foff sh) = Some (vs, q)" using walk_frames_returns [OF fin] by blast
  obtain hs k where h: "hot_walk sha prealloc fs prefix (ix_hb_seq sh) = Some (hs, k)" using hot_walk_returns [OF fin] by blast
  from do_replay_walk [OF w fin _ h] replayed.hyps(2) replayed.IH walk_frames_le(1) [OF fin w] show ?case
    by (auto simp: pos_le_def)
qed simp

lemma shard_run_sound: "shard_run sha prealloc prefix snap fs sh \<Longrightarrow> index_sound sha prealloc prefix fs (ix_map sh)"
proof (induction rule: shard_run.induct)
  case (built fs nm sh n)
  obtain vs q hs k where w: "walk_frames sha prefix fs (0, 0) = Some (vs, q)" and h: "hot_walk sha prealloc fs prefix 1 = Some (hs, k)"
    and sh: "sh = \<lparr>ix_shard = nm, ix_map = fold hotblk_visit hs (fold wal_visit vs Map.empty), ix_fseg = fst q, ix_foff = snd q, ix_hb_seq = k\<rparr>"
    and nq: "n = length vs + length hs" "pos_le (0, 0) q"
    using rebuild_parts [OF built(3,2,1)] .
  have "index_sound sha prealloc prefix fs (fold wal_visit vs Map.empty)"
  proof (rule wal_fold_sound)
    fix v assume v: "v \<in> set vs"
    have "0 \<le> fst v" using walk_frames_le(2) [OF built(1) w _ v] by simp
    then show "resolves sha prealloc prefix fs (visit_key v) (fst v, int (fr_off (snd v)), int (length (fr_payload (snd v))))"
      using walk_resolves [OF built(1) w v, of prealloc] by auto
  qed (simp add: index_sound_def)
  then show ?case using hot_walk_resolves [OF built(1) h] by (simp add: sh hot_fold_sound)
next
  case (grown fs sh fs')
  then show ?case using resolves_grown unfolding index_sound_def by blast
next
  case (replayed fs sh sh' n)
  note fin = shard_run_finite [OF replayed(1)] and pos = shard_run_frontier [OF replayed(1)]
  obtain vs q where w: "walk_frames sha prefix fs (ix_fseg sh, ix_foff sh) = Some (vs, q)" using walk_frames_returns [OF fin] by blast
  obtain hs k where h: "hot_walk sha prealloc fs prefix (ix_hb_seq sh) = Some (hs, k)" using hot_walk_returns [OF fin] by blast
  have "index_sound sha prealloc prefix fs (fold wal_visit vs (ix_map sh))"
  proof (rule wal_fold_sound)
    fix v assume v: "v \<in> set vs"
    have "0 \<le> fst v" using walk_frames_le(2) [OF fin w _ v] pos by simp
    then show "resolves sha prealloc prefix fs (visit_key v) (fst v, int (fr_off (snd v)), int (length (fr_payload (snd v))))"
      using walk_resolves [OF fin w v, of prealloc] by auto
  qed (rule replayed.IH)
  moreover have "ix_map sh' = fold hotblk_visit hs (fold wal_visit vs (ix_map sh))"
    using do_replay_walk [OF w fin _ h] pos replayed.hyps(2) by simp
  ultimately show ?case using hot_walk_resolves [OF fin h] by (simp add: hot_fold_sound)
qed

text \<open>
  C27. However often the store grows and a shard is replayed, in whatever order, every entry of the shard leads to its
  object: the segment or the complete block it names exists, the extent lies within it, and the bytes there have the
  entry's key as their digest.
\<close>

theorem walidx_entries_resolve:
  assumes "shard_run sha prealloc prefix snap fs sh" "ix_map sh k = Some l"
  shows "\<exists>p. stored prealloc prefix fs l = Some p \<and> sha256_hex sha p = k"
proof -
  have "resolves sha prealloc prefix fs k l" using shard_run_sound [OF assms(1)] assms(2) unfolding index_sound_def by blast
  then show ?thesis by (auto simp: resolves_def split: option.splits)
qed

theorem walidx_entries_resolve_witness:
  "\<exists>p. stored False demo_prefix (one_log demo_sha demo_prefix demo_rec) (0, 89, 1) = Some p \<and>
    sha256_hex demo_sha p = sha256_hex demo_sha [120]"
proof (rule walidx_entries_resolve)
  show "shard_run demo_sha False demo_prefix (lit ''s'') (one_log demo_sha demo_prefix demo_rec) (one_shard demo_sha [] demo_rec)"
    by (rule shard_run.built [OF _ _ one_log_rebuild [OF demo_ok]]) (use demo_ok(3) in \<open>simp_all add: one_log_def\<close>)
  show "ix_map (one_shard demo_sha [] demo_rec) (sha256_hex demo_sha [120]) = Some (0, 89, 1)"
    by (simp add: one_shard_def demo_rec_def)
qed

end
