(* ===== verification/SnapClaims.thy ===== *)
theory SnapClaims
  imports WalClaims
begin

text \<open>
  The snapshot of a content index, the primary-key index beside the content index, and the table of handles.
\<close>

section \<open>Reading a snapshot back\<close>

text \<open>Text that is ASCII, without the tab and the line ends.\<close>

definition plain_byte :: "u8 \<Rightarrow> bool" where
  "plain_byte c \<longleftrightarrow> unat c < 128 \<and> 13 < unat c"

lemma plain_no_tab: "list_all plain_byte s \<Longrightarrow> 9 \<notin> set s"
  by (auto simp: plain_byte_def list_all_iff)

lemma plain_nat_text: "list_all plain_byte (nat_text n)"
  using nat_text_digits by (fastforce simp: plain_byte_def list_all_iff)

lemma plain_int_dec: "list_all plain_byte (int_dec i)"
  using plain_nat_text by (simp add: int_dec_def plain_byte_def)

lemma plain_hex: "list_all plain_byte (sha256_hex sha p)"
  using hex_range_mem by (fastforce simp: plain_byte_def list_all_iff sha256_hex_def)

lemmas no_tab = plain_no_tab [OF plain_int_dec] plain_no_tab [OF plain_nat_text]

text \<open>The lines of a snapshot: plain fields and tabs.\<close>

definition tabbed :: "rstring \<Rightarrow> bool" where
  "tabbed s \<longleftrightarrow> list_all (\<lambda>c. plain_byte c \<or> c = 9) s"

lemma tabbed_no_end: "tabbed l \<Longrightarrow> 10 \<notin> set (map unat l) \<and> (map unat l = [] \<or> List.last (map unat l) \<noteq> 13)"
proof
  assume t: "tabbed l"
  then have r: "c \<in> set l \<Longrightarrow> unat c \<noteq> 10 \<and> unat c \<noteq> 13" for c by (auto simp: tabbed_def plain_byte_def list_all_iff)
  then show "10 \<notin> set (map unat l)" by fastforce
  show "map unat l = [] \<or> List.last (map unat l) \<noteq> 13" using r last_in_set [of l] by (cases "l = []") (auto simp: last_map)
qed

lemma text_lines_tabbed:
  assumes ls: "list_all tabbed ls"
  shows "text_lines (concat (map (\<lambda>l. l @ [10]) ls)) = ls" "utf8_valid (concat (map (\<lambda>l. l @ [10]) ls))"
proof -
  let ?b = "concat (map (\<lambda>l. l @ [10]) ls)"
  have a: "list_all (\<lambda>b. unat b < 128) ?b" using ls
    by (induction ls) (auto simp: tabbed_def plain_byte_def list_all_iff)
  then show "utf8_valid ?b" by (rule ascii_valid)
  have u: "map unat ?b = unlines (map (map unat) ls)" by (induction ls) (simp_all add: unlines_def)
  have "list_all (\<lambda>l. 10 \<notin> set l \<and> (l = [] \<or> List.last l \<noteq> 13)) (map (map unat) ls)"
    using ls tabbed_no_end by (fastforce simp: list_all_iff)
  then have "lines (map unat ?b) = map (map unat) ls" unfolding u by (rule lines_unlines)
  moreover have "map utf8_encode (map (map unat) ls) = ls" using ls
  proof (induction ls)
    case (Cons l ls)
    have "list_all (\<lambda>b. unat b < 128) l" using Cons.prems by (auto simp: tabbed_def plain_byte_def list_all_iff)
    with Cons show ?case by (simp add: utf8_encode_ascii)
  qed simp
  ultimately show "text_lines ?b = ls" by (simp add: text_lines_def ascii_chars [OF a])
qed

lemma split_fields: "9 \<notin> set a \<Longrightarrow> 9 \<notin> set b \<Longrightarrow> 9 \<notin> set c \<Longrightarrow> 9 \<notin> set d \<Longrightarrow>
    split_at 9 (a @ [9] @ b @ [9] @ c @ [9] @ d) = [a, b, c, d]"
  by (simp add: split_at_append split_at_last)

lemma parse_or_int: "i64_range i \<Longrightarrow> parse_or d (int_dec i) = i"
  by (simp add: parse_or_def parse_int_dec)

lemma snap_magic_plain: "list_all plain_byte SNAP_MAGIC"
  by (simp add: SNAP_MAGIC_def lit_def plain_byte_def)

lemma snap_header_read:
  assumes "i64_range (ix_fseg sh)" "i64_range (ix_foff sh)" "0 \<le> ix_fseg sh" "0 \<le> ix_foff sh" "n < 2 ^ 64 - 1"
  shows "snap_header_of (snap_header sh n) = Some ((ix_fseg sh, ix_foff sh), n)"
  using assms no_tab plain_no_tab [OF snap_magic_plain] parse_usize_nat_text [of n]
  by (simp add: snap_header_of_def snap_header_def split_fields parse_or_int Let_def del: append.simps)

lemma snap_line_read:
  assumes "list_all plain_byte k" "i64_range s" "i64_range off" "i64_range len"
  shows "snap_entry_of (snap_line (k, s, off, len)) = (if s < 0 \<or> off < 0 \<or> len < 0 then None else Some (k, s, off, len))"
  using assms no_tab plain_no_tab [OF assms(1)]
  by (simp add: snap_entry_of_def snap_line_def split_fields parse_or_int Let_def del: append.simps)

definition entry_fits :: "rstring \<times> loc \<Rightarrow> bool" where
  "entry_fits e = (case e of (k, s, off, len) \<Rightarrow> list_all plain_byte k \<and> i64_range s \<and> i64_range off \<and> i64_range len \<and> 0 \<le> off \<and> 0 \<le> len)"

lemma stage_lines:
  "list_all entry_fits es \<Longrightarrow>
    stage (map snap_line es) = (if \<exists>e\<in>set es. fst (snd e) < 0 then None else Some es)"
proof (induction es)
  case (Cons e es)
  obtain k s off len where e: "e = (k, s, off, len)" by (metis prod_cases4)
  with Cons.prems have "snap_entry_of (snap_line e) = (if s < 0 then None else Some e)"
    by (auto simp: entry_fits_def snap_line_read)
  with Cons e show ?case by auto
qed simp

lemma snap_tabbed: "entry_fits e \<Longrightarrow> tabbed (snap_line e)" "tabbed (snap_header sh n)"
  using plain_int_dec plain_nat_text snap_magic_plain
  by (auto simp: entry_fits_def snap_line_def snap_header_def tabbed_def list_all_iff split: prod.splits)

lemma fold_upd_distinct: "distinct (map fst es) \<Longrightarrow> fold (\<lambda>(k, l) m. m(k \<mapsto> l)) es m = m ++ map_of es"
proof (induction es arbitrary: m)
  case (Cons e es)
  then have "fst e \<notin> dom (map_of es)" by (simp add: dom_map_of_conv_image_fst)
  with Cons show ?case by (cases e) (simp add: map_add_upd_left map_add_upd del: fun_upd_apply)
qed simp

text \<open>The map of a shard as the list its iterator yields.\<close>

definition entry_list :: "idx_shard \<Rightarrow> (rstring \<times> loc) list \<Rightarrow> bool" where
  "entry_list sh es \<longleftrightarrow> distinct (map fst es) \<and> map_of es = ix_map sh"

lemma entry_list_mem: "entry_list sh es \<Longrightarrow> (k, l) \<in> set es \<longleftrightarrow> ix_map sh k = Some l"
  unfolding entry_list_def by (metis map_of_eq_Some_iff)

lemma entry_list_block:
  assumes "entry_list sh es"
  shows "(\<exists>e\<in>set es. fst (snd e) < 0) \<longleftrightarrow> (\<exists>k. in_block sh k)"
proof
  assume "\<exists>e\<in>set es. fst (snd e) < 0"
  then obtain k s l where "(k, s, l) \<in> set es" "s < 0" by auto
  then have "in_block sh k" using entry_list_mem [OF assms, of k "(s, l)"] by (simp add: in_block_def)
  then show "\<exists>k. in_block sh k" by blast
next
  assume "\<exists>k. in_block sh k"
  then obtain k s l where "ix_map sh k = Some (s, l)" "s < 0" by (auto simp: in_block_def split: option.splits)
  then show "\<exists>e\<in>set es. fst (snd e) < 0" using entry_list_mem [OF assms, of k "(s, l)"] by force
qed

lemma load_snap_body:
  assumes "list_all entry_fits es" "entry_list sh es" "length es < 2 ^ 64 - 1" "fs path = Some (snap_body sh es)"
    and "i64_range (ix_fseg sh)" "i64_range (ix_foff sh)" "0 \<le> ix_fseg sh" "0 \<le> ix_foff sh"
  shows "load_snapshot fs path Map.empty =
    (if \<exists>k. in_block sh k then (Map.empty, (0, 0)) else (ix_map sh, (ix_fseg sh, ix_foff sh)))"
proof -
  have t: "list_all tabbed (snap_header sh (length es) # map snap_line es)"
    using assms(1) snap_tabbed by (auto simp: list_all_iff)
  have b: "(\<exists>e\<in>set es. fst (snd e) < 0) \<longleftrightarrow> (\<exists>k. in_block sh k)" by (rule entry_list_block [OF assms(2)])
  have "load_snapshot fs path Map.empty = (case stage (map snap_line es) of None \<Rightarrow> (Map.empty, (0, 0))
      | Some es' \<Rightarrow> if length es' \<noteq> length es then (Map.empty, (0, 0))
                else (fold (\<lambda>(k, l) m. m(k \<mapsto> l)) es' Map.empty, (ix_fseg sh, ix_foff sh)))"
    using assms text_lines_tabbed [OF t] snap_header_read [OF assms(5-8,3)]
    by (simp add: load_snapshot_def snap_body_def del: concat.simps list.map)
  then show ?thesis using stage_lines [OF assms(1)] assms(2) fold_upd_distinct [of es Map.empty] b
    by (simp add: entry_list_def)
qed


text \<open>What bounds the numbers of a shard to the code's \<open>i64\<close>.\<close>

definition shard_fits :: "idx_shard \<Rightarrow> bool" where
  "shard_fits sh \<longleftrightarrow> i64_range (ix_fseg sh) \<and> i64_range (ix_foff sh) \<and>
     (\<forall>k s off len. ix_map sh k = Some (s, off, len) \<longrightarrow> i64_range s \<and> i64_range off \<and> i64_range len)"

lemma run_entries_fit:
  assumes r: "shard_run sha prealloc prefix snap fs sh" and f: "shard_fits sh" and l: "entry_list sh es"
  shows "list_all entry_fits es"
  unfolding list_all_iff
proof
  fix e assume e: "e \<in> set es"
  obtain k s off len where k: "e = (k, s, off, len)" by (metis prod_cases4)
  with e have m: "ix_map sh k = Some (s, off, len)" using entry_list_mem [OF l] by simp
  from shard_run_sound [OF r] m have "resolves sha prealloc prefix fs k (s, off, len)" unfolding index_sound_def by blast
  then obtain p where p: "stored prealloc prefix fs (s, off, len) = Some p" "sha256_hex sha p = k"
    by (auto simp: resolves_def split: option.splits)
  then have "0 \<le> off \<and> 0 \<le> len"
    by (auto simp: stored_def slice_def bind_eq_Some_conv split: if_splits)
  moreover have "i64_range s \<and> i64_range off \<and> i64_range len" using f m unfolding shard_fits_def by blast
  moreover have "list_all plain_byte k" using p(2) plain_hex by blast
  ultimately show "entry_fits e" by (simp add: entry_fits_def k)
qed

lemma no_block_no_hot:
  assumes "\<not> (\<exists>k. in_block sh k)" "ix_map sh = fold hotblk_visit hs m" "\<And>v. v \<in> set hs \<Longrightarrow> 1 \<le> fst v"
  shows "hs = []"
proof (rule ccontr)
  assume "hs \<noteq> []"
  then have "visit_key (hd hs) \<in> visit_key ` set hs" by simp
  from hot_fold_keys [OF this, of m] assms(3) obtain s l where "fold hotblk_visit hs m (visit_key (hd hs)) = Some (s, l)" "s < 0"
    by blast
  then have "in_block sh (visit_key (hd hs))" by (simp add: in_block_def assms(2))
  with assms(1) show False by blast
qed

text \<open>A snapshot of a shard with an entry of a block is rejected whole when it is read: the reader takes no negative number.\<close>

lemma block_snapshot_rejected:
  assumes "shard_run sha prealloc prefix none fs0 sh" "shard_fits sh" "entry_list sh es" "length es < 2 ^ 64 - 1"
    and "fs path = Some (snap_body sh es)" "in_block sh k"
  shows "load_snapshot fs path Map.empty = (Map.empty, (0, 0))"
  using load_snap_body [of es sh fs path, OF run_entries_fit [OF assms(1-3)] assms(3-5)] assms(2,6) shard_run_frontier [OF assms(1)]
  by (auto simp: shard_fits_def)

text \<open>A snapshot that was damaged into another well-formed one is believed: the entry leads nowhere.\<close>

lemma damaged_snapshot_believed:
  "do_rebuild demo_sha False [lit ''s'' \<mapsto> snap_body ((one_shard demo_sha [] demo_rec)\<lparr>ix_map := [[97] \<mapsto> (0, 7, 1)]\<rparr>) [([97], (0, 7, 1))]]
      demo_prefix (lit ''s'') (fresh_shard []) =
    Some ((one_shard demo_sha [] demo_rec)\<lparr>ix_map := [[97] \<mapsto> (0, 7, 1)]\<rparr>, 0)"
proof -
  let ?sh = "(one_shard demo_sha [] demo_rec)\<lparr>ix_map := [[97] \<mapsto> (0, 7, 1)]\<rparr>"
  let ?fs = "[lit ''s'' \<mapsto> snap_body ?sh [([97], (0, 7, 1))]]"
  have b: "\<not> (\<exists>k. in_block ?sh k)" by (simp add: in_block_def one_shard_def split: option.split)
  have l: "load_snapshot ?fs (lit ''s'') Map.empty = ([[97] \<mapsto> (0, 7, 1)], (0, 90))"
    using load_snap_body [of "[([97], (0, 7, 1))]" ?sh ?fs "lit ''s''"] b frame_of_length [OF demo_ok(1)]
    by (simp add: entry_fits_def plain_byte_def entry_list_def i64_range_def one_shard_def demo_rec_def)
  have "read_segment ?fs demo_prefix 0 = None" using demo_ok(3) by (simp add: read_segment_def)
  then have w: "walk_frames demo_sha demo_prefix ?fs (0, 90) = Some ([], (0, 90))"
    using walk_loop.simps [of demo_sha ?fs demo_prefix "(0, 90)" 0 90] by (simp add: walk_frames_def)
  have h: "hot_walk demo_sha False ?fs demo_prefix 1 = Some ([], 1)" by (simp add: hot_walk_def demo_ok(2))
  from do_rebuild_walk [OF l _ _ w _ h] show ?thesis
    using frame_of_length [OF demo_ok(1)] by (simp add: one_shard_def demo_rec_def)
qed

text \<open>
  C28. A snapshot is disposable. It is written from a shard that was built on some store, in whatever order the map's
  iterator has; the store grows; a rebuild that reads the snapshot gives the same shard as one that does not, and scans
  no more frames.
\<close>

theorem walidx_snapshot_disposable:
  assumes "log_grows prefix fs fs'" "fs none = None" "fs' none = None"
    and "do_rebuild sha prealloc fs prefix none (fresh_shard nm) = Some (sh, n)" "shard_fits sh"
    and "entry_list sh es" "length es < 2 ^ 64 - 1" "fs' snap = Some (snap_body sh es)"
  shows "\<exists>sh' a b. do_rebuild sha prealloc fs' prefix snap (fresh_shard nm) = Some (sh', a) \<and>
    do_rebuild sha prealloc fs' prefix none (fresh_shard nm) = Some (sh', b) \<and> a \<le> b"
proof -
  have fin: "finite (dom fs)" "finite (dom fs')" using assms(1) by (simp_all add: log_grows_def)
  obtain vs q hs k where w: "walk_frames sha prefix fs (0, 0) = Some (vs, q)" and h: "hot_walk sha prealloc fs prefix 1 = Some (hs, k)"
    and sh: "sh = \<lparr>ix_shard = nm, ix_map = fold hotblk_visit hs (fold wal_visit vs Map.empty), ix_fseg = fst q, ix_foff = snd q, ix_hb_seq = k\<rparr>"
    and n: "n = length vs + length hs" and q: "pos_le (0, 0) q"
    using rebuild_parts [OF assms(4,2) fin(1)] .
  have run: "shard_run sha prealloc prefix none fs sh" using assms(2,4) fin(1) by (rule shard_run.built [rotated])
  obtain vs' q' where w': "walk_frames sha prefix fs' q = Some (vs', q')" using walk_frames_returns [OF fin(2)] by blast
  obtain hs' k' where h': "hot_walk sha prealloc fs' prefix 1 = Some (hs', k')" using hot_walk_returns [OF fin(2)] by blast
  have W: "walk_frames sha prefix fs' (0, 0) = Some (vs @ vs', q')" using wal.resume [OF assms(1) w] w' by simp
  note full = do_rebuild_walk [OF _ _ _ W fin(2) h', simplified]
  have q0: "0 \<le> fst q" "0 \<le> snd q" using q by (auto simp: pos_le_def)
  have fr: "ix_fseg sh = fst q" "ix_foff sh = snd q" by (simp_all add: sh)
  note load = load_snap_body [where path = snap and fs = fs', OF run_entries_fit [OF run assms(5,6)] assms(6,7,8)]
  show ?thesis
  proof (cases "\<exists>k. in_block sh k")
    case True
    with load assms(5) q0 have "load_snapshot fs' snap Map.empty = (Map.empty, (0, 0))" by (simp add: shard_fits_def fr)
    from full [OF this] full [OF load_missing [of fs' none, OF assms(3)]] show ?thesis by simp
  next
    case False
    then have "hs = []" using no_block_no_hot [of sh hs] hot_walk_ge [OF fin(1) h] by (simp add: sh)
    moreover have "load_snapshot fs' snap Map.empty = (ix_map sh, q)" using load assms(5) q0 False by (simp add: shard_fits_def fr)
    ultimately have "do_rebuild sha prealloc fs' prefix snap (fresh_shard nm) =
        Some (\<lparr>ix_shard = nm, ix_map = fold hotblk_visit hs' (fold wal_visit vs' (fold wal_visit vs Map.empty)),
          ix_fseg = fst q', ix_foff = snd q', ix_hb_seq = k'\<rparr>, length vs' + length hs')"
      using do_rebuild_walk [OF _ q0 w' fin(2) h', of snap "ix_map sh" nm] by (simp add: sh)
    with full [OF load_missing [of fs' none, OF assms(3)]] show ?thesis by simp
  qed
qed


theorem walidx_snapshot_disposable_witness:
  "\<exists>sh' a b. do_rebuild demo_sha False ([segment_path demo_prefix 0 \<mapsto> frame_of demo_sha demo_rec @ frame_of demo_sha ([], [1, 2]),
        lit ''i'' \<mapsto> snap_body (one_shard demo_sha [] demo_rec) [(sha256_hex demo_sha [120], (0, 89, 1))]])
      demo_prefix (lit ''i'') (fresh_shard []) = Some (sh', a) \<and>
    do_rebuild demo_sha False ([segment_path demo_prefix 0 \<mapsto> frame_of demo_sha demo_rec @ frame_of demo_sha ([], [1, 2]),
        lit ''i'' \<mapsto> snap_body (one_shard demo_sha [] demo_rec) [(sha256_hex demo_sha [120], (0, 89, 1))]])
      demo_prefix (lit ''s'') (fresh_shard []) = Some (sh', b) \<and> a \<le> b"
proof (rule walidx_snapshot_disposable)
  have i: "lit ''i'' \<noteq> segment_path demo_prefix n" for n by (simp add: segment_path_def demo_prefix_def lit_def)
  then show "log_grows demo_prefix (one_log demo_sha demo_prefix demo_rec)
      [segment_path demo_prefix 0 \<mapsto> frame_of demo_sha demo_rec @ frame_of demo_sha ([], [1, 2]),
        lit ''i'' \<mapsto> snap_body (one_shard demo_sha [] demo_rec) [(sha256_hex demo_sha [120], (0, 89, 1))]]"
    using one_log_grows [of demo_prefix demo_sha demo_rec "frame_of demo_sha ([], [1, 2])"]
    unfolding log_grows_def read_segment_def by (simp add: i [symmetric])
  show "do_rebuild demo_sha False (one_log demo_sha demo_prefix demo_rec) demo_prefix (lit ''s'') (fresh_shard []) =
      Some (one_shard demo_sha [] demo_rec, 1)" by (rule one_log_rebuild [OF demo_ok])
  show "shard_fits (one_shard demo_sha [] demo_rec)"
    using frame_of_length [OF demo_ok(1)] by (simp add: shard_fits_def one_shard_def i64_range_def demo_rec_def)
qed (use demo_ok(3) in \<open>simp_all add: one_log_def one_shard_def entry_list_def demo_rec_def lit_inject\<close>)

section \<open>An object in a block and, later, in the log\<close>

definition twice_prefix :: rstring where
  "twice_prefix = lit ''.axverity/wal/s-''"

definition twice_dir :: rstring where
  "twice_dir = lit ''.axverity/hotblocks/s''"

definition twice_fs :: files where
  "twice_fs = [block_path twice_dir 1 \<mapsto> frame_of demo_sha demo_rec @ trailer_for (length (frame_of demo_sha demo_rec))]"

definition twice_fs' :: files where
  "twice_fs' = twice_fs(segment_path twice_prefix 0 \<mapsto> frame_of demo_sha demo_rec)"

definition twice_shard :: "int \<Rightarrow> nat \<Rightarrow> idx_shard" where
  "twice_shard seg e = \<lparr>ix_shard = [], ix_map = [sha256_hex demo_sha [120] \<mapsto> (seg, 89, 1)], ix_fseg = 0, ix_foff = int e, ix_hb_seq = 2\<rparr>"

lemma twice_dir_of: "hotblk_dir_from_wal_prefix twice_prefix = Some twice_dir"
  by (simp add: hotblk_dir_from_wal_prefix_def twice_prefix_def twice_dir_def WAL_DIR_def lit_def)

lemma twice_paths: "block_path twice_dir n \<noteq> segment_path twice_prefix m" "lit ''i'' \<noteq> block_path twice_dir n"
  "lit ''i'' \<noteq> segment_path twice_prefix m"
  by (simp_all add: block_path_def segment_path_def twice_dir_def twice_prefix_def lit_def)

lemma twice_blocks:
  assumes "fs (block_path twice_dir 1) = twice_fs (block_path twice_dir 1)" "fs (block_path twice_dir 2) = None"
  shows "hot_walk demo_sha True fs twice_prefix 1 =
      Some ([(1, \<lparr>fr_off = 89, fr_env = fst demo_rec, fr_payload = [120], fr_hash = sha256_hex demo_sha [120]\<rparr>)], 2)"
    "hot_walk demo_sha True fs twice_prefix 2 = Some ([], 2)"
proof -
  have "length (frame_of demo_sha demo_rec) = 90" using frame_of_length [OF demo_ok(1)] by (simp add: demo_rec_def)
  moreover have "parse_frames_from_bytes demo_sha (frame_of demo_sha demo_rec) 0 =
      (frames_at demo_sha 0 [demo_rec], length (frame_of demo_sha demo_rec), False)"
    using frames_at_end [of demo_sha "[demo_rec]"] demo_ok(1) by simp
  moreover have "hotblk_loop demo_sha True fs twice_dir 2 = Some ([], 2)"
    using assms(2) hotblk_loop.simps [of demo_sha True fs twice_dir 2] by simp
  ultimately show "hot_walk demo_sha True fs twice_prefix 1 =
      Some ([(1, \<lparr>fr_off = 89, fr_env = fst demo_rec, fr_payload = [120], fr_hash = sha256_hex demo_sha [120]\<rparr>)], 2)"
    "hot_walk demo_sha True fs twice_prefix 2 = Some ([], 2)"
    using assms(1) hotblk_loop.simps [of demo_sha True fs twice_dir 1]
      split_complete_whole [of 90 "frame_of demo_sha demo_rec" True]
    by (simp_all add: hot_walk_def twice_dir_of walk_hotblk_frames_def twice_fs_def body_is_intact_def demo_rec_def)
qed

lemma replay_differs_after_block:
  "do_rebuild demo_sha True twice_fs twice_prefix (lit ''i'') (fresh_shard []) = Some (twice_shard (- 1) 0, 1)"
  "do_replay demo_sha True twice_fs' twice_prefix (twice_shard (- 1) 0) = Some (twice_shard 0 90, 1)"
  "do_rebuild demo_sha True twice_fs' twice_prefix (lit ''i'') (fresh_shard []) = Some (twice_shard (- 1) 90, 2)"
proof -
  have fin: "finite (dom twice_fs)" "finite (dom twice_fs')" by (simp_all add: twice_fs_def twice_fs'_def)
  have n: "length (frame_of demo_sha demo_rec) = 90" using frame_of_length [OF demo_ok(1)] by (simp add: demo_rec_def)
  have l: "load_snapshot twice_fs (lit ''i'') Map.empty = (Map.empty, (0, 0))"
    "load_snapshot twice_fs' (lit ''i'') Map.empty = (Map.empty, (0, 0))"
    by (rule load_missing, simp add: twice_fs_def twice_fs'_def twice_paths)+
  have none: "read_segment twice_fs twice_prefix 0 = None" by (simp add: read_segment_def twice_fs_def twice_paths [symmetric])
  have w: "walk_frames demo_sha twice_prefix twice_fs (0, 0) = Some ([], (0, 0))"
    using none walk_loop.simps [of demo_sha twice_fs twice_prefix "(0, 0)" 0 0] by (simp add: walk_frames_def)
  have w': "walk_frames demo_sha twice_prefix twice_fs' (0, 0) =
      Some ([(0, \<lparr>fr_off = 89, fr_env = fst demo_rec, fr_payload = [120], fr_hash = sha256_hex demo_sha [120]\<rparr>)], (0, 90))"
    using one_segment_walk [OF demo_ok(1), of twice_fs' twice_prefix] n
    by (simp add: read_segment_def twice_fs'_def twice_fs_def segment_path_inject twice_paths [symmetric] demo_rec_def)
  have b: "twice_fs (block_path twice_dir 2) = None" "twice_fs' (block_path twice_dir 2) = None"
    "twice_fs' (block_path twice_dir 1) = twice_fs (block_path twice_dir 1)"
    by (simp_all add: twice_fs'_def twice_fs_def block_path_inject twice_paths)
  note h = twice_blocks [OF refl b(1)] and h' = twice_blocks [OF b(3,2)]
  show "do_rebuild demo_sha True twice_fs twice_prefix (lit ''i'') (fresh_shard []) = Some (twice_shard (- 1) 0, 1)"
    using do_rebuild_walk [OF l(1) _ _ w fin(1) h(1)] by (simp add: twice_shard_def hotblk_visit_def)
  show "do_replay demo_sha True twice_fs' twice_prefix (twice_shard (- 1) 0) = Some (twice_shard 0 90, 1)"
    using do_replay_walk [of demo_sha twice_prefix twice_fs' "twice_shard (- 1) 0", OF _ fin(2), of _ _ True "[]" 2] w' h'(2)
    by (simp add: twice_shard_def wal_visit_def)
  show "do_rebuild demo_sha True twice_fs' twice_prefix (lit ''i'') (fresh_shard []) = Some (twice_shard (- 1) 90, 2)"
    using do_rebuild_walk [OF l(2) _ _ w' fin(2) h'(1)] by (simp add: twice_shard_def hotblk_visit_def wal_visit_def)
qed

section \<open>Bindings\<close>

lemma fold_pk_last:
  assumes "fold pk_visit vs Map.empty nm = Some a"
  shows "\<exists>vs1 v vs2. vs = vs1 @ v # vs2 \<and> env_to_name (fr_env (snd v)) = Some nm \<and> a = lit ''sha256:'' @ visit_key v \<and>
    (\<forall>u\<in>set vs2. env_to_name (fr_env (snd u)) \<noteq> Some nm)"
  using assms
proof (induction vs rule: rev_induct)
  case (snoc v vs)
  show ?case
  proof (cases "env_to_name (fr_env (snd v)) = Some nm")
    case True
    with snoc.prems show ?thesis by (intro exI [of _ vs] exI [of _ v] exI [of _ "[]"]) (simp add: pk_visit_def visit_key_def)
  next
    case False
    then have "pk_visit v m nm = m nm" for m by (simp add: pk_visit_def split: option.split)
    then have "fold pk_visit vs Map.empty nm = Some a" using snoc.prems by simp
    from snoc.IH [OF this] obtain vs1 u vs2 where "vs = vs1 @ u # vs2" "env_to_name (fr_env (snd u)) = Some nm"
      "a = lit ''sha256:'' @ visit_key u" "\<forall>u\<in>set vs2. env_to_name (fr_env (snd u)) \<noteq> Some nm" by blast
    with False show ?thesis by (intro exI [of _ vs1] exI [of _ u] exI [of _ "vs2 @ [v]"]) simp
  qed
qed simp

lemma dom_folds: "dom (fold wal_visit vs m) = visit_key ` set vs \<union> dom m" "dom (fold hotblk_visit vs m) = visit_key ` set vs \<union> dom m"
  by (induction vs arbitrary: m) (simp_all add: visit_keys)

text \<open>
  C29. The two indexes agree on what is durable: what a freshly opened and rebuilt primary-key index returns for a name is
  the digest of the last frame of the log whose envelope names it, and the content index rebuilt over the same store has
  an entry for that digest that leads to bytes with that digest. A torn frame is in neither.
\<close>

theorem pk_binding_resolves:
  assumes "finite (dom fs)" "fs snap = None"
    and "pkidx_rebuild sha fs (fst (pkidx_open nm t)) prefix (snd (pkidx_open nm t)) = Some (Inr (t', n))"
    and "pkidx_get (fst (pkidx_open nm t)) name t' = Inr a" "a \<noteq> []"
    and "do_rebuild sha prealloc fs prefix snap (fresh_shard nm') = Some (sh, m)"
  shows "\<exists>vs1 v vs2 q l p. walk_frames sha prefix fs (0, 0) = Some (vs1 @ v # vs2, q) \<and>
    env_to_name (fr_env (snd v)) = Some name \<and> list_all (\<lambda>u. env_to_name (fr_env (snd u)) \<noteq> Some name) vs2 \<and>
    a = lit ''sha256:'' @ visit_key v \<and> ix_map sh (visit_key v) = Some l \<and>
    stored prealloc prefix fs l = Some p \<and> sha256_hex sha p = visit_key v"
proof -
  obtain vs q hs k where w: "walk_frames sha prefix fs (0, 0) = Some (vs, q)" and h: "hot_walk sha prealloc fs prefix 1 = Some (hs, k)"
    and sh: "sh = \<lparr>ix_shard = nm', ix_map = fold hotblk_visit hs (fold wal_visit vs Map.empty), ix_fseg = fst q, ix_foff = snd q, ix_hb_seq = k\<rparr>"
    and m: "m = length vs + length hs" "pos_le (0, 0) q"
    using rebuild_parts [OF assms(6,2,1)] .
  have "fold pk_visit vs Map.empty name = Some a"
    using assms(3-5) w by (auto simp: pkidx_rebuild_def pkidx_open_def pkidx_get_def split: option.splits)
  from fold_pk_last [OF this] obtain vs1 v vs2 where v: "vs = vs1 @ v # vs2" "env_to_name (fr_env (snd v)) = Some name"
    "a = lit ''sha256:'' @ visit_key v" "\<forall>u\<in>set vs2. env_to_name (fr_env (snd u)) \<noteq> Some name" by blast
  have "visit_key v \<in> visit_key ` set vs" by (simp add: v(1))
  then have "visit_key v \<in> dom (ix_map sh)" by (simp add: sh dom_folds)
  then obtain l where l: "ix_map sh (visit_key v) = Some l" by blast
  have "shard_run sha prealloc prefix snap fs sh" using assms(1,2,6) by (rule shard_run.built)
  from shard_run_sound [OF this] l have "resolves sha prealloc prefix fs (visit_key v) l" unfolding index_sound_def by blast
  then obtain p where "stored prealloc prefix fs l = Some p" "sha256_hex sha p = visit_key v"
    by (auto simp: resolves_def split: option.splits)
  with w v l show ?thesis unfolding list_all_iff by blast
qed

theorem pk_binding_resolves_witness:
  "\<exists>vs1 v vs2 q l p. walk_frames demo_sha demo_prefix (one_log demo_sha demo_prefix demo_rec) (0, 0) = Some (vs1 @ v # vs2, q) \<and>
    env_to_name (fr_env (snd v)) = Some [116, 58, 55] \<and> list_all (\<lambda>u. env_to_name (fr_env (snd u)) \<noteq> Some [116, 58, 55]) vs2 \<and>
    lit ''sha256:'' @ sha256_hex demo_sha [120] = lit ''sha256:'' @ visit_key v \<and>
    ix_map (one_shard demo_sha [] demo_rec) (visit_key v) = Some l \<and>
    stored False demo_prefix (one_log demo_sha demo_prefix demo_rec) l = Some p \<and> sha256_hex demo_sha p = visit_key v"
proof (rule pk_binding_resolves)
  let ?t = "\<lparr>px_idx = Map.empty, px_next = 1\<rparr>"
  have env: "env_to_name (fst demo_rec) = Some [116, 58, 55]" by code_simp
  show "pkidx_rebuild demo_sha (one_log demo_sha demo_prefix demo_rec) (fst (pkidx_open [] ?t)) demo_prefix (snd (pkidx_open [] ?t)) =
      Some (Inr (\<lparr>px_idx = [1 \<mapsto> \<lparr>pk_name = [], pk_map = [[116, 58, 55] \<mapsto> lit ''sha256:'' @ sha256_hex demo_sha [120]]\<rparr>],
        px_next = 2\<rparr>, 1))"
    using one_log_walk [OF demo_ok(1)] env by (simp add: pkidx_rebuild_def pkidx_open_def pk_visit_def) (simp add: demo_rec_def)
  show "do_rebuild demo_sha False (one_log demo_sha demo_prefix demo_rec) demo_prefix (lit ''s'') (fresh_shard []) =
      Some (one_shard demo_sha [] demo_rec, 1)" by (rule one_log_rebuild [OF demo_ok])
qed (use demo_ok(3) in \<open>simp_all add: one_log_def pkidx_get_def pkidx_open_def lit_def\<close>)

section \<open>Handles\<close>

text \<open>The tables of a thread after any sequence of operations; \<open>op\<close> holds the handles its caller opened.\<close>

inductive walidx_runs :: "walidx \<Rightarrow> int set \<Rightarrow> bool" where
  init: "walidx_runs walidx_init {}"
| opened: "walidx_runs t opn \<Longrightarrow> walidx_open shard t = (h, t') \<Longrightarrow> walidx_runs t' (insert h opn)"
| inserted: "walidx_runs t opn \<Longrightarrow> walidx_insert h key seg off len t = Inr t' \<Longrightarrow> walidx_runs t' opn"
| rebuilt: "walidx_runs t opn \<Longrightarrow> walidx_rebuild sha prealloc fs h prefix snap t = Some (Inr (t', n)) \<Longrightarrow> walidx_runs t' opn"
| replayed: "walidx_runs t opn \<Longrightarrow> walidx_replay sha prealloc fs h prefix t = Some (Inr (t', n)) \<Longrightarrow> walidx_runs t' opn"
| res_got: "walidx_runs t opn \<Longrightarrow> walidx_res_get sha prealloc fs shard prefix snap key t = Some (Inr (t', a)) \<Longrightarrow> walidx_runs t' opn"
| res_scoped: "walidx_runs t opn \<Longrightarrow> walidx_runs (walidx_res_scope which t) opn"

definition handles_ok :: "walidx \<Rightarrow> int set \<Rightarrow> bool" where
  "handles_ok t opn \<longleftrightarrow> dom (wx_idx t) = opn \<union> ran (wx_resident t) \<and> opn \<inter> ran (wx_resident t) = {} \<and>
     (\<forall>h\<in>dom (wx_idx t). h < wx_next t)"

lemma handles_ok_upd:
  "handles_ok t opn \<Longrightarrow> wx_idx t h = Some sh \<Longrightarrow> handles_ok (t\<lparr>wx_idx := (wx_idx t)(h \<mapsto> sh')\<rparr>) opn"
  by (auto simp: handles_ok_def)

lemma ran_new: "m k = None \<Longrightarrow> ran (m(k \<mapsto> v)) = insert v (ran m)"
  by (rule ran_map_upd)

lemma handles_below:
  assumes "handles_ok t opn"
  shows "\<forall>h\<in>dom (wx_idx t). h < wx_next t + 1"
proof
  fix h assume "h \<in> dom (wx_idx t)"
  with assms have "h < wx_next t" unfolding handles_ok_def by blast
  then show "h < wx_next t + 1" by simp
qed

lemma handles_ok_new:
  assumes "handles_ok t opn" "wx_resident t shard = None"
  shows "handles_ok (t\<lparr>wx_next := wx_next t + 1, wx_idx := (wx_idx t)(wx_next t \<mapsto> sh),
    wx_resident := (wx_resident t)(shard \<mapsto> wx_next t)\<rparr>) opn"
proof -
  have "wx_next t \<notin> opn" using assms(1) by (auto simp: handles_ok_def)
  moreover note handles_below [OF assms(1)]
  ultimately show ?thesis using assms by (simp add: handles_ok_def ran_new)
qed

lemma walidx_runs_ok: "walidx_runs t opn \<Longrightarrow> handles_ok t opn"
proof (induction rule: walidx_runs.induct)
  case (res_got t opn sha prealloc fs shard prefix snap key t' a)
  show ?case
  proof (cases "wx_resident t shard")
    case None
    let ?t = "t\<lparr>wx_next := wx_next t + 1, wx_idx := (wx_idx t)(wx_next t \<mapsto> fresh_shard shard),
      wx_resident := (wx_resident t)(shard \<mapsto> wx_next t)\<rparr>"
    have ok: "handles_ok ?t opn" and mem: "wx_idx ?t (wx_next t) = Some (fresh_shard shard)"
      using handles_ok_new [OF res_got.IH None] by simp_all
    from None res_got.hyps(2) obtain sh where "t' = ?t\<lparr>wx_idx := (wx_idx ?t)(wx_next t \<mapsto> sh)\<rparr>"
      by (auto simp: walidx_res_get_def next_handle_def)
    with handles_ok_upd [OF ok mem] show ?thesis by (simp only:)
  next
    case (Some h)
    then have "h \<in> dom (wx_idx t)" using res_got.IH by (auto simp: handles_ok_def intro: ranI)
    with Some res_got show ?thesis by (auto simp: walidx_res_get_def intro: handles_ok_upd)
  qed
next
  case (opened t opn shard h t')
  have "wx_next t \<notin> ran (wx_resident t)" using opened.IH by (auto simp: handles_ok_def)
  moreover note handles_below [OF opened.IH]
  moreover have "h = wx_next t" "t' = t\<lparr>wx_next := wx_next t + 1, wx_idx := (wx_idx t)(wx_next t \<mapsto> fresh_shard shard)\<rparr>"
    using opened.hyps(2) by (auto simp: walidx_open_def next_handle_def)
  ultimately show ?case using opened.IH by (simp add: handles_ok_def)
next
  case (inserted t opn h key seg off len t')
  then show ?case by (auto simp: walidx_insert_def intro: handles_ok_upd split: option.splits)
next
  case (rebuilt t opn sha prealloc fs h prefix snap t' n)
  then show ?case by (auto simp: walidx_rebuild_def intro: handles_ok_upd split: option.splits)
next
  case (replayed t opn sha prealloc fs h prefix t' n)
  then show ?case by (auto simp: walidx_replay_def intro: handles_ok_upd split: option.splits)
next
  case (res_scoped t opn which)
  then show ?case by (auto simp: walidx_res_scope_def handles_ok_def)
qed (simp add: walidx_init_def handles_ok_def)

text \<open>
  C30. After any sequence of operations of a thread, a resident lookup does not panic: the shard of a resident handle is
  there, whatever was opened or reset before. The table holds just the shards that were opened explicitly and the resident
  ones, and the reset at the start of a query leaves just the former: nothing leaks.
\<close>

theorem resident_handles_live:
  assumes "walidx_runs t opn"
  shows "walidx_res_get sha prealloc fs shard prefix snap key t \<noteq> Some (Inl e) \<and>
    dom (wx_idx t) = opn \<union> ran (wx_resident t) \<and>
    dom (wx_idx (walidx_res_scope (lit ''query'') t)) = opn \<and> ran (wx_resident (walidx_res_scope (lit ''query'') t)) = {}"
proof -
  have ok: "handles_ok t opn" using assms by (rule walidx_runs_ok)
  have "wx_resident t shard = Some h \<Longrightarrow> wx_idx t h \<noteq> None" for h using ok by (auto simp: handles_ok_def intro: ranI)
  then show ?thesis using ok
    by (auto simp: walidx_res_get_def next_handle_def walidx_res_scope_def residency_mode_def handles_ok_def split: option.splits)
qed

theorem resident_handles_live_witness:
  "walidx_res_get demo_sha False (one_log demo_sha demo_prefix demo_rec) [] demo_prefix (lit ''s'') [] (snd (walidx_open [] walidx_init))
      \<noteq> Some (Inl (ResidentVanished 1)) \<and>
    dom (wx_idx (snd (walidx_open [] walidx_init))) = {1} \<union> ran (wx_resident (snd (walidx_open [] walidx_init))) \<and>
    dom (wx_idx (walidx_res_scope (lit ''query'') (snd (walidx_open [] walidx_init)))) = {1} \<and>
    ran (wx_resident (walidx_res_scope (lit ''query'') (snd (walidx_open [] walidx_init)))) = {}"
proof (rule resident_handles_live)
  have "walidx_runs (snd (walidx_open [] walidx_init)) (insert 1 {})"
    by (rule walidx_runs.opened [OF walidx_runs.init, of "[]"]) (simp add: walidx_open_def next_handle_def walidx_init_def)
  then show "walidx_runs (snd (walidx_open [] walidx_init)) {1}" by simp
qed

end
