(* ===== verification/FieldRules.thy ===== *)
theory FieldRules
  imports FieldIndex SnapClaims
begin

text \<open>
  An index over the log as an interface: what its rebuild and its replay do in terms of the two walks. Every such index is
  brought up to date by a replay; the content index and the field index are interpretations.
\<close>

section \<open>Projections\<close>

locale projection =
  fixes sha :: "bytes \<Rightarrow> hash256" and prealloc :: bool and prefix :: rstring
    and no_snapshot :: "files \<Rightarrow> bool"
    and rebuild :: "files \<Rightarrow> ('s \<times> nat) option"
    and replay :: "files \<Rightarrow> 's \<Rightarrow> ('s \<times> nat) option"
    and make :: "'m \<Rightarrow> wal_pos \<Rightarrow> int \<Rightarrow> 's"
    and wv hv :: "visit \<Rightarrow> 'm \<Rightarrow> 'm"
    and start :: 'm
  assumes rebuild_walk: "finite (dom fs) \<Longrightarrow> no_snapshot fs \<Longrightarrow> walk_frames sha prefix fs (0, 0) = Some (vs, q) \<Longrightarrow>
      hot_walk sha prealloc fs prefix 1 = Some (hs, k) \<Longrightarrow>
      rebuild fs = Some (make (fold hv hs (fold wv vs start)) q k, length vs + length hs)"
    and replay_walk: "finite (dom fs) \<Longrightarrow> walk_frames sha prefix fs p = Some (vs, q) \<Longrightarrow> 0 \<le> snd p \<Longrightarrow>
      hot_walk sha prealloc fs prefix i = Some (hs, k) \<Longrightarrow>
      replay fs (make m p i) = Some (make (fold hv hs (fold wv vs m)) q k, length vs + length hs)"
begin

lemma rebuild_known:
  assumes "finite (dom fs)" "no_snapshot fs" "rebuild fs = Some (sh, n)"
  obtains vs q hs k where "walk_frames sha prefix fs (0, 0) = Some (vs, q)" "hot_walk sha prealloc fs prefix 1 = Some (hs, k)"
    "sh = make (fold hv hs (fold wv vs start)) q k" "n = length vs + length hs" "0 \<le> snd q"
proof -
  obtain vs q where w: "walk_frames sha prefix fs (0, 0) = Some (vs, q)" using walk_frames_returns [OF assms(1)] by blast
  obtain hs k where h: "hot_walk sha prealloc fs prefix 1 = Some (hs, k)" using hot_walk_returns [OF assms(1)] by blast
  show ?thesis using rebuild_walk [OF assms(1,2) w h] assms(3) walk_frames_le(1) [OF assms(1) w] that [OF w h]
    by (simp add: pos_le_def)
qed

text \<open>Where the new frames of the log and the old frames of the blocks commute, a replay gives what a rebuild gives.\<close>

lemma replay_is_rebuild:
  assumes g: "log_grows prefix fs fs'" "hot_grows sha prealloc prefix fs fs'" and s: "no_snapshot fs" "no_snapshot fs'"
    and r: "rebuild fs = Some (sh, n)"
    and c: "\<And>vs q hs k vs' q'. walk_frames sha prefix fs (0, 0) = Some (vs, q) \<Longrightarrow> hot_walk sha prealloc fs prefix 1 = Some (hs, k) \<Longrightarrow>
      walk_frames sha prefix fs' q = Some (vs', q') \<Longrightarrow> sh = make (fold hv hs (fold wv vs start)) q k \<Longrightarrow>
      fold wv vs' (fold hv hs (fold wv vs start)) = fold hv hs (fold wv vs' (fold wv vs start))"
  shows "\<exists>sh' d. replay fs' sh = Some (sh', d) \<and> rebuild fs' = Some (sh', n + d)"
proof -
  have fin: "finite (dom fs)" "finite (dom fs')" using g(1) by (simp_all add: log_grows_def)
  obtain vs q hs k where w: "walk_frames sha prefix fs (0, 0) = Some (vs, q)" and h: "hot_walk sha prealloc fs prefix 1 = Some (hs, k)"
    and sh: "sh = make (fold hv hs (fold wv vs start)) q k" and n: "n = length vs + length hs" and q: "0 \<le> snd q"
    using rebuild_known [OF fin(1) s(1) r] .
  obtain vs' q' where w': "walk_frames sha prefix fs' q = Some (vs', q')" using walk_frames_returns [OF fin(2)] by blast
  obtain hs' k' where h': "hot_walk sha prealloc fs' prefix k = Some (hs', k')" using hot_walk_returns [OF fin(2)] by blast
  have W: "walk_frames sha prefix fs' (0, 0) = Some (vs @ vs', q')" using wal.resume [OF g(1) w] w' by simp
  note H = hot_walk_resume [OF g(2) h h']
  from replay_walk [OF fin(2) w' q h'] rebuild_walk [OF fin(2) s(2) W H] c [OF w h w' sh] show ?thesis
    by (simp add: sh n)
qed

end

interpretation content: projection sha prealloc prefix "\<lambda>fs. fs snap = None"
  "\<lambda>fs. do_rebuild sha prealloc fs prefix snap (fresh_shard nm)" "\<lambda>fs. do_replay sha prealloc fs prefix"
  "\<lambda>m q k. \<lparr>ix_shard = nm, ix_map = m, ix_fseg = fst q, ix_foff = snd q, ix_hb_seq = k\<rparr>" wal_visit hotblk_visit Map.empty
  for sha prealloc prefix snap nm
  by unfold_locales (use do_rebuild_walk [OF load_missing] do_replay_walk in auto)

section \<open>The field index\<close>









section \<open>Postings\<close>

text \<open>No posting list names a record twice.\<close>

definition postings_ok :: "postings \<Rightarrow> bool" where
  "postings_ok m \<longleftrightarrow> (\<forall>k l. m k = Some l \<longrightarrow> distinct l)"

lemma add_posting_ok: "postings_ok m \<Longrightarrow> postings_ok (add_posting k h m)"
  by (auto simp: postings_ok_def add_posting_def push_dedup_def split: option.splits)

lemma index_cells_ok: "postings_ok m \<Longrightarrow> postings_ok (index_cells addr cells m)"
  by (induction addr cells m rule: index_cells.induct) (auto simp: add_posting_ok split: option.splits)

lemma field_visit_ok: "postings_ok m \<Longrightarrow> postings_ok (field_visit v m)"
  by (auto simp: field_visit_def index_payload_def index_cells_ok add_posting_ok split: list.splits)

lemma field_visits_ok: "postings_ok m \<Longrightarrow> postings_ok (fold field_visit vs m)"
  by (induction vs arbitrary: m) (simp_all add: field_visit_ok)

section \<open>The reader of the recovery gate\<close>

definition recover_pk :: "wal_frame \<Rightarrow> (rstring \<Rightarrow> rstring option) \<Rightarrow> (rstring \<Rightarrow> rstring option)" where
  "recover_pk f m = (case env_to_name (fr_env f) of Some nm \<Rightarrow> m(nm \<mapsto> lit ''sha256:'' @ fr_hash f) | None \<Rightarrow> m)"

lemma recover_visits:
  "rs_hashes (fold recover_visit frs sh) = fr_hash ` set frs \<union> rs_hashes sh"
  "rs_pk (fold recover_visit frs sh) = fold recover_pk frs (rs_pk sh)"
  "rs_frames (fold recover_visit frs sh) = length frs + rs_frames sh"
  "rs_dir (fold recover_visit frs sh) = rs_dir sh"
  by (induction frs arbitrary: sh) (auto simp: recover_visit_def recover_pk_def split: option.splits)

lemma recover_loop_walk:
  assumes fin: "finite (dom fs)" and w: "hotblk_loop sha prealloc fs dir s = Some (vs, q)" and d: "rs_dir sh = dir"
  shows "\<exists>sh'. recover_loop sha prealloc fs s sh = Some sh' \<and> rs_hashes sh' = visit_key ` set vs \<union> rs_hashes sh \<and>
    rs_pk sh' = fold pk_visit vs (rs_pk sh) \<and> rs_frames sh' = length vs + rs_frames sh"
  using w d
proof (induction s arbitrary: vs sh rule: numbered_induct [of fs "block_path dir"])
  case (3 s)
  have pk: "fold pk_visit (map (Pair s) frs) m = fold recover_pk frs m" for frs m
    by (induction frs arbitrary: m) (simp_all add: pk_visit_def recover_pk_def split: option.split)
  note w = 3(2) [unfolded hotblk_loop.simps [of sha prealloc fs dir s]]
  show ?case
  proof (cases "\<exists>dat body. fs (block_path dir s) = Some dat \<and> split_complete prealloc dat = Some body")
    case False
    then have "vs = []" using w by (auto split: option.splits)
    moreover have "recover_loop sha prealloc fs s sh = Some sh" using False 3(3) by (subst recover_loop.simps) (auto split: option.splits)
    ultimately show ?thesis by simp
  next
    case True
    then obtain dat body where dat: "fs (block_path dir s) = Some dat" "split_complete prealloc dat = Some body" by blast
    obtain frs e torn where p: "parse_frames_from_bytes sha body 0 = (frs, e, torn)" by (metis prod_cases3)
    let ?sh = "fold recover_visit frs (sh\<lparr>rs_blocks := rs_blocks sh + 1\<rparr>)"
    show ?thesis
    proof (cases "body_is_intact (length body) e torn")
      case True
      then obtain vs1 where vs1: "hotblk_loop sha prealloc fs dir (s + 1) = Some (vs1, q)" "vs = map (Pair s) frs @ vs1"
        using w dat p by (auto simp: bind_eq_Some_conv)
      have "fs (block_path dir s) \<noteq> None" "rs_dir ?sh = dir" using dat 3(3) by (simp_all add: recover_visits)
      from 3(1) [OF this(1) vs1(1) this(2)] obtain sh' where "recover_loop sha prealloc fs (s + 1) ?sh = Some sh'"
        "rs_hashes sh' = visit_key ` set vs1 \<union> rs_hashes ?sh" "rs_pk sh' = fold pk_visit vs1 (rs_pk ?sh)"
        "rs_frames sh' = length vs1 + rs_frames ?sh" by blast
      moreover have "recover_loop sha prealloc fs s sh = recover_loop sha prealloc fs (s + 1) ?sh"
        using dat p True 3(3) by (subst recover_loop.simps) simp
      moreover have "visit_key ` set vs = fr_hash ` set frs \<union> visit_key ` set vs1"
        by (simp add: vs1(2) image_Un image_image visit_key_def)
      moreover have "fold pk_visit vs m = fold pk_visit vs1 (fold recover_pk frs m)" for m
        by (simp add: vs1(2) pk)
      ultimately show ?thesis by (simp add: vs1(2) recover_visits Un_ac)
    next
      case False
      then have "vs = map (Pair s) frs" using w dat p by auto
      moreover have "recover_loop sha prealloc fs s sh = Some ?sh" using dat p False 3(3) by (subst recover_loop.simps) simp
      ultimately show ?thesis by (simp add: recover_visits pk visit_key_def image_image)
    qed
  qed
qed (simp_all add: block_path_inject fin)

text \<open>The reader of the recovery gate and the live indexes see the same frames of the hot tier.\<close>

lemma recover_agrees_with_walk:
  assumes "finite (dom fs)" "walk_hotblk_frames sha prealloc dir fs 1 = Some (vs, q)"
  shows "\<exists>sh. hotblk_recover_rebuild sha prealloc fs (hotblk_recover_open dir) = Some sh \<and> rs_hashes sh = visit_key ` set vs \<and>
    rs_pk sh = fold pk_visit vs Map.empty \<and> rs_frames sh = length vs"
  using recover_loop_walk [OF assms(1), of sha prealloc dir 1 vs q "hotblk_recover_open dir"] assms(2)
  by (simp add: walk_hotblk_frames_def hotblk_recover_rebuild_def hotblk_recover_open_def)

end
