(* ===== verification/Mpsc.thy ===== *)
theory Mpsc
  imports Prelude
begin

text \<open>
  The lock-free queue of \<open>src/src/runtime/mpsc_intrusive.rs\<close>: many producers, one consumer. The heap is explicit: a node is
  at an address, a freed address may be allocated again, and an access to a freed node is a fault. Every access to shared
  memory is one step and the steps of all threads interleave (sequentially consistent, which is what the fences and
  orderings of the code are there for). The handle in \<open>waiter\<close> and the token of \<open>park\<close> are flags. \<open>q_pushed\<close> and
  \<open>q_popped\<close> record what was put in, in the order of the swaps, and what was taken out.
\<close>

section \<open>State\<close>

record 'a mq_node =
  nd_next :: "nat option"
  nd_value :: "'a option"

text \<open>The next access of a producer.\<close>

datatype producer =
    PIdle
  | PSwap nat
  | PLink nat nat
  | PFence
  | PClaim
  | PUnpark

text \<open>The caller of \<open>pop\<close>: itself, or \<open>pop_blocking\<close> before or after it has published its handle.\<close>

datatype pop_ctx = Plain | First | Second

datatype 'a consumer =
    CIdle
  | CLoad pop_ctx
  | CTake pop_ctx nat
  | CHead pop_ctx
  | CPublish
  | CPark
  | CReclaim "'a option"

record 'a mq =
  q_heap :: "nat \<Rightarrow> 'a mq_node option"
  q_head :: nat
  q_tail :: nat
  q_waiter :: bool
  q_token :: bool
  q_prod :: "nat \<Rightarrow> producer"
  q_cons :: "'a consumer"
  q_pushed :: "'a list"
  q_popped :: "'a list"
  q_fault :: bool

definition mq_new :: "nat \<Rightarrow> 'a mq" where
  "mq_new stub =
     \<lparr>q_heap = [stub \<mapsto> \<lparr>nd_next = None, nd_value = None\<rparr>], q_head = stub, q_tail = stub, q_waiter = False,
      q_token = False, q_prod = (\<lambda>_. PIdle), q_cons = CIdle, q_pushed = [], q_popped = [], q_fault = False\<rparr>"

section \<open>The accesses of a push\<close>

definition set_prod :: "nat \<Rightarrow> producer \<Rightarrow> 'a mq \<Rightarrow> 'a mq" where
  "set_prod p c s = s\<lparr>q_prod := (q_prod s)(p := c)\<rparr>"

definition push_alloc :: "nat \<Rightarrow> nat \<Rightarrow> 'a \<Rightarrow> 'a mq \<Rightarrow> 'a mq" where
  "push_alloc p n v s = set_prod p (PSwap n) (s\<lparr>q_heap := (q_heap s)(n \<mapsto> \<lparr>nd_next = None, nd_value = Some v\<rparr>)\<rparr>)"

definition push_swap :: "nat \<Rightarrow> nat \<Rightarrow> 'a \<Rightarrow> 'a mq \<Rightarrow> 'a mq" where
  "push_swap p n v s = set_prod p (PLink n (q_head s)) (s\<lparr>q_head := n, q_pushed := q_pushed s @ [v]\<rparr>)"

definition push_link :: "nat \<Rightarrow> nat \<Rightarrow> nat \<Rightarrow> 'a mq \<Rightarrow> 'a mq" where
  "push_link p n prev s =
     (case q_heap s prev of
        None \<Rightarrow> s\<lparr>q_fault := True\<rparr>
      | Some nd \<Rightarrow> set_prod p PFence (s\<lparr>q_heap := (q_heap s)(prev \<mapsto> nd\<lparr>nd_next := Some n\<rparr>)\<rparr>))"

definition push_claim :: "nat \<Rightarrow> 'a mq \<Rightarrow> 'a mq" where
  "push_claim p s = (if q_waiter s then set_prod p PUnpark (s\<lparr>q_waiter := False\<rparr>) else set_prod p PIdle s)"

section \<open>The accesses of a pop\<close>

definition pop_load :: "pop_ctx \<Rightarrow> 'a mq \<Rightarrow> 'a mq" where
  "pop_load c s =
     (case q_heap s (q_tail s) of
        None \<Rightarrow> s\<lparr>q_fault := True\<rparr>
      | Some nd \<Rightarrow> s\<lparr>q_cons := (case nd_next nd of Some n \<Rightarrow> CTake c n | None \<Rightarrow> CHead c)\<rparr>)"

text \<open>The value is taken, the old tail freed; nobody else touches either.\<close>

definition pop_take :: "pop_ctx \<Rightarrow> nat \<Rightarrow> 'a mq \<Rightarrow> 'a mq" where
  "pop_take c n s =
     (case q_heap s n of
        None \<Rightarrow> s\<lparr>q_fault := True\<rparr>
      | Some nd \<Rightarrow>
          (case nd_value nd of
             None \<Rightarrow> s\<lparr>q_fault := True\<rparr>
           | Some v \<Rightarrow>
               if q_heap s (q_tail s) = None then s\<lparr>q_fault := True\<rparr>
               else s\<lparr>q_heap := (q_heap s)(n \<mapsto> nd\<lparr>nd_value := None\<rparr>, q_tail s := None), q_tail := n,
                  q_popped := q_popped s @ [v], q_cons := (if c = Second then CReclaim (Some v) else CIdle)\<rparr>))"

definition pop_head :: "pop_ctx \<Rightarrow> 'a mq \<Rightarrow> 'a mq" where
  "pop_head c s =
     s\<lparr>q_cons :=
        (if q_head s \<noteq> q_tail s then (case c of Plain \<Rightarrow> CIdle | First \<Rightarrow> CLoad First | Second \<Rightarrow> CReclaim None)
         else (case c of Plain \<Rightarrow> CIdle | First \<Rightarrow> CPublish | Second \<Rightarrow> CPark))\<rparr>"

text \<open>A handle that is still in the slot would be lost: the debug assertion of the code.\<close>

definition publish_waiter :: "'a mq \<Rightarrow> 'a mq" where
  "publish_waiter s = s\<lparr>q_waiter := True, q_cons := CLoad Second, q_fault := q_fault s \<or> q_waiter s\<rparr>"

definition reclaim_waiter :: "'a option \<Rightarrow> 'a mq \<Rightarrow> 'a mq" where
  "reclaim_waiter r s = s\<lparr>q_waiter := False, q_cons := (case r of Some _ \<Rightarrow> CIdle | None \<Rightarrow> CLoad First)\<rparr>"

text \<open>\<open>pop_blocking_until\<close> gives up at \<open>timeout\<close>, and its \<open>park_timeout\<close> may return on its own, as may \<open>park\<close>.\<close>

inductive mq_step :: "'a mq \<Rightarrow> 'a mq \<Rightarrow> bool" where
  alloc: "q_prod s p = PIdle \<Longrightarrow> q_heap s n = None \<Longrightarrow> mq_step s (push_alloc p n v s)"
| swap: "q_prod s p = PSwap n \<Longrightarrow> q_heap s n = Some nd \<Longrightarrow> nd_value nd = Some v \<Longrightarrow> mq_step s (push_swap p n v s)"
| link: "q_prod s p = PLink n prev \<Longrightarrow> mq_step s (push_link p n prev s)"
| waiter_load: "q_prod s p = PFence \<Longrightarrow> mq_step s (set_prod p (if q_waiter s then PClaim else PIdle) s)"
| waiter_swap: "q_prod s p = PClaim \<Longrightarrow> mq_step s (push_claim p s)"
| unpark: "q_prod s p = PUnpark \<Longrightarrow> mq_step s (set_prod p PIdle (s\<lparr>q_token := True\<rparr>))"
| pop: "q_cons s = CIdle \<Longrightarrow> c \<noteq> Second \<Longrightarrow> mq_step s (s\<lparr>q_cons := CLoad c\<rparr>)"
| next_load: "q_cons s = CLoad c \<Longrightarrow> mq_step s (pop_load c s)"
| advance: "q_cons s = CTake c n \<Longrightarrow> mq_step s (pop_take c n s)"
| head_load: "q_cons s = CHead c \<Longrightarrow> mq_step s (pop_head c s)"
| timeout: "q_cons s = CPublish \<Longrightarrow> mq_step s (s\<lparr>q_cons := CIdle\<rparr>)"
| publish: "q_cons s = CPublish \<Longrightarrow> mq_step s (publish_waiter s)"
| wake: "q_cons s = CPark \<Longrightarrow> q_token s \<Longrightarrow> mq_step s (s\<lparr>q_token := False, q_cons := CReclaim None\<rparr>)"
| spurious: "q_cons s = CPark \<Longrightarrow> mq_step s (s\<lparr>q_cons := CReclaim None\<rparr>)"
| reclaim: "q_cons s = CReclaim r \<Longrightarrow> mq_step s (reclaim_waiter r s)"

inductive mq_reachable :: "'a mq \<Rightarrow> bool" where
  created: "mq_reachable (mq_new stub)"
| stepped: "mq_reachable s \<Longrightarrow> mq_step s s' \<Longrightarrow> mq_reachable s'"

text \<open>\<open>Drop\<close>: the chain from the tail is freed, \<open>None\<close> when a node is freed twice. The chain has no cycle, so fuel for
  every node on it is enough.\<close>

fun drop_loop :: "nat \<Rightarrow> nat option \<Rightarrow> (nat \<Rightarrow> 'a mq_node option) \<Rightarrow> (nat \<Rightarrow> 'a mq_node option) option" where
  "drop_loop k None h = Some h"
| "drop_loop 0 (Some cur) h = None"
| "drop_loop (Suc k) (Some cur) h =
     (case h cur of None \<Rightarrow> None | Some nd \<Rightarrow> drop_loop k (nd_next nd) (h(cur := None)))"

definition mq_drop :: "nat \<Rightarrow> 'a mq \<Rightarrow> (nat \<Rightarrow> 'a mq_node option) option" where
  "mq_drop k s = drop_loop k (Some (q_tail s)) (q_heap s)"

section \<open>The invariant\<close>

text \<open>\<open>ch\<close> is the chain of nodes from the tail to the head, whether the link between two of them is set or not.\<close>

definition chain_ok :: "nat list \<Rightarrow> 'a mq \<Rightarrow> bool" where
  "chain_ok ch s \<longleftrightarrow> ch \<noteq> [] \<and> distinct ch \<and> hd ch = q_tail s \<and> last ch = q_head s \<and>
     (\<forall>a \<in> set ch. q_heap s a \<noteq> None) \<and> (\<forall>a \<in> set (tl ch). nd_value (the (q_heap s a)) \<noteq> None) \<and>
     nd_next (the (q_heap s (last ch))) = None \<and>
     q_pushed s = q_popped s @ map (\<lambda>a. the (nd_value (the (q_heap s a)))) (tl ch)"

text \<open>A link is set, or the producer of the node has yet to set it, and it is the only one.\<close>

definition links_ok :: "nat list \<Rightarrow> 'a mq \<Rightarrow> bool" where
  "links_ok ch s \<longleftrightarrow>
     (\<forall>i. Suc i < length ch \<longrightarrow>
        nd_next (the (q_heap s (ch ! i))) = Some (ch ! Suc i) \<or>
        nd_next (the (q_heap s (ch ! i))) = None \<and> (\<exists>p. q_prod s p = PLink (ch ! Suc i) (ch ! i))) \<and>
     (\<forall>p n prev. q_prod s p = PLink n prev \<longrightarrow>
        (\<exists>i. Suc i < length ch \<and> ch ! i = prev \<and> ch ! Suc i = n) \<and> nd_next (the (q_heap s prev)) = None) \<and>
     (\<forall>p p' n prev prev'. q_prod s p = PLink n prev \<and> q_prod s p' = PLink n prev' \<longrightarrow> p = p')"

definition private_ok :: "nat list \<Rightarrow> 'a mq \<Rightarrow> bool" where
  "private_ok ch s \<longleftrightarrow>
     (\<forall>p n. q_prod s p = PSwap n \<longrightarrow> n \<notin> set ch \<and> (\<exists>v. q_heap s n = Some \<lparr>nd_next = None, nd_value = Some v\<rparr>)) \<and>
     (\<forall>p p' n. q_prod s p = PSwap n \<and> q_prod s p' = PSwap n \<longrightarrow> p = p')"

text \<open>Every node is on the chain or still private: nothing leaks.\<close>

definition no_leak :: "nat list \<Rightarrow> 'a mq \<Rightarrow> bool" where
  "no_leak ch s \<longleftrightarrow> (\<forall>a. q_heap s a \<noteq> None \<longrightarrow> a \<in> set ch \<or> (\<exists>p. q_prod s p = PSwap a))"

definition cons_ok :: "nat list \<Rightarrow> 'a mq \<Rightarrow> bool" where
  "cons_ok ch s \<longleftrightarrow>
     (\<forall>c n. q_cons s = CTake c n \<longrightarrow> 1 < length ch \<and> n = ch ! 1 \<and> nd_next (the (q_heap s (q_tail s))) = Some n)"

definition published :: "'a consumer \<Rightarrow> bool" where
  "published c \<longleftrightarrow> c = CPark \<or> c = CLoad Second \<or> (\<exists>n. c = CTake Second n) \<or> c = CHead Second"

text \<open>\<open>will_look\<close>: the producer has yet to look at the slot. A published handle is in the slot, or the one who took it wakes the consumer or has done so; a parked consumer that
  nobody wakes has nothing to fetch, or a producer that will look.\<close>

definition will_look :: "producer \<Rightarrow> bool" where
  "will_look c \<longleftrightarrow> (\<exists>n prev. c = PLink n prev) \<or> c = PFence \<or> c = PClaim"

definition wake_ok :: "nat list \<Rightarrow> 'a mq \<Rightarrow> bool" where
  "wake_ok ch s \<longleftrightarrow>
     (q_waiter s \<longrightarrow> published (q_cons s) \<or> (\<exists>r. q_cons s = CReclaim r)) \<and>
     (published (q_cons s) \<longrightarrow> q_waiter s \<or> q_token s \<or> (\<exists>p. q_prod s p = PUnpark)) \<and>
     (q_cons s = CPark \<and> q_waiter s \<longrightarrow>
        q_token s \<or> (\<exists>p. q_prod s p = PUnpark) \<or> length ch = 1 \<or> (\<exists>p. will_look (q_prod s p)))"

definition mq_inv :: "nat list \<Rightarrow> 'a mq \<Rightarrow> bool" where
  "mq_inv ch s \<longleftrightarrow> chain_ok ch s \<and> links_ok ch s \<and> private_ok ch s \<and> no_leak ch s \<and> cons_ok ch s \<and> wake_ok ch s \<and> \<not> q_fault s"

end
