(* ===== verification/MpscRules.thy ===== *)
theory MpscRules
  imports Mpsc
begin

text \<open>
  Every reachable state satisfies the invariant of the queue: no access to freed memory, first in first out, no lost wakeup.
\<close>

section \<open>Producers\<close>

lemma set_prod_simps [simp]:
  "q_heap (set_prod p c s) = q_heap s" "q_head (set_prod p c s) = q_head s" "q_tail (set_prod p c s) = q_tail s"
  "q_waiter (set_prod p c s) = q_waiter s" "q_token (set_prod p c s) = q_token s" "q_cons (set_prod p c s) = q_cons s"
  "q_pushed (set_prod p c s) = q_pushed s" "q_popped (set_prod p c s) = q_popped s" "q_fault (set_prod p c s) = q_fault s"
  "q_prod (set_prod p c s) = (q_prod s)(p := c)"
  by (simp_all add: set_prod_def)

lemma privateD:
  assumes "private_ok ch s" "q_prod s p = PSwap n"
  shows "n \<notin> set ch" "\<exists>v. q_heap s n = Some \<lparr>nd_next = None, nd_value = Some v\<rparr>" "q_prod s p' = PSwap n \<Longrightarrow> p' = p"
  using assms unfolding private_ok_def by blast+

lemma linkD:
  assumes "links_ok ch s" "q_prod s p = PLink n prev"
  shows "\<exists>i. Suc i < length ch \<and> ch ! i = prev \<and> ch ! Suc i = n" "nd_next (the (q_heap s prev)) = None"
    "q_prod s p' = PLink n prev' \<Longrightarrow> p' = p" "n \<in> set ch" "prev \<in> set ch"
proof -
  show i: "\<exists>i. Suc i < length ch \<and> ch ! i = prev \<and> ch ! Suc i = n" using assms unfolding links_ok_def by blast
  show "nd_next (the (q_heap s prev)) = None" "q_prod s p' = PLink n prev' \<Longrightarrow> p' = p"
    using assms unfolding links_ok_def by blast+
  show "n \<in> set ch" "prev \<in> set ch" using i by auto
qed

lemma linkI:
  assumes "links_ok ch s" "Suc i < length ch"
  obtains "nd_next (the (q_heap s (ch ! i))) = Some (ch ! Suc i)"
  | p where "nd_next (the (q_heap s (ch ! i))) = None" "q_prod s p = PLink (ch ! Suc i) (ch ! i)"
  using assms unfolding links_ok_def by blast

lemma chainD:
  assumes "chain_ok ch s"
  shows "ch \<noteq> []" "distinct ch" "hd ch = q_tail s" "last ch = q_head s" "q_tail s \<in> set ch" "q_head s \<in> set ch"
    "a \<in> set ch \<Longrightarrow> \<exists>nd. q_heap s a = Some nd" "a \<in> set (tl ch) \<Longrightarrow> nd_value (the (q_heap s a)) \<noteq> None"
    "nd_next (the (q_heap s (q_head s))) = None"
    "q_pushed s = q_popped s @ map (\<lambda>a. the (nd_value (the (q_heap s a)))) (tl ch)"
proof -
  note c = assms [unfolded chain_ok_def]
  show n: "ch \<noteq> []" and h: "hd ch = q_tail s" and l: "last ch = q_head s" and "distinct ch" using c by blast+
  show "q_tail s \<in> set ch" "q_head s \<in> set ch" using n h l hd_in_set last_in_set by metis+
  show "a \<in> set ch \<Longrightarrow> \<exists>nd. q_heap s a = Some nd" "a \<in> set (tl ch) \<Longrightarrow> nd_value (the (q_heap s a)) \<noteq> None"
    "nd_next (the (q_heap s (q_head s))) = None"
    "q_pushed s = q_popped s @ map (\<lambda>a. the (nd_value (the (q_heap s a)))) (tl ch)" using c by auto
qed

lemma new_inv: "mq_inv [stub] (mq_new stub)"
  by (simp add: mq_inv_def mq_new_def chain_ok_def links_ok_def private_ok_def no_leak_def cons_ok_def wake_ok_def published_def)

text \<open>A change of heap that leaves the nodes of the chain alone.\<close>

lemma chain_ok_cong:
  assumes "\<And>a. a \<in> set ch \<Longrightarrow> q_heap s' a = q_heap s a" "q_head s' = q_head s" "q_tail s' = q_tail s"
    "q_pushed s' = q_pushed s" "q_popped s' = q_popped s" "chain_ok ch s"
  shows "chain_ok ch s'"
proof -
  have tl: "a \<in> set ch" if "a \<in> set (tl ch)" for a using that by (cases ch) auto
  note c = chainD [OF assms(6)]
  have "map (\<lambda>a. the (nd_value (the (q_heap s' a)))) (tl ch) = map (\<lambda>a. the (nd_value (the (q_heap s a)))) (tl ch)"
    using assms(1) tl by auto
  then show ?thesis using assms(1-5) c(1-4,6-10) tl unfolding chain_ok_def by auto
qed

lemma links_ok_cong:
  assumes li: "links_ok ch s" and h: "\<And>a. a \<in> set ch \<Longrightarrow> q_heap s' a = q_heap s a"
    and P: "\<And>p n prev. q_prod s' p = PLink n prev \<longleftrightarrow> q_prod s p = PLink n prev"
  shows "links_ok ch s'"
  unfolding links_ok_def P
proof (intro conjI allI impI)
  fix i
  assume i: "Suc i < length ch"
  then have "q_heap s' (ch ! i) = q_heap s (ch ! i)" by (intro h) simp
  then show "nd_next (the (q_heap s' (ch ! i))) = Some (ch ! Suc i) \<or>
      nd_next (the (q_heap s' (ch ! i))) = None \<and> (\<exists>p. q_prod s p = PLink (ch ! Suc i) (ch ! i))"
    using linkI [OF li i] by metis
next
  fix p n prev
  assume p: "q_prod s p = PLink n prev"
  show "\<exists>i. Suc i < length ch \<and> ch ! i = prev \<and> ch ! Suc i = n" by (rule linkD(1) [OF li p])
  show "nd_next (the (q_heap s' prev)) = None" using linkD(2) [OF li p] h [OF linkD(5) [OF li p]] by simp
next
  fix p p' n prev prev'
  assume "q_prod s p = PLink n prev \<and> q_prod s p' = PLink n prev'"
  then show "p = p'" using linkD(3) [OF li] by metis
qed

lemma wake_keep:
  assumes "wake_ok ch s" "q_waiter s' = q_waiter s" "q_token s' = q_token s" "q_cons s' = q_cons s"
    "\<And>p. will_look (q_prod s p) \<Longrightarrow> will_look (q_prod s' p)" "\<And>p. q_prod s p = PUnpark \<Longrightarrow> q_prod s' p = PUnpark"
    "length ch' = length ch \<or> (\<exists>p. will_look (q_prod s' p))"
  shows "wake_ok ch' s'"
  using assms unfolding wake_ok_def by metis

lemma no_leak_keep:
  assumes "no_leak ch s" "\<And>a. q_heap s' a \<noteq> None \<Longrightarrow> q_heap s a \<noteq> None \<or> (\<exists>p. q_prod s' p = PSwap a)"
    "\<And>p a. q_prod s p = PSwap a \<Longrightarrow> q_prod s' p = PSwap a \<or> a \<in> set ch'"
    "\<And>a. q_heap s' a \<noteq> None \<Longrightarrow> a \<in> set ch \<Longrightarrow> a \<in> set ch'"
  shows "no_leak ch' s'"
  using assms unfolding no_leak_def by metis

lemma alloc_inv:
  assumes inv: "mq_inv ch s" and p: "q_prod s p = PIdle" and n: "q_heap s n = None"
  shows "mq_inv ch (push_alloc p n v s)"
proof -
  let ?s = "push_alloc p n v s"
  have nch: "n \<notin> set ch" using inv n by (auto simp: mq_inv_def chain_ok_def)
  have nsw: "q_prod s p' \<noteq> PSwap n" for p' using inv n privateD(2) [of ch s p' n] by (auto simp: mq_inv_def)
  have heap: "q_heap ?s a = q_heap s a" if "a \<in> set ch" for a using that nch by (auto simp: push_alloc_def)
  have tl: "q_heap ?s (q_tail s) = q_heap s (q_tail s)" using inv chainD(5) by (auto simp: mq_inv_def intro!: heap)
  have ch: "chain_ok ch ?s" by (rule chain_ok_cong [of ch ?s s]) (use inv heap in \<open>auto simp: push_alloc_def mq_inv_def\<close>)
  have li: "links_ok ch ?s" by (rule links_ok_cong [of ch s]) (use inv p heap in \<open>auto simp: mq_inv_def push_alloc_def\<close>)
  have pr: "private_ok ch ?s" using inv nch nsw n by (auto simp: mq_inv_def private_ok_def push_alloc_def)
  have "cons_ok ch ?s" "\<not> q_fault ?s"
    using inv p tl by (auto simp: mq_inv_def cons_ok_def push_alloc_def)
  moreover have "no_leak ch ?s"
    by (rule no_leak_keep [of ch s]) (use inv p in \<open>auto simp: mq_inv_def push_alloc_def split: if_splits\<close>)
  moreover have "wake_ok ch ?s"
    by (rule wake_keep [of ch s]) (use inv p in \<open>auto simp: mq_inv_def push_alloc_def will_look_def\<close>)
  ultimately show ?thesis using ch li pr by (simp add: mq_inv_def)
qed

lemma swap_inv:
  assumes inv: "mq_inv ch s" and p: "q_prod s p = PSwap n" and nd: "q_heap s n = Some nd" "nd_value nd = Some v"
  shows "mq_inv (ch @ [n]) (push_swap p n v s)"
proof -
  let ?s = "push_swap p n v s"
  have ch: "chain_ok ch s" and li: "links_ok ch s" and pr: "private_ok ch s" using inv by (simp_all add: mq_inv_def)
  have n: "n \<notin> set ch" "nd_next nd = None" using privateD(1,2) [OF pr p] nd by auto
  have ne: "ch \<noteq> []" "last ch = q_head s" using ch by (simp_all add: chain_ok_def)
  have c: "chain_ok (ch @ [n]) ?s" using ch n nd ne by (auto simp: chain_ok_def push_swap_def)
  have idx: "\<exists>i. Suc i < length (ch @ [n]) \<and> (ch @ [n]) ! i = prev \<and> (ch @ [n]) ! Suc i = m"
    if "\<exists>i. Suc i < length ch \<and> ch ! i = prev \<and> ch ! Suc i = m" for m prev
    using that by (metis Suc_lessD butlast_snoc length_append_singleton less_SucI nth_butlast length_butlast diff_Suc_1)
  have new: "\<exists>i. Suc i < length (ch @ [n]) \<and> (ch @ [n]) ! i = q_head s \<and> (ch @ [n]) ! Suc i = n"
    using ne by (intro exI [of _ "length ch - 1"]) (auto simp: nth_append last_conv_nth)
  have old: "m \<in> set ch" if "q_prod s p' = PLink m prev" for p' m prev
    by (rule linkD(4) [OF li that])
  have P: "q_prod ?s p' = PLink m prev \<longleftrightarrow> p' = p \<and> m = n \<and> prev = q_head s \<or> p' \<noteq> p \<and> q_prod s p' = PLink m prev" for p' m prev
    by (auto simp: push_swap_def)
  have l1: "nd_next (the (q_heap ?s ((ch @ [n]) ! i))) = Some ((ch @ [n]) ! Suc i) \<or>
      nd_next (the (q_heap ?s ((ch @ [n]) ! i))) = None \<and> (\<exists>p. q_prod ?s p = PLink ((ch @ [n]) ! Suc i) ((ch @ [n]) ! i))"
    if i: "Suc i < length (ch @ [n])" for i
  proof (cases "Suc i < length ch")
    case True
    have P': "q_prod ?s p' = PLink m prev" if "q_prod s p' = PLink m prev" for p' m prev using that p P by auto
    show ?thesis using li True
    proof (cases rule: linkI)
      case (2 pa)
      then have "nd_next (the (q_heap ?s ((ch @ [n]) ! i))) = None" "q_prod ?s pa = PLink ((ch @ [n]) ! Suc i) ((ch @ [n]) ! i)"
        using True P' [OF 2(2)] by (simp_all add: nth_append push_swap_def)
      then show ?thesis by blast
    qed (use True in \<open>simp add: nth_append push_swap_def\<close>)
  next
    case False
    then have "i = length ch - 1" "Suc i = length ch" using i by simp_all
    then have "(ch @ [n]) ! i = q_head s" "(ch @ [n]) ! Suc i = n" using ne by (simp_all add: nth_append last_conv_nth)
    then show ?thesis using ch P by (auto simp: chain_ok_def push_swap_def)
  qed
  have l: "links_ok (ch @ [n]) ?s"
    unfolding links_ok_def
  proof (intro conjI allI impI)
    fix p' m prev
    assume a: "q_prod ?s p' = PLink m prev"
    show "\<exists>i. Suc i < length (ch @ [n]) \<and> (ch @ [n]) ! i = prev \<and> (ch @ [n]) ! Suc i = m"
      using a new idx linkD(1) [OF li] unfolding P by blast
    show "nd_next (the (q_heap ?s prev)) = None"
      using a ch linkD(2) [OF li] unfolding P by (auto simp: push_swap_def chain_ok_def)
  next
    fix p1 p2 m prev prev'
    assume a: "q_prod ?s p1 = PLink m prev \<and> q_prod ?s p2 = PLink m prev'"
    show "p1 = p2" using a old n linkD(3) [OF li] unfolding P by blast
  qed (use l1 in blast)
  have "private_ok (ch @ [n]) ?s" using pr p by (auto simp: private_ok_def push_swap_def)
  moreover have "no_leak (ch @ [n]) ?s"
    by (rule no_leak_keep [of ch s]) (use inv p in \<open>auto simp: mq_inv_def push_swap_def\<close>)
  moreover have "cons_ok (ch @ [n]) ?s" using inv by (auto simp: mq_inv_def cons_ok_def push_swap_def nth_append)
  moreover have "wake_ok (ch @ [n]) ?s"
    by (rule wake_keep [of ch s]) (use inv p in \<open>auto simp: mq_inv_def push_swap_def will_look_def\<close>)
  ultimately show ?thesis using c l inv by (simp add: mq_inv_def push_swap_def)
qed


lemma link_inv:
  assumes inv: "mq_inv ch s" and p: "q_prod s p = PLink n prev"
  shows "mq_inv ch (push_link p n prev s)"
proof -
  have ch: "chain_ok ch s" and li: "links_ok ch s" and pr: "private_ok ch s" using inv by (simp_all add: mq_inv_def)
  note d = chainD [OF ch]
  obtain i where i: "Suc i < length ch" "ch ! i = prev" "ch ! Suc i = n" using linkD(1) [OF li p] by blast
  obtain nd where nd: "q_heap s prev = Some nd" "nd_next nd = None" using d(7) [of prev] linkD(2,5) [OF li p] by auto
  let ?s = "push_link p n prev s"
  have s: "?s = set_prod p PFence (s\<lparr>q_heap := (q_heap s)(prev \<mapsto> nd\<lparr>nd_next := Some n\<rparr>)\<rparr>)" by (simp add: push_link_def nd)
  have val: "nd_value (the (q_heap ?s a)) = nd_value (the (q_heap s a))" for a unfolding s using nd by simp
  have nth: "ch ! j = prev \<longleftrightarrow> j = i" if "j < length ch" for j using i d(2) that by (metis Suc_lessD nth_eq_iff_index_eq)
  have "last ch \<noteq> prev" using i nth [of "length ch - 1"] d(1) by (auto simp: last_conv_nth)
  then have c: "chain_ok ch ?s"
    using d val unfolding chain_ok_def by (auto simp: s)
  have l1: "nd_next (the (q_heap ?s (ch ! j))) = Some (ch ! Suc j) \<or>
      nd_next (the (q_heap ?s (ch ! j))) = None \<and> (\<exists>p. q_prod ?s p = PLink (ch ! Suc j) (ch ! j))" if j: "Suc j < length ch" for j
  proof (cases "j = i")
    case False
    then have ne: "ch ! j \<noteq> prev" using nth [of j] j by simp
    show ?thesis using li j
    proof (cases rule: linkI)
      case (2 pa)
      then have "q_prod ?s pa = PLink (ch ! Suc j) (ch ! j)" using p ne unfolding s by auto
      moreover have "nd_next (the (q_heap ?s (ch ! j))) = None" using 2 ne unfolding s by simp
      ultimately show ?thesis by blast
    qed (use ne in \<open>simp add: s\<close>)
  qed (use i in \<open>simp add: s\<close>)
  have old: "q_prod s p' = PLink m pv \<and> p' \<noteq> p \<and> pv \<noteq> prev" if "q_prod ?s p' = PLink m pv" for p' m pv
  proof -
    have a: "q_prod s p' = PLink m pv" "p' \<noteq> p" using that unfolding s by (auto split: if_splits)
    obtain j where j: "Suc j < length ch" "ch ! j = pv" "ch ! Suc j = m" using linkD(1) [OF li a(1)] by blast
    have "pv \<noteq> prev"
    proof
      assume "pv = prev"
      then have "j = i" using nth [of j] j by simp
      then show False using linkD(3) [OF li p, of p' pv] a i j by simp
    qed
    then show ?thesis using a by simp
  qed
  have l: "links_ok ch ?s"
    unfolding links_ok_def
  proof (intro conjI allI impI)
    fix p' m pv
    assume a: "q_prod ?s p' = PLink m pv"
    show "\<exists>i. Suc i < length ch \<and> ch ! i = pv \<and> ch ! Suc i = m" using linkD(1) [OF li] old [OF a] by blast
    have "nd_next (the (q_heap s pv)) = None" using linkD(2) [OF li] old [OF a] by blast
    then show "nd_next (the (q_heap ?s pv)) = None" using old [OF a] unfolding s by simp
  next
    fix p1 p2 m pv pv'
    assume a: "q_prod ?s p1 = PLink m pv \<and> q_prod ?s p2 = PLink m pv'"
    show "p1 = p2" using linkD(3) [OF li] old a by metis
  qed (use l1 in blast)
  have "private_ok ch ?s" using pr privateD(1) [OF pr] linkD(5) [OF li p] unfolding s private_ok_def by (auto split: if_splits)
  moreover have "no_leak ch ?s"
    by (rule no_leak_keep [of ch s]) (use inv p nd in \<open>auto simp: mq_inv_def s split: if_splits\<close>)
  moreover have "cons_ok ch ?s" using inv nd unfolding s by (auto simp: mq_inv_def cons_ok_def)
  moreover have "wake_ok ch ?s"
    by (rule wake_keep [of ch s]) (use inv p in \<open>auto simp: mq_inv_def s will_look_def\<close>)
  ultimately show ?thesis using c l inv by (simp add: mq_inv_def s)
qed

text \<open>The steps of the wake protocol leave the chain alone.\<close>

lemma chain_parts:
  assumes "q_heap s' = q_heap s" "q_head s' = q_head s" "q_tail s' = q_tail s" "q_pushed s' = q_pushed s" "q_popped s' = q_popped s"
    "\<And>p n prev. q_prod s' p = PLink n prev \<longleftrightarrow> q_prod s p = PLink n prev" "\<And>p n. q_prod s' p = PSwap n \<longleftrightarrow> q_prod s p = PSwap n"
    "mq_inv ch s"
  shows "chain_ok ch s'" "links_ok ch s'" "private_ok ch s'" "no_leak ch s'"
  using assms(8) unfolding mq_inv_def chain_ok_def links_ok_def private_ok_def no_leak_def assms(1-7) by blast+

lemma producer_inv:
  assumes inv: "mq_inv ch s"
  shows "q_prod s p = PFence \<Longrightarrow> mq_inv ch (set_prod p (if q_waiter s then PClaim else PIdle) s)"
    "q_prod s p = PClaim \<Longrightarrow> mq_inv ch (push_claim p s)"
    "q_prod s p = PUnpark \<Longrightarrow> mq_inv ch (set_prod p PIdle (s\<lparr>q_token := True\<rparr>))"
proof -
  have w: "wake_ok ch s" and co: "cons_ok ch s" and fa: "\<not> q_fault s" using inv by (simp_all add: mq_inv_def)
  show "mq_inv ch (set_prod p (if q_waiter s then PClaim else PIdle) s)" (is "mq_inv ch ?s") if p: "q_prod s p = PFence"
  proof -
    have "wake_ok ch ?s"
    proof (cases "q_waiter s")
      case True
      show ?thesis by (rule wake_keep [OF w]) (use True p in \<open>auto simp: will_look_def\<close>)
    next
      case False
      have "\<exists>p'. q_prod ?s p' = PUnpark" if "q_prod s p' = PUnpark" for p' using that p by (intro exI [of _ p']) auto
      then show ?thesis using w False unfolding wake_ok_def by fastforce
    qed
    then show ?thesis using chain_parts [of ?s s ch] inv p co fa by (auto simp: mq_inv_def cons_ok_def)
  qed
  show "mq_inv ch (push_claim p s)" (is "mq_inv ch ?s") if p: "q_prod s p = PClaim"
  proof -
    have "wake_ok ch ?s"
    proof (cases "q_waiter s")
      case True
      have "q_prod ?s p = PUnpark" using True by (simp add: push_claim_def)
      then show ?thesis using w True unfolding wake_ok_def push_claim_def by auto
    next
      case False
      have "\<exists>p'. q_prod ?s p' = PUnpark" if "q_prod s p' = PUnpark" for p'
        using that p False by (intro exI [of _ p']) (auto simp: push_claim_def)
      then show ?thesis using w False unfolding wake_ok_def push_claim_def by fastforce
    qed
    then show ?thesis using chain_parts [of ?s s ch] inv p co fa by (auto simp: mq_inv_def cons_ok_def push_claim_def)
  qed
  show "mq_inv ch (set_prod p PIdle (s\<lparr>q_token := True\<rparr>))" (is "mq_inv ch ?s") if p: "q_prod s p = PUnpark"
  proof -
    have "wake_ok ch ?s" using w unfolding wake_ok_def by simp
    then show ?thesis using chain_parts [of ?s s ch] inv p co fa by (auto simp: mq_inv_def cons_ok_def)
  qed
qed

section \<open>The consumer\<close>

lemma chain_head_tail:
  assumes "chain_ok ch s" "q_head s = q_tail s"
  shows "length ch = 1"
proof -
  note d = chainD [OF assms(1)]
  have "ch ! 0 = ch ! (length ch - 1)" using d(1,3,4) assms(2) by (simp add: hd_conv_nth last_conv_nth)
  then have "length ch - 1 = 0" using d(1,2) by (simp add: nth_eq_iff_index_eq)
  then show ?thesis using d(1) by (cases ch) auto
qed

lemma take_inv:
  assumes inv: "mq_inv ch s" and ct: "q_cons s = CTake c n"
  shows "mq_inv (tl ch) (pop_take c n s)"
proof -
  have ch: "chain_ok ch s" and li: "links_ok ch s" and pr: "private_ok ch s" and w: "wake_ok ch s" using inv by (simp_all add: mq_inv_def)
  note d = chainD [OF ch]
  have n: "1 < length ch" "n = ch ! 1" "nd_next (the (q_heap s (q_tail s))) = Some n"
    using inv ct by (auto simp: mq_inv_def cons_ok_def)
  obtain rest where rest: "ch = q_tail s # n # rest" using n d(1,3) by (cases ch; cases "tl ch") auto
  let ?t = "q_tail s"
  have dis: "?t \<noteq> n" "?t \<notin> set rest" "n \<notin> set rest" "distinct rest" using d(2) rest by auto
  obtain nd v where nd: "q_heap s n = Some nd" "nd_value nd = Some v" using d(7,8) [of n] rest by auto
  obtain td where td: "q_heap s ?t = Some td" "nd_next td = Some n" using d(7) [of ?t] rest n(3) by auto
  let ?s = "pop_take c n s"
  have s: "?s = s\<lparr>q_heap := (q_heap s)(n \<mapsto> nd\<lparr>nd_value := None\<rparr>, ?t := None), q_tail := n,
      q_popped := q_popped s @ [v], q_cons := (if c = Second then CReclaim (Some v) else CIdle)\<rparr>"
    by (simp add: pop_take_def nd td)
  have nx: "nd_next (the (q_heap ?s a)) = nd_next (the (q_heap s a))" if "a \<in> set (n # rest)" for a
    using that dis nd by (auto simp: s)
  have c: "chain_ok (tl ch) ?s"
  proof -
    have "map (\<lambda>a. the (nd_value (the (q_heap ?s a)))) rest = map (\<lambda>a. the (nd_value (the (q_heap s a)))) rest"
      using dis by (auto simp: s)
    moreover have "q_pushed s = q_popped s @ v # map (\<lambda>a. the (nd_value (the (q_heap s a)))) rest" using d(10) rest nd by simp
    moreover have "nd_next (the (q_heap ?s (q_head s))) = None" using nx [of "q_head s"] d(4,9) rest last_in_set [of "n # rest"]
      by simp
    moreover have "\<forall>a \<in> set (n # rest). q_heap ?s a \<noteq> None" "\<forall>a \<in> set rest. nd_value (the (q_heap ?s a)) \<noteq> None"
      using d(7,8) dis rest by (auto simp: s)
    ultimately show ?thesis using d(4) dis by (auto simp: chain_ok_def rest s)
  qed
  have lt: "pv \<noteq> ?t" if "q_prod s p = PLink m pv" for p m pv using linkD(2) [OF li that] td by auto
  have l: "links_ok (n # rest) ?s"
    unfolding links_ok_def
  proof (intro conjI allI impI)
    fix j
    assume j: "Suc j < length (n # rest)"
    then have "(n # rest) ! j \<in> set (n # rest)" by (metis Suc_lessD nth_mem)
    moreover have "Suc (Suc j) < length ch" using j rest by simp
    ultimately show "nd_next (the (q_heap ?s ((n # rest) ! j))) = Some ((n # rest) ! Suc j) \<or>
        nd_next (the (q_heap ?s ((n # rest) ! j))) = None \<and> (\<exists>p. q_prod ?s p = PLink ((n # rest) ! Suc j) ((n # rest) ! j))"
      using linkI [OF li, of "Suc j"] nx [of "(n # rest) ! j"] by (simp add: rest s) metis
  next
    fix p m pv
    assume "q_prod ?s p = PLink m pv"
    then have a: "q_prod s p = PLink m pv" by (simp add: s)
    obtain i where i: "Suc i < length ch" "ch ! i = pv" "ch ! Suc i = m" using linkD(1) [OF li a] by blast
    have "i \<noteq> 0" using lt [OF a] i(2) rest by (metis nth_Cons_0)
    then obtain j where "i = Suc j" by (cases i) auto
    then show "\<exists>i. Suc i < length (n # rest) \<and> (n # rest) ! i = pv \<and> (n # rest) ! Suc i = m"
      using i rest by (intro exI [of _ j]) simp
    have "pv \<in> set (n # rest)" using linkD(5) [OF li a] lt [OF a] rest by simp
    then show "nd_next (the (q_heap ?s pv)) = None" using nx linkD(2) [OF li a] by simp
  next
    fix p1 p2 m pv pv'
    assume "q_prod ?s p1 = PLink m pv \<and> q_prod ?s p2 = PLink m pv'"
    then have "q_prod s p1 = PLink m pv" "q_prod s p2 = PLink m pv'" by (simp_all add: s)
    then show "p1 = p2" using linkD(3) [OF li] by blast
  qed
  have "n' \<noteq> n \<and> n' \<noteq> ?t" if "q_prod s p = PSwap n'" for p n' using privateD(1) [OF pr that] rest by auto
  then have "private_ok (tl ch) ?s" using pr unfolding private_ok_def by (auto simp: s rest)
  moreover have "no_leak (tl ch) ?s"
    by (rule no_leak_keep [of ch s]) (use inv nd rest in \<open>auto simp: mq_inv_def s split: if_splits\<close>)
  moreover have "cons_ok (tl ch) ?s" by (simp add: cons_ok_def s)
  moreover have "wake_ok (tl ch) ?s" using w ct by (auto simp: wake_ok_def published_def s)
  ultimately show ?thesis using c l rest inv by (simp add: mq_inv_def s)
qed


lemma load_inv:
  assumes inv: "mq_inv ch s" and c: "q_cons s = CLoad c"
  shows "mq_inv ch (pop_load c s)"
proof -
  have ch: "chain_ok ch s" and li: "links_ok ch s" and w: "wake_ok ch s" using inv by (simp_all add: mq_inv_def)
  note d = chainD [OF ch]
  obtain nd where nd: "q_heap s (q_tail s) = Some nd" using d(5,7) by blast
  let ?s = "pop_load c s"
  have s: "?s = s\<lparr>q_cons := (case nd_next nd of Some n \<Rightarrow> CTake c n | None \<Rightarrow> CHead c)\<rparr>" by (simp add: pop_load_def nd)
  have t: "ch ! 0 = q_tail s" using d(1,3) by (simp add: hd_conv_nth)
  have "cons_ok ch ?s"
  proof (cases "nd_next nd")
    case (Some n)
    have "1 < length ch"
    proof (rule ccontr)
      assume "\<not> 1 < length ch"
      then have "q_tail s = q_head s" using d(1,3,4) by (cases ch; cases "tl ch") auto
      then show False using d(9) nd Some by simp
    qed
    then have l: "Suc 0 < length ch" by simp
    have "n = ch ! 1" using linkI [OF li l] t nd Some by (metis One_nat_def option.inject option.sel option.distinct(1))
    then show ?thesis using Some l nd by (simp add: cons_ok_def s)
  qed (simp add: cons_ok_def s)
  moreover have "wake_ok ch ?s" using w c by (cases "nd_next nd") (auto simp: wake_ok_def published_def s)
  ultimately show ?thesis using chain_parts [of ?s s ch] inv by (simp add: mq_inv_def s)
qed

lemma head_inv:
  assumes inv: "mq_inv ch s" and c: "q_cons s = CHead c"
  shows "mq_inv ch (pop_head c s)"
proof -
  have w: "wake_ok ch s" using inv by (simp add: mq_inv_def)
  let ?s = "pop_head c s"
  have one: "length ch = 1" if "q_head s = q_tail s" using chain_head_tail [of ch s] that inv unfolding mq_inv_def by blast
  have "wake_ok ch ?s" using w c one by (cases c) (auto simp: wake_ok_def published_def pop_head_def)
  moreover have "cons_ok ch ?s" by (cases c) (auto simp: cons_ok_def pop_head_def)
  ultimately show ?thesis using chain_parts [of ?s s ch] inv by (simp add: mq_inv_def pop_head_def)
qed

lemma consumer_inv:
  assumes inv: "mq_inv ch s"
  shows "q_cons s = CIdle \<Longrightarrow> c \<noteq> Second \<Longrightarrow> mq_inv ch (s\<lparr>q_cons := CLoad c\<rparr>)"
    "q_cons s = CPublish \<Longrightarrow> mq_inv ch (s\<lparr>q_cons := CIdle\<rparr>)"
    "q_cons s = CPublish \<Longrightarrow> mq_inv ch (publish_waiter s)"
    "q_cons s = CPark \<Longrightarrow> mq_inv ch (s\<lparr>q_token := False, q_cons := CReclaim None\<rparr>)"
    "q_cons s = CPark \<Longrightarrow> mq_inv ch (s\<lparr>q_cons := CReclaim None\<rparr>)"
    "q_cons s = CReclaim r \<Longrightarrow> mq_inv ch (reclaim_waiter r s)"
proof -
  have w: "wake_ok ch s" using inv by (simp add: mq_inv_def)
  have go: "mq_inv ch s'" if "q_heap s' = q_heap s" "q_head s' = q_head s" "q_tail s' = q_tail s" "q_pushed s' = q_pushed s"
    "q_popped s' = q_popped s" "q_prod s' = q_prod s" "\<not> q_fault s'" "wake_ok ch s'" "\<forall>c n. q_cons s' \<noteq> CTake c n" for s'
    using chain_parts [of s' s ch] that inv by (simp add: mq_inv_def cons_ok_def)
  show "mq_inv ch (s\<lparr>q_cons := CLoad c\<rparr>)" if "q_cons s = CIdle" "c \<noteq> Second"
    by (rule go) (use that w inv in \<open>auto simp: wake_ok_def published_def mq_inv_def\<close>)
  show "mq_inv ch (s\<lparr>q_cons := CIdle\<rparr>)" if "q_cons s = CPublish"
    by (rule go) (use that w inv in \<open>auto simp: wake_ok_def published_def mq_inv_def\<close>)
  show "mq_inv ch (publish_waiter s)" if "q_cons s = CPublish"
    by (rule go) (use that w inv in \<open>auto simp: wake_ok_def published_def mq_inv_def publish_waiter_def\<close>)
  show "mq_inv ch (s\<lparr>q_token := False, q_cons := CReclaim None\<rparr>)" "mq_inv ch (s\<lparr>q_cons := CReclaim None\<rparr>)" if "q_cons s = CPark"
    by (rule go; use that w inv in \<open>simp add: wake_ok_def published_def mq_inv_def\<close>)+
  show "mq_inv ch (reclaim_waiter r s)" if "q_cons s = CReclaim r"
    by (rule go) (use that w inv in \<open>auto simp: wake_ok_def published_def mq_inv_def reclaim_waiter_def split: option.split\<close>)
qed

lemma mq_step_inv: "mq_step s s' \<Longrightarrow> mq_inv ch s \<Longrightarrow> \<exists>ch'. mq_inv ch' s'"
proof (induction rule: mq_step.induct)
  case (alloc s p n v)
  show ?case using alloc_inv [OF alloc(3,1,2)] by blast
next
  case (swap s p n nd v)
  show ?case using swap_inv [OF swap(4,1-3)] by blast
next
  case (link s p n prev)
  show ?case using link_inv [OF link(2,1)] by blast
next
  case (advance s c n)
  show ?case using take_inv [OF advance(2,1)] by blast
next
  case (next_load s c)
  show ?case using load_inv [OF next_load(2,1)] by blast
next
  case (head_load s c)
  show ?case using head_inv [OF head_load(2,1)] by blast
next
  case (waiter_load s p)
  show ?case using producer_inv(1) [OF waiter_load(2,1)] by blast
next
  case (waiter_swap s p)
  show ?case using producer_inv(2) [OF waiter_swap(2,1)] by blast
next
  case (unpark s p)
  show ?case using producer_inv(3) [OF unpark(2,1)] by blast
next
  case (pop s c)
  show ?case using consumer_inv(1) [OF pop(3,1,2)] by blast
next
  case (timeout s)
  show ?case using consumer_inv(2) [OF timeout(2,1)] by blast
next
  case (publish s)
  show ?case using consumer_inv(3) [OF publish(2,1)] by blast
next
  case (wake s)
  show ?case using consumer_inv(4) [OF wake(3,1)] by blast
next
  case (spurious s)
  show ?case using consumer_inv(5) [OF spurious(2,1)] by blast
next
  case (reclaim s r)
  show ?case using consumer_inv(6) [OF reclaim(2,1)] by blast
qed

lemma mq_reachable_inv: "mq_reachable s \<Longrightarrow> \<exists>ch. mq_inv ch s"
proof (induction rule: mq_reachable.induct)
  case (created stub)
  then show ?case using new_inv by blast
next
  case (stepped s s')
  then show ?case using mq_step_inv by blast
qed

section \<open>Drop\<close>

text \<open>With all links set, the loop frees the nodes of the chain one after the other, and nothing else.\<close>

lemma drop_loop_chain:
  "distinct (a # ch) \<Longrightarrow> \<forall>b \<in> set (a # ch). h b \<noteq> None \<Longrightarrow>
   \<forall>i. Suc i < length (a # ch) \<longrightarrow> nd_next (the (h ((a # ch) ! i))) = Some ((a # ch) ! Suc i) \<Longrightarrow>
   nd_next (the (h (last (a # ch)))) = None \<Longrightarrow> length (a # ch) \<le> k \<Longrightarrow>
   drop_loop k (Some a) h = Some (\<lambda>b. if b \<in> set (a # ch) then None else h b)"
proof (induction ch arbitrary: a h k)
  case Nil
  then obtain k' where "k = Suc k'" by (cases k) auto
  then show ?case using Nil by (auto simp: fun_eq_iff)
next
  case (Cons b ch)
  obtain k' where k: "k = Suc k'" using Cons.prems(5) by (cases k) auto
  obtain nd where nd: "h a = Some nd" using Cons.prems(2) by auto
  have ab: "a \<notin> set (b # ch)" using Cons.prems(1) by simp
  let ?h = "h(a := None)"
  have h: "?h x = h x" if "x \<in> set (b # ch)" for x using that ab by auto
  have "nd_next nd = Some b" using Cons.prems(3) [rule_format, of 0] nd by simp
  moreover have "drop_loop k' (Some b) ?h = Some (\<lambda>x. if x \<in> set (b # ch) then None else ?h x)"
  proof (rule Cons.IH)
    show "\<forall>x \<in> set (b # ch). ?h x \<noteq> None" using Cons.prems(2) h by auto
    show "\<forall>i. Suc i < length (b # ch) \<longrightarrow> nd_next (the (?h ((b # ch) ! i))) = Some ((b # ch) ! Suc i)"
    proof (intro allI impI)
      fix i
      assume i: "Suc i < length (b # ch)"
      then have "(b # ch) ! i \<in> set (b # ch)" by (intro nth_mem) simp
      then show "nd_next (the (?h ((b # ch) ! i))) = Some ((b # ch) ! Suc i)"
        using Cons.prems(3) [rule_format, of "Suc i"] i h by simp
    qed
    have "last (b # ch) \<in> set (b # ch)" by (rule last_in_set) simp
    then show "nd_next (the (?h (last (b # ch)))) = None" using Cons.prems(4) h by simp
  qed (use Cons.prems k in simp_all)
  ultimately show ?case using k nd by (auto simp: fun_eq_iff)
qed


section \<open>Properties\<close>

text \<open>What is in the queue, for the callers.\<close>

definition mq_contents :: "'a mq \<Rightarrow> 'a list" where
  "mq_contents s = drop (length (q_popped s)) (q_pushed s)"







text \<open>
  C20. No wakeup is lost: when the consumer sleeps without a token and no producer is between its swap and its last look at
  the slot, the queue is empty. So a value that was pushed is never left behind with the consumer asleep.
\<close>

theorem mpsc_no_lost_wakeup:
  assumes "mq_reachable s" "q_cons s = CPark" "\<not> q_token s" "\<And>p. \<not> will_look (q_prod s p) \<and> q_prod s p \<noteq> PUnpark"
  shows "q_pushed s = q_popped s"
proof -
  obtain ch where i: "mq_inv ch s" using mq_reachable_inv [OF assms(1)] by blast
  then have "length ch = 1" using assms(2-4) by (auto simp: mq_inv_def wake_ok_def published_def)
  then have "tl ch = []" by (cases ch) auto
  then show ?thesis using chainD(10) [of ch s] i by (simp add: mq_inv_def)
qed

text \<open>A consumer that goes to sleep on an empty queue.\<close>

definition sleeping :: "nat mq" where
  "sleeping = (mq_new 0)\<lparr>q_waiter := True, q_cons := CPark\<rparr>"

lemma sleeping_reachable: "mq_reachable sleeping"
proof -
  let ?q = "mq_new 0 :: nat mq"
  have "mq_reachable (?q\<lparr>q_cons := CLoad First\<rparr>)" by (rule stepped [OF created pop]) (simp_all add: mq_new_def)
  from stepped [OF this next_load] have "mq_reachable (?q\<lparr>q_cons := CHead First\<rparr>)" by (simp add: pop_load_def mq_new_def)
  from stepped [OF this head_load] have "mq_reachable (?q\<lparr>q_cons := CPublish\<rparr>)" by (simp add: pop_head_def mq_new_def)
  from stepped [OF this publish] have "mq_reachable (?q\<lparr>q_waiter := True, q_cons := CLoad Second\<rparr>)"
    by (simp add: publish_waiter_def mq_new_def)
  from stepped [OF this next_load] have "mq_reachable (?q\<lparr>q_waiter := True, q_cons := CHead Second\<rparr>)"
    by (simp add: pop_load_def mq_new_def)
  from stepped [OF this head_load] have "mq_reachable (?q\<lparr>q_waiter := True, q_cons := CPark\<rparr>)"
    by (simp add: pop_head_def mq_new_def)
  then show ?thesis by (simp add: sleeping_def mq_new_def)
qed

theorem mpsc_no_lost_wakeup_witness: "mq_reachable sleeping \<and> q_cons sleeping = CPark \<and> q_pushed sleeping = q_popped sleeping"
  using mpsc_no_lost_wakeup [OF sleeping_reachable] sleeping_reachable by (simp add: sleeping_def mq_new_def will_look_def)

text \<open>
  C21. Dropping the queue when no push is in progress frees every node exactly once: the loop ends, no node is freed twice
  and the heap is empty.
\<close>

theorem mpsc_drop_frees_all:
  assumes "mq_reachable s" "\<And>p n. q_prod s p \<noteq> PSwap n" "\<And>p n prev. q_prod s p \<noteq> PLink n prev"
    and "Suc (length (mq_contents s)) \<le> k"
  shows "mq_drop k s = Some (\<lambda>_. None)"
proof -
  obtain ch where i: "mq_inv ch s" using mq_reachable_inv [OF assms(1)] by blast
  have c: "chain_ok ch s" and l: "links_ok ch s" using i by (simp_all add: mq_inv_def)
  note d = chainD [OF c]
  obtain ch' where ch: "ch = q_tail s # ch'" using d(1,3) by (cases ch) auto
  have "length (mq_contents s) = length ch'" using d(10) ch by (simp add: mq_contents_def)
  then have "drop_loop k (Some (q_tail s)) (q_heap s) = Some (\<lambda>b. if b \<in> set ch then None else q_heap s b)"
    unfolding ch
  proof (intro drop_loop_chain)
    show "\<forall>j. Suc j < length (q_tail s # ch') \<longrightarrow>
        nd_next (the (q_heap s ((q_tail s # ch') ! j))) = Some ((q_tail s # ch') ! Suc j)"
      using l assms(3) unfolding links_ok_def ch by blast
    show "nd_next (the (q_heap s (last (q_tail s # ch')))) = None" using d(4,9) ch by simp
    show "\<forall>b \<in> set (q_tail s # ch'). q_heap s b \<noteq> None" using d(7) ch by blast
  qed (use d(2) ch assms(4) in simp_all)
  moreover have "q_heap s b = None" if "b \<notin> set ch" for b using i that assms(2) unfolding mq_inv_def no_leak_def by blast
  ultimately show ?thesis by (auto simp: mq_drop_def fun_eq_iff)
qed

theorem mpsc_drop_frees_all_witness: "mq_reachable sleeping \<and> mq_drop 1 sleeping = Some (\<lambda>_. None)"
  using mpsc_drop_frees_all [OF sleeping_reachable, of 1] sleeping_reachable by (simp add: sleeping_def mq_new_def mq_contents_def)

end
