(* ===== verification/FrameClaims.thy ===== *)
theory FrameClaims
  imports WalRules
begin

text \<open>
  What recovery may rely on: a segment cut by a crash gives the records that are whole, and the walk over the blocks never
  passes one that is still being written.
\<close>

lemma frames_at_records: "map (\<lambda>f. (fr_env f, fr_payload f)) (frames_at sha off rs) = rs"
  by (induction rs arbitrary: off) simp_all

text \<open>
  C23. A segment of well-formed records, cut after any number of bytes, is read as just the records that lie wholly within
  the cut, envelope and payload together, and the walk ends where the last of them ends; it is reported torn exactly when
  at least the header of a further frame is there.
\<close>

theorem cut_log_keeps_whole_records:
  assumes "list_all (rec_ok sha) rs"
  shows "\<exists>fs. parse_frames_from_bytes sha (take n (log_of sha rs)) 0 =
      (fs, length (log_of sha (whole sha n rs)), length (log_of sha (whole sha n rs)) + 84 \<le> min n (length (log_of sha rs))) \<and>
    map (\<lambda>f. (fr_env f, fr_payload f)) fs = whole sha n rs"
  using parse_frames_cut [OF assms, of n] frames_at_records by blast

theorem cut_log_keeps_whole_records_witness:
  "\<exists>fs. parse_frames_from_bytes (\<lambda>b. replicate 32 7) (take 175 (log_of (\<lambda>b. replicate 32 7) [([], [1]), ([2], [])])) 0 =
      (fs, length (log_of (\<lambda>b. replicate 32 7) (whole (\<lambda>b. replicate 32 7) 175 [([], [1]), ([2], [])])),
       length (log_of (\<lambda>b. replicate 32 7) (whole (\<lambda>b. replicate 32 7) 175 [([], [1]), ([2], [])])) + 84
         \<le> min 175 (length (log_of (\<lambda>b. replicate 32 7) [([], [1]), ([2], [])]))) \<and>
    map (\<lambda>f. (fr_env f, fr_payload f)) fs = whole (\<lambda>b. replicate 32 7) 175 [([], [1]), ([2], [])]"
  by (rule cut_log_keeps_whole_records) (simp add: rec_ok_def)

text \<open>
  C25. With preallocated files, a block of which only a part is written, even a part that ends at the end of a frame, or
  whose payloads imitate the trailer, stops the walk at its own number: the frontier the caller keeps does not pass it.
  Once the block is written and the next file is still empty or missing, the walk from there visits exactly its records
  and the frontier moves on by one.
\<close>

theorem block_frontier_waits:
  assumes "list_all (rec_ok sha) rs" "length (log_of sha rs) < 10 ^ 16" "1 \<le> s"
    and "k < length (log_of sha rs @ trailer_for (length (log_of sha rs)))"
    and "fs (block_path dir s) = Some (take k (log_of sha rs @ trailer_for (length (log_of sha rs))))"
    and "fs' (block_path dir s) = Some (log_of sha rs @ trailer_for (length (log_of sha rs)))"
    and "fs' (block_path dir (s + 1)) = None \<or> fs' (block_path dir (s + 1)) = Some []"
  shows "map_option snd (walk_hotblk_frames sha True dir fs s) = Some s \<and>
    map_option (\<lambda>(vs, e). (map (\<lambda>v. (fr_env (snd v), fr_payload (snd v))) vs, e)) (walk_hotblk_frames sha True dir fs' s) = Some (rs, s + 1)"
proof
  let ?b = "log_of sha rs @ trailer_for (length (log_of sha rs))"
  have k: "k < length (log_of sha rs) + 24" using assms(4) trailer_length [OF assms(2)] by simp
  have "map_option snd (hotblk_loop sha True fs dir s) = Some s"
  proof (cases "split_complete True (take k ?b)")
    case None
    then show ?thesis using assms(5) hotblk_loop.simps [of sha True fs dir s] by simp
  next
    case (Some body)
    obtain frs e torn where p: "parse_frames_from_bytes sha body 0 = (frs, e, torn)" by (metis prod_cases3)
    from block_prefix_open [OF assms(1,2) k Some p] Some p show ?thesis
      using assms(5) hotblk_loop.simps [of sha True fs dir s] by simp
  qed
  then show "map_option snd (walk_hotblk_frames sha True dir fs s) = Some s"
    using assms(3) by (simp add: walk_hotblk_frames_def max_def)
  have "split_complete True [] = None" by (simp add: split_complete_def BLOCK_TRAILER_LEN_def)
  then have "hotblk_loop sha True fs' dir (s + 1) = Some ([], s + 1)"
    using assms(7) hotblk_loop.simps [of sha True fs' dir "s + 1"] by auto
  then have "hotblk_loop sha True fs' dir s = Some (map (Pair s) (frames_at sha 0 rs), s + 1)"
    using assms(6) split_complete_whole [OF refl assms(2), of True] frames_at_end [OF assms(1)]
      hotblk_loop.simps [of sha True fs' dir s] by (simp add: body_is_intact_def)
  then show "map_option (\<lambda>(vs, e). (map (\<lambda>v. (fr_env (snd v), fr_payload (snd v))) vs, e)) (walk_hotblk_frames sha True dir fs' s) = Some (rs, s + 1)"
    using assms(3) frames_at_records [of sha 0 rs] by (simp add: walk_hotblk_frames_def max_def comp_def)
qed

theorem block_frontier_waits_witness:
  "map_option snd (walk_hotblk_frames (\<lambda>b. replicate 32 7) True []
      [block_path [] 1 \<mapsto> take 85 (log_of (\<lambda>b. replicate 32 7) [([], [1]), ([], [2])] @ trailer_for 170)] 1) = Some 1 \<and>
    map_option (\<lambda>(vs, e). (map (\<lambda>v. (fr_env (snd v), fr_payload (snd v))) vs, e))
      (walk_hotblk_frames (\<lambda>b. replicate 32 7) True []
        [block_path [] 1 \<mapsto> log_of (\<lambda>b. replicate 32 7) [([], [1]), ([], [2])] @ trailer_for 170] 1) =
      Some ([([], [1]), ([], [2])], 1 + 1)"
proof -
  have l: "length (log_of (\<lambda>b. replicate 32 7) [([], [1]), ([], [2])]) = 170"
    by (simp add: frame_of_length rec_ok_def)
  show ?thesis
    by (rule block_frontier_waits [where rs = "[([], [1]), ([], [2])]" and sha = "\<lambda>b. replicate 32 7" and k = 85, unfolded l])
      (simp_all add: rec_ok_def block_path_inject frame_of_length)
qed

end
