(* ===== verification/Blocks.thy ===== *)
theory Blocks
  imports CoreIrTypes
begin

text \<open>
  The Core IR 0.6 block verifier of \<open>src/src/core_ir_05/mod.rs\<close> (\<open>verify_blocks\<close>): the scan that
  matches \<open>CBlock\<close> with \<open>CEnd\<close> and claims the arms of every \<open>CIf\<close>, and the second pass that checks every
  use of a value against the blocks that are open. SHA-256 is third-party code and a parameter.
  The scope stack is kept with its top first.
\<close>

section \<open>The verifier\<close>

definition primitive_type_hash :: "(bytes \<Rightarrow> hash256) \<Rightarrow> u8 \<Rightarrow> hash256" where
  "primitive_type_hash sha code = sha [0x01, 0x00, code]"

definition unit_type_hash :: "(bytes \<Rightarrow> hash256) \<Rightarrow> hash256" where
  "unit_type_hash sha = primitive_type_hash sha 0"

definition as_u32 :: "nat \<Rightarrow> nat" where
  "as_u32 n = n mod 2 ^ 32"

definition is_cend :: "node \<Rightarrow> bool" where
  "is_cend n = (case n of CEnd _ \<Rightarrow> True | _ \<Rightarrow> False)"

definition is_end :: "core_bundle \<Rightarrow> nat \<Rightarrow> bool" where
  "is_end B j \<longleftrightarrow> j < length (nodes B) \<and> is_cend (nodes B ! j)"

definition top_of :: "nat list \<Rightarrow> nat option" where
  "top_of st = (case st of [] \<Rightarrow> None | b # _ \<Rightarrow> Some b)"

definition arm_of_block :: "blocks \<Rightarrow> nat \<Rightarrow> (nat \<times> arm) option" where
  "arm_of_block bl b = (case partner bl ! b of None \<Rightarrow> None | Some e \<Rightarrow> arm_sel bl ! e)"

record scan = blocks +
  sc_stack :: "nat list"

definition claim_arm ::
  "core_bundle \<Rightarrow> nat \<Rightarrow> node_ref \<times> arm \<Rightarrow> (nat \<times> arm) option list \<Rightarrow> block_error + (nat \<times> arm) option list" where
  "claim_arm B k rw arms =
     (case rw of (Pool _, _) \<Rightarrow> Inr arms
      | (Node j, which) \<Rightarrow>
          if is_end B (unat j) then
            (case arms ! unat j of
               Some (k0, _) \<Rightarrow> Inl (ArmTakenTwice (unat j) k0 k)
             | None \<Rightarrow> Inr (arms[unat j := Some (k, which)]))
          else Inr arms)"

definition unit_else :: "(bytes \<Rightarrow> hash256) \<Rightarrow> core_bundle \<Rightarrow> node_ref \<Rightarrow> bool" where
  "unit_else sha B r =
     (case r of Node _ \<Rightarrow> False
      | Pool p \<Rightarrow> unat p < length (constant_pool B) \<and> def_hash (constant_pool B ! unat p) = unit_type_hash sha)"

definition arms_ok ::
  "(bytes \<Rightarrow> hash256) \<Rightarrow> core_bundle \<Rightarrow> nat option list \<Rightarrow> nat \<Rightarrow> node_ref \<Rightarrow> node_ref \<Rightarrow> block_error + bool" where
  "arms_ok sha B part k t e =
     (case (t, e) of
        (Node t', Node e') \<Rightarrow>
          if 1 \<le> k \<and> unat e' = k - 1 \<and> is_end B (unat e') then
            (case part ! unat e' of
               None \<Rightarrow> Inl (BlockPanic ''a closed block'')
             | Some b \<Rightarrow> Inr (1 \<le> b \<and> unat t' = b - 1 \<and> is_end B (unat t')))
          else if 1 \<le> k \<and> unat t' = k - 1 \<and> is_end B (unat t') then Inr (unit_else sha B e)
          else Inr False
      | (Node t', Pool _) \<Rightarrow>
          if 1 \<le> k \<and> unat t' = k - 1 \<and> is_end B (unat t') then Inr (unit_else sha B e) else Inr False
      | _ \<Rightarrow> Inr False)"

definition scan_step :: "(bytes \<Rightarrow> hash256) \<Rightarrow> core_bundle \<Rightarrow> nat \<Rightarrow> node \<Rightarrow> scan \<Rightarrow> block_error + scan" where
  "scan_step sha B i nd s0 =
     (let k = as_u32 i; s = s0\<lparr>home := (home s0)[i := top_of (sc_stack s0)]\<rparr> in
      case nd of
        CBlock \<Rightarrow> Inr (s\<lparr>sc_stack := k # sc_stack s\<rparr>)
      | CEnd _ \<Rightarrow>
          (case sc_stack s of
             [] \<Rightarrow> Inl (EndWithoutBlock k)
           | b # st \<Rightarrow> Inr (s\<lparr>partner := (partner s)[b := Some k, i := Some b],
                              home := (home s)[i := top_of st], sc_stack := st\<rparr>))
      | CIf _ t e \<Rightarrow>
          bindE (claim_arm B k (t, Then) (arm_sel s)) (\<lambda>a1.
          bindE (claim_arm B k (e, Else) a1) (\<lambda>a2.
          bindE (arms_ok sha B (partner s) k t e) (\<lambda>ok.
            if ok then Inr (s\<lparr>arm_sel := a2\<rparr>) else Inl (BadArms k))))
      | _ \<Rightarrow> Inr s)"

fun scan_nodes :: "(bytes \<Rightarrow> hash256) \<Rightarrow> core_bundle \<Rightarrow> nat \<Rightarrow> node list \<Rightarrow> scan \<Rightarrow> block_error + scan" where
  "scan_nodes sha B i [] s = Inr s"
| "scan_nodes sha B i (nd # ns) s = bindE (scan_step sha B i nd s) (scan_nodes sha B (Suc i) ns)"

definition scan_init :: "nat \<Rightarrow> scan" where
  "scan_init n = \<lparr>home = replicate n None, partner = replicate n None, arm_sel = replicate n None, sc_stack = []\<rparr>"

text \<open>
  The walk up the closed blocks around a value, for the refusal's text: the outermost closed block and
  the outermost arm on the way. The loop follows \<open>home\<close>, so \<open>length (nodes B)\<close> steps are enough.
\<close>

fun closed_walk :: "nat \<Rightarrow> blocks \<Rightarrow> bool list \<Rightarrow> nat option \<Rightarrow> nat \<Rightarrow> (nat \<times> arm) option
    \<Rightarrow> (nat \<times> (nat \<times> arm) option) option" where
  "closed_walk fuel bl opn None outermost in_arm = Some (outermost, in_arm)"
| "closed_walk 0 bl opn (Some b) outermost in_arm = None"
| "closed_walk (Suc fuel) bl opn (Some b) outermost in_arm =
     (if opn ! b then Some (outermost, in_arm)
      else closed_walk fuel bl opn (home bl ! b) b
        (case arm_of_block bl b of Some a \<Rightarrow> Some a | None \<Rightarrow> in_arm))"

definition check_home :: "core_bundle \<Rightarrow> blocks \<Rightarrow> bool list \<Rightarrow> user \<Rightarrow> nat \<Rightarrow> block_error + unit" where
  "check_home B bl opn who j =
     (case home bl ! j of
        None \<Rightarrow> Inr ()
      | Some b \<Rightarrow>
          if opn ! b then Inr ()
          else
            (case closed_walk (Suc (length (nodes B))) bl opn (Some b) b None of
               None \<Rightarrow> Inl (BlockPanic ''the walk does not end'')
             | Some (outermost, Some (k, a)) \<Rightarrow> Inl (InsideArm who j a k)
             | Some (outermost, None) \<Rightarrow> Inl (InsideClosedBlock who j outermost)))"

definition check_use :: "core_bundle \<Rightarrow> blocks \<Rightarrow> bool list \<Rightarrow> user \<Rightarrow> node_ref \<Rightarrow> block_error + unit" where
  "check_use B bl opn who used =
     (case used of
        Pool _ \<Rightarrow> Inr ()
      | Node j' \<Rightarrow>
          (let j = unat j' in
           if length (nodes B) \<le> j then Inl (BlockPanic ''index out of bounds'')
           else case nodes B ! j of
             CBlock \<Rightarrow> Inl (RefersToBlock who j)
           | CEnd _ \<Rightarrow>
               (case arm_sel bl ! j of
                  Some (k, _) \<Rightarrow> Inl (RefersToArmEnd j k who)
                | None \<Rightarrow> check_home B bl opn who j)
           | _ \<Rightarrow> check_home B bl opn who j))"

fun check_uses :: "core_bundle \<Rightarrow> blocks \<Rightarrow> bool list \<Rightarrow> user \<Rightarrow> node_ref list \<Rightarrow> block_error + unit" where
  "check_uses B bl opn who [] = Inr ()"
| "check_uses B bl opn who (r # rs) = bindE (check_use B bl opn who r) (\<lambda>_. check_uses B bl opn who rs)"

definition use_step :: "core_bundle \<Rightarrow> blocks \<Rightarrow> nat \<Rightarrow> node \<Rightarrow> bool list \<Rightarrow> block_error + bool list" where
  "use_step B bl u nd opn =
     (case nd of
        CBlock \<Rightarrow> Inr (opn[u := True])
      | CEnd v \<Rightarrow>
          bindE (check_use B bl opn (NodeUser u) v) (\<lambda>_.
            case partner bl ! u of
              None \<Rightarrow> Inl (BlockPanic ''a matched CEnd'')
            | Some b \<Rightarrow> Inr (opn[b := False]))
      | CCall _ as _ \<Rightarrow> bindE (check_uses B bl opn (NodeUser u) as) (\<lambda>_. Inr opn)
      | CIf c _ _ \<Rightarrow> bindE (check_use B bl opn (NodeUser u) c) (\<lambda>_. Inr opn)
      | CDeterminate \<Rightarrow> Inr opn)"

fun use_nodes :: "core_bundle \<Rightarrow> blocks \<Rightarrow> nat \<Rightarrow> node list \<Rightarrow> bool list \<Rightarrow> block_error + bool list" where
  "use_nodes B bl u [] opn = Inr opn"
| "use_nodes B bl u (nd # ns) opn = bindE (use_step B bl u nd opn) (use_nodes B bl (Suc u) ns)"

definition verify_blocks :: "(bytes \<Rightarrow> hash256) \<Rightarrow> core_bundle \<Rightarrow> block_error + blocks" where
  "verify_blocks sha B =
     (let n = length (nodes B) in
      bindE (scan_nodes sha B 0 (nodes B) (scan_init n)) (\<lambda>s.
        if sc_stack s \<noteq> [] then Inl (NeverClosed (last (sc_stack s)))
        else
          (let bl = blocks.truncate s in
           bindE (use_nodes B bl 0 (nodes B) (replicate n False)) (\<lambda>opn.
           bindE (check_use B bl opn ResultUser (result B)) (\<lambda>_. Inr bl)))))"

end
