(* ===== verification/BlockScan.thy ===== *)
theory BlockScan
  imports Blocks
begin

text \<open>
  The first pass of the block verifier: the scope stack as a function of the node list, and the
  invariants that tie the scan's \<open>home\<close>, \<open>partner\<close> and \<open>arm_sel\<close> vectors to it.
\<close>

section \<open>The scope stack as a function of the node list\<close>

fun open_stack :: "node list \<Rightarrow> nat \<Rightarrow> nat list" where
  "open_stack ns 0 = []"
| "open_stack ns (Suc i) =
     (case ns ! i of CBlock \<Rightarrow> i # open_stack ns i | CEnd _ \<Rightarrow> tl (open_stack ns i) | _ \<Rightarrow> open_stack ns i)"

definition scope :: "node list \<Rightarrow> nat \<Rightarrow> nat list" where
  "scope ns j = (if is_cend (ns ! j) then tl (open_stack ns j) else open_stack ns j)"

lemma open_stack_less: "b \<in> set (open_stack ns i) \<Longrightarrow> b < i \<and> ns ! b = CBlock"
  by (induction i) (auto split: node.splits dest: in_set_tl intro: less_SucI)

lemma open_stack_below: "open_stack ns i = pre @ b # rest \<Longrightarrow> rest = open_stack ns b"
proof (induction i arbitrary: pre)
  case 0
  then show ?case by simp
next
  case (Suc i)
  show ?case
  proof (cases "ns ! i")
    case CBlock
    with Suc show ?thesis by (cases pre) auto
  next
    case (CEnd v)
    with Suc.prems have "open_stack ns i = (hd (open_stack ns i) # pre) @ b # rest"
      by (cases "open_stack ns i") auto
    then show ?thesis by (rule Suc.IH)
  qed (use Suc in auto)
qed

lemma open_stack_distinct: "distinct (open_stack ns i)"
  by (induction i) (auto split: node.splits dest: open_stack_less intro: distinct_tl)

lemma open_stack_suffix: "b \<in> set (open_stack ns i) \<Longrightarrow> \<exists>pre. open_stack ns i = pre @ b # open_stack ns b"
  by (metis open_stack_below split_list)

lemma scope_top: "scope ns j = b # rest \<Longrightarrow> rest = open_stack ns b"
proof (cases "is_cend (ns ! j)")
  case True
  assume "scope ns j = b # rest"
  with True have "open_stack ns j = [hd (open_stack ns j)] @ b # rest"
    by (cases "open_stack ns j") (auto simp: scope_def)
  then show ?thesis by (rule open_stack_below)
next
  case False
  assume "scope ns j = b # rest"
  with False have "open_stack ns j = [] @ b # rest" by (simp add: scope_def)
  then show ?thesis by (rule open_stack_below)
qed

lemma scope_within:
  assumes "scope ns j = b # rest" "b \<in> set (open_stack ns u)"
  shows "set (scope ns j) \<subseteq> set (open_stack ns u)"
  using scope_top [OF assms(1)] open_stack_suffix [OF assms(2)] assms(1) by auto

section \<open>The scan follows the stack\<close>

definition matched :: "node list \<Rightarrow> nat \<Rightarrow> nat \<Rightarrow> bool" where
  "matched ns b e \<longleftrightarrow> e < length ns \<and> is_cend (ns ! e) \<and> open_stack ns e \<noteq> [] \<and> hd (open_stack ns e) = b"

definition scan_inv :: "core_bundle \<Rightarrow> nat \<Rightarrow> 'a scan_scheme \<Rightarrow> bool" where
  "scan_inv B i s \<longleftrightarrow>
     length (home s) = length (nodes B) \<and> length (partner s) = length (nodes B) \<and>
     length (arm_sel s) = length (nodes B) \<and> sc_stack s = open_stack (nodes B) i \<and>
     (\<forall>j < i. home s ! j = top_of (scope (nodes B) j)) \<and>
     (\<forall>e < i. is_cend (nodes B ! e) \<longrightarrow> open_stack (nodes B) e \<noteq> []) \<and>
     (\<forall>b e. matched (nodes B) b e \<and> e < i \<longrightarrow> partner s ! b = Some e \<and> partner s ! e = Some b) \<and>
     (\<forall>x < length (nodes B). \<forall>y. partner s ! x = Some y \<longrightarrow>
        (matched (nodes B) x y \<and> y < i) \<or> (matched (nodes B) y x \<and> x < i)) \<and>
     (\<forall>b < i. nodes B ! b = CBlock \<longrightarrow> b \<in> set (open_stack (nodes B) i) \<or> partner s ! b \<noteq> None)"

lemma matched_less: "matched ns b e \<Longrightarrow> b < e \<and> ns ! b = CBlock \<and> \<not> is_cend (ns ! b)"
  using open_stack_less [of b ns e] by (auto simp: matched_def is_cend_def dest: hd_in_set)

lemma matched_not_open: "matched ns b e \<Longrightarrow> e < i \<Longrightarrow> b \<notin> set (open_stack ns i)"
proof (induction i)
  case (Suc i)
  show ?case
  proof (cases "e = i")
    case True
    with Suc.prems have "open_stack ns i = b # tl (open_stack ns i)" "\<exists>v. ns ! i = CEnd v"
      by (auto simp: matched_def is_cend_def split: node.splits)
    with open_stack_distinct [of ns i] show ?thesis by (auto, metis distinct.simps(2))
  next
    case False
    with Suc have "b \<notin> set (open_stack ns i)" "b < i" using matched_less [of ns b e] by auto
    then show ?thesis by (auto split: node.splits dest: in_set_tl)
  qed
qed simp

lemma matched_unique: "matched ns b e \<Longrightarrow> matched ns b e' \<Longrightarrow> e = e'"
  by (metis hd_in_set linorder_neqE_nat matched_def matched_not_open)

lemma scan_inv_grow:
  assumes inv: "scan_inv B i s" and i: "i < length (nodes B)"
    and nd: "\<not> is_cend (nodes B ! i)"
    and s': "home s' = (home s)[i := top_of (sc_stack s)]" "partner s' = partner s"
      "length (arm_sel s') = length (arm_sel s)" "sc_stack s' = open_stack (nodes B) (Suc i)"
  shows "scan_inv B (Suc i) s'"
proof -
  note I = inv [unfolded scan_inv_def]
  have scp: "scope (nodes B) i = open_stack (nodes B) i" using nd by (simp add: scope_def)
  have un: "\<not> matched (nodes B) b i" for b using nd by (simp add: matched_def)
  have h: "\<forall>j < Suc i. home s' ! j = top_of (scope (nodes B) j)"
    using I s'(1) scp i by (auto simp: nth_list_update less_Suc_eq)
  have m: "\<forall>b e. matched (nodes B) b e \<and> e < Suc i \<longrightarrow> partner s' ! b = Some e \<and> partner s' ! e = Some b"
    using I s'(2) un by (metis less_antisym)
  have p: "\<forall>x < length (nodes B). \<forall>y. partner s' ! x = Some y \<longrightarrow>
        (matched (nodes B) x y \<and> y < Suc i) \<or> (matched (nodes B) y x \<and> x < Suc i)"
    using I s'(2) by (metis less_SucI)
  have o: "\<forall>b < Suc i. nodes B ! b = CBlock \<longrightarrow> b \<in> set (open_stack (nodes B) (Suc i)) \<or> partner s' ! b \<noteq> None"
    using I s'(2) nd by (auto simp: less_Suc_eq is_cend_def split: node.splits)
  have c: "\<forall>e < Suc i. is_cend (nodes B ! e) \<longrightarrow> open_stack (nodes B) e \<noteq> []"
    using I nd by (auto simp: less_Suc_eq)
  show ?thesis unfolding scan_inv_def
    using I s' h m p o c by (intro conjI) simp_all
qed

lemma scan_inv_close:
  assumes inv: "scan_inv B i s" and i: "i < length (nodes B)"
    and nd: "is_cend (nodes B ! i)" and st: "sc_stack s = b # st"
    and s': "home s' = (home s)[i := top_of st]" "partner s' = (partner s)[b := Some i, i := Some b]"
      "length (arm_sel s') = length (arm_sel s)" "sc_stack s' = st"
  shows "scan_inv B (Suc i) s'"
proof -
  note I = inv [unfolded scan_inv_def]
  have os: "open_stack (nodes B) i = b # st" using I st by simp
  then have scp: "scope (nodes B) i = st" and os': "open_stack (nodes B) (Suc i) = st"
    using nd by (auto simp: scope_def is_cend_def split: node.splits)
  have mi: "matched (nodes B) b i" using nd i os by (simp add: matched_def)
  then have bi: "b < i" "nodes B ! b = CBlock" using matched_less by blast+
  have h: "\<forall>j < Suc i. home s' ! j = top_of (scope (nodes B) j)"
    using I s'(1) scp i by (auto simp: nth_list_update less_Suc_eq)
  have pn: "matched (nodes B) b' e \<and> e < i \<Longrightarrow> b' \<noteq> b \<and> e \<noteq> b \<and> b' \<noteq> i \<and> e \<noteq> i" for b' e
    using matched_not_open [of "nodes B" b' e i] matched_less [of "nodes B" b' e] os bi
    by (auto simp: matched_def is_cend_def)
  have m: "\<forall>b' e. matched (nodes B) b' e \<and> e < Suc i \<longrightarrow> partner s' ! b' = Some e \<and> partner s' ! e = Some b'"
  proof (intro allI impI)
    fix b' e assume a: "matched (nodes B) b' e \<and> e < Suc i"
    show "partner s' ! b' = Some e \<and> partner s' ! e = Some b'"
    proof (cases "e = i")
      case True
      with a os have "b' = b" by (simp add: matched_def)
      with True show ?thesis using I s'(2) i bi by simp
    next
      case False
      with a pn [of b' e] I s'(2) show ?thesis by simp
    qed
  qed
  have p: "\<forall>x < length (nodes B). \<forall>y. partner s' ! x = Some y \<longrightarrow>
        (matched (nodes B) x y \<and> y < Suc i) \<or> (matched (nodes B) y x \<and> x < Suc i)"
  proof (intro allI impI)
    fix x y assume x: "x < length (nodes B)" and y: "partner s' ! x = Some y"
    consider "x = i" | "x = b" | "x \<noteq> i" "x \<noteq> b" by blast
    then show "(matched (nodes B) x y \<and> y < Suc i) \<or> (matched (nodes B) y x \<and> x < Suc i)"
    proof cases
      case 3
      with y s'(2) have "partner s ! x = Some y" by simp
      with I x show ?thesis by (metis less_SucI)
    qed (use y s'(2) I i bi mi in \<open>simp_all add: nth_list_update\<close>)
  qed
  have o: "\<forall>b' < Suc i. nodes B ! b' = CBlock \<longrightarrow> b' \<in> set (open_stack (nodes B) (Suc i)) \<or> partner s' ! b' \<noteq> None"
  proof (intro allI impI)
    fix b' assume b': "b' < Suc i" "nodes B ! b' = CBlock"
    with nd have "b' < i" by (cases "b' = i") (auto simp: is_cend_def)
    with I b' have "b' \<in> set (b # st) \<or> partner s ! b' \<noteq> None" unfolding os by auto
    then show "b' \<in> set (open_stack (nodes B) (Suc i)) \<or> partner s' ! b' \<noteq> None"
      unfolding os' s'(2) using I i bi by (cases "b' = b"; cases "b' = i") auto
  qed
  have c: "\<forall>e < Suc i. is_cend (nodes B ! e) \<longrightarrow> open_stack (nodes B) e \<noteq> []"
    using I os by (auto simp: less_Suc_eq)
  show ?thesis unfolding scan_inv_def
    using I s' os' h m p o c by (intro conjI) simp_all
qed

lemma claim_arm_length: "claim_arm B k rw arms = Inr arms' \<Longrightarrow> length arms' = length arms"
  by (auto simp: claim_arm_def split: prod.splits node_ref.splits if_splits option.splits)

lemma scan_step_inv:
  assumes inv: "scan_inv B i s" and i: "i < length (nodes B)" "length (nodes B) \<le> 2 ^ 32"
    and step: "scan_step sha B i (nodes B ! i) s = Inr s'"
  shows "scan_inv B (Suc i) s'"
proof -
  have k: "as_u32 i = i" using i by (simp add: as_u32_def)
  have st: "sc_stack s = open_stack (nodes B) i" using inv by (simp add: scan_inv_def)
  show ?thesis
  proof (cases "is_cend (nodes B ! i)")
    case True
    then obtain v where "nodes B ! i = CEnd v" by (auto simp: is_cend_def split: node.splits)
    with step k obtain b st' where "sc_stack s = b # st'"
      "s' = s\<lparr>partner := (partner s)[b := Some i, i := Some b], home := (home s)[i := top_of st'], sc_stack := st'\<rparr>"
      by (auto simp: scan_step_def Let_def split: list.splits)
    then show ?thesis by (intro scan_inv_close [OF inv i(1) True]) auto
  next
    case False
    show ?thesis
      by (rule scan_inv_grow [OF inv i(1) False])
        (use step k st False in \<open>auto simp: scan_step_def Let_def is_cend_def claim_arm_length
           split: node.splits if_splits\<close>)
  qed
qed

lemma scan_nodes_inv:
  assumes "scan_inv B i s" "i + length ns = length (nodes B)" "ns = drop i (nodes B)" "length (nodes B) \<le> 2 ^ 32"
    and "scan_nodes sha B i ns s = Inr s'"
  shows "scan_inv B (length (nodes B)) s'"
  using assms
proof (induction ns arbitrary: i s)
  case (Cons nd ns)
  from Cons.prems(2) have i: "i < length (nodes B)" by simp
  with Cons.prems(3) have nd: "nd = nodes B ! i" and ns: "ns = drop (Suc i) (nodes B)"
    by (simp_all add: Cons_nth_drop_Suc [symmetric])
  from Cons.prems(5) obtain s1 where s1: "scan_step sha B i nd s = Inr s1" "scan_nodes sha B (Suc i) ns s1 = Inr s'"
    by auto
  have "scan_inv B (Suc i) s1" using scan_step_inv [OF Cons.prems(1) i Cons.prems(4)] s1(1) nd by blast
  from Cons.IH [OF this _ ns Cons.prems(4) s1(2)] Cons.prems(2) show ?case by simp
qed simp

lemma scan_init_inv: "scan_inv B 0 (scan_init (length (nodes B)))"
  by (auto simp: scan_inv_def scan_init_def matched_def)

section \<open>Arms\<close>

definition arm_ref :: "arm \<Rightarrow> node \<Rightarrow> node_ref option" where
  "arm_ref w nd = (case nd of CIf _ t e \<Rightarrow> Some (case w of Then \<Rightarrow> t | Else \<Rightarrow> e) | _ \<Rightarrow> None)"

text \<open>The two shapes of a \<open>CIf\<close> at index \<open>k\<close>: both arms are the blocks directly before it, or one arm and a unit \<open>else\<close>.\<close>

definition two_armed :: "node list \<Rightarrow> nat \<Rightarrow> nat \<Rightarrow> nat \<Rightarrow> bool" where
  "two_armed ns k t e \<longleftrightarrow> 1 \<le> k \<and> e = k - 1 \<and> is_cend (ns ! e) \<and> is_cend (ns ! t) \<and> t < length ns \<and>
     open_stack ns e \<noteq> [] \<and> Suc t = hd (open_stack ns e)"

definition one_armed :: "node list \<Rightarrow> nat \<Rightarrow> nat \<Rightarrow> bool" where
  "one_armed ns k t \<longleftrightarrow> 1 \<le> k \<and> t = k - 1 \<and> is_cend (ns ! t)"

definition arms_inv :: "(bytes \<Rightarrow> hash256) \<Rightarrow> core_bundle \<Rightarrow> nat \<Rightarrow> (nat \<times> arm) option list \<Rightarrow> bool" where
  "arms_inv sha B i as \<longleftrightarrow>
     length as = length (nodes B) \<and>
     (\<forall>j < length (nodes B). \<forall>k w. as ! j = Some (k, w) \<longrightarrow>
        k < i \<and> (\<exists>j'. arm_ref w (nodes B ! k) = Some (Node j') \<and> unat j' = j)) \<and>
     (\<forall>k < i. \<forall>c t e. nodes B ! k = CIf c t e \<longrightarrow>
        (\<exists>t'. t = Node t' \<and> as ! unat t' = Some (k, Then) \<and>
           ((\<exists>e'. e = Node e' \<and> two_armed (nodes B) k (unat t') (unat e') \<and> as ! unat e' = Some (k, Else)) \<or>
            (unit_else sha B e \<and> one_armed (nodes B) k (unat t')))))"

lemma claim_arm_Inr:
  assumes "claim_arm B k (r, w) as = Inr as'"
  shows "as' = as \<or> (\<exists>j. r = Node j \<and> is_end B (unat j) \<and> as ! unat j = None \<and> as' = as[unat j := Some (k, w)])"
  using assms by (auto simp: claim_arm_def split: node_ref.splits if_splits option.splits)

lemma claim_arm_end:
  assumes "claim_arm B k (Node j, w) as = Inr as'" "is_end B (unat j)"
  shows "as ! unat j = None \<and> as' = as[unat j := Some (k, w)]"
  using assms by (auto simp: claim_arm_def split: option.splits)

lemma arms_ok_True:
  assumes "arms_ok sha B part k t e = Inr True" "k < length (nodes B)"
    and part: "\<And>e. is_end B e \<Longrightarrow> e < k \<Longrightarrow> part ! e = Some (hd (open_stack (nodes B) e)) \<and> open_stack (nodes B) e \<noteq> []"
  shows "\<exists>t'. t = Node t' \<and> is_end B (unat t') \<and>
    ((\<exists>e'. e = Node e' \<and> two_armed (nodes B) k (unat t') (unat e')) \<or>
     (unit_else sha B e \<and> one_armed (nodes B) k (unat t')))"
proof (cases t)
  case (Node t')
  show ?thesis
  proof (cases e)
    case e: (Node e')
    with assms(1) Node have k: "1 \<le> k" "unat e' = k - 1" "is_end B (unat e')"
      by (auto simp: arms_ok_def unit_else_def split: if_splits option.splits)
    with part [of "unat e'"] have
      p: "part ! unat e' = Some (hd (open_stack (nodes B) (unat e')))" "open_stack (nodes B) (unat e') \<noteq> []" by auto
    with assms(1) Node e k have "1 \<le> hd (open_stack (nodes B) (unat e'))"
      "unat t' = hd (open_stack (nodes B) (unat e')) - 1" "is_end B (unat t')"
      by (auto simp: arms_ok_def)
    then show ?thesis using Node e k p by (auto simp: two_armed_def is_end_def)
  next
    case (Pool p)
    with assms(1) Node show ?thesis by (auto simp: arms_ok_def one_armed_def is_end_def split: if_splits)
  qed
next
  case (Pool x)
  with assms(1) show ?thesis by (auto simp: arms_ok_def split: node_ref.splits)
qed

lemma arms_inv_same: "arms_inv sha B i as \<Longrightarrow> (\<And>c t e. nodes B ! i \<noteq> CIf c t e) \<Longrightarrow> arms_inv sha B (Suc i) as"
  unfolding arms_inv_def by (metis less_SucE less_SucI)


lemma arms_inv_extend:
  assumes inv: "arms_inv sha B i as" and i: "i < length (nodes B)" and nd: "nodes B ! i = CIf c t e"
    and old: "\<And>j. as ! j \<noteq> None \<Longrightarrow> j < length (nodes B) \<Longrightarrow> as' ! j = as ! j" and len: "length as' = length as"
    and new: "\<And>j k w. j < length (nodes B) \<Longrightarrow> as ! j = None \<Longrightarrow> as' ! j = Some (k, w) \<Longrightarrow>
       k = i \<and> (\<exists>j'. arm_ref w (nodes B ! k) = Some (Node j') \<and> unat j' = j)"
    and shape: "\<exists>t'. t = Node t' \<and> as' ! unat t' = Some (i, Then) \<and>
       ((\<exists>e'. e = Node e' \<and> two_armed (nodes B) i (unat t') (unat e') \<and> as' ! unat e' = Some (i, Else)) \<or>
        (unit_else sha B e \<and> one_armed (nodes B) i (unat t')))"
  shows "arms_inv sha B (Suc i) as'"
proof -
  note I = inv [unfolded arms_inv_def]
  have a: "\<forall>j < length (nodes B). \<forall>k w. as' ! j = Some (k, w) \<longrightarrow>
        k < Suc i \<and> (\<exists>j'. arm_ref w (nodes B ! k) = Some (Node j') \<and> unat j' = j)"
  proof (intro allI impI)
    fix j k w assume j: "j < length (nodes B)" "as' ! j = Some (k, w)"
    show "k < Suc i \<and> (\<exists>j'. arm_ref w (nodes B ! k) = Some (Node j') \<and> unat j' = j)"
    proof (cases "as ! j = None")
      case True
      with new [OF j(1) True j(2)] show ?thesis by auto
    next
      case False
      with old [OF False j(1)] j have "as ! j = Some (k, w)" by simp
      with I j(1) show ?thesis by (metis less_SucI)
    qed
  qed
  have b: "\<forall>k < Suc i. \<forall>c t e. nodes B ! k = CIf c t e \<longrightarrow>
        (\<exists>t'. t = Node t' \<and> as' ! unat t' = Some (k, Then) \<and>
           ((\<exists>e'. e = Node e' \<and> two_armed (nodes B) k (unat t') (unat e') \<and> as' ! unat e' = Some (k, Else)) \<or>
            (unit_else sha B e \<and> one_armed (nodes B) k (unat t'))))"
  proof (intro allI impI)
    fix k c2 t2 e2 assume k: "k < Suc i" "nodes B ! k = CIf c2 t2 e2"
    show "\<exists>t'. t2 = Node t' \<and> as' ! unat t' = Some (k, Then) \<and>
           ((\<exists>e'. e2 = Node e' \<and> two_armed (nodes B) k (unat t') (unat e') \<and> as' ! unat e' = Some (k, Else)) \<or>
            (unit_else sha B e2 \<and> one_armed (nodes B) k (unat t')))"
    proof (cases "k = i")
      case True
      with k(2) nd shape show ?thesis by simp
    next
      case False
      with k(1) have ki: "k < i" by simp
      with I k(2) obtain t' where t': "t2 = Node t'" "as ! unat t' = Some (k, Then)"
        and sh: "(\<exists>e'. e2 = Node e' \<and> two_armed (nodes B) k (unat t') (unat e') \<and> as ! unat e' = Some (k, Else)) \<or>
            (unit_else sha B e2 \<and> one_armed (nodes B) k (unat t'))" by blast
      from sh ki i have lt: "unat t' < length (nodes B)" by (auto simp: two_armed_def one_armed_def)
      from sh show ?thesis
      proof
        assume "\<exists>e'. e2 = Node e' \<and> two_armed (nodes B) k (unat t') (unat e') \<and> as ! unat e' = Some (k, Else)"
        then obtain e' where e': "e2 = Node e'" "two_armed (nodes B) k (unat t') (unat e')" "as ! unat e' = Some (k, Else)"
          by blast
        then have "unat e' < length (nodes B)" using ki i by (auto simp: two_armed_def)
        with old t' e' lt show ?thesis by auto
      qed (use old t' lt in auto)
    qed
  qed
  show ?thesis unfolding arms_inv_def using I a b len by (intro conjI) simp_all
qed

lemma arms_inv_step:
  assumes arms: "arms_inv sha B i (arm_sel s)" and inv: "scan_inv B i s" and i: "i < length (nodes B)" "length (nodes B) \<le> 2 ^ 32"
    and step: "scan_step sha B i (nodes B ! i) s = Inr s'"
  shows "arms_inv sha B (Suc i) (arm_sel s')"
proof (cases "\<exists>c t e. nodes B ! i = CIf c t e")
  case False
  then have "arm_sel s' = arm_sel s"
    using step by (auto simp: scan_step_def Let_def split: node.splits list.splits)
  with False arms show ?thesis by (auto intro: arms_inv_same)
next
  case True
  then obtain c t e where nd: "nodes B ! i = CIf c t e" by blast
  have k: "as_u32 i = i" using i by (simp add: as_u32_def)
  from step nd k obtain a1 a2 where
    a1: "claim_arm B i (t, Then) (arm_sel s) = Inr a1" and a2: "claim_arm B i (e, Else) a1 = Inr a2"
    and ok: "arms_ok sha B (partner s) i t e = Inr True" and s': "arm_sel s' = a2"
    by (auto simp: scan_step_def Let_def split: if_splits)
  note I = inv [unfolded scan_inv_def]
  have "partner s ! x = Some (hd (open_stack (nodes B) x)) \<and> open_stack (nodes B) x \<noteq> []"
    if "is_end B x" "x < i" for x
    using I that by (auto simp: is_end_def matched_def)
  from arms_ok_True [OF ok i(1) this] obtain t' where t': "t = Node t'" "is_end B (unat t')" and
    sh: "(\<exists>e'. e = Node e' \<and> two_armed (nodes B) i (unat t') (unat e')) \<or>
         (unit_else sha B e \<and> one_armed (nodes B) i (unat t'))" by blast
  from claim_arm_end [OF a1 [unfolded t'(1)] t'(2)] have
    a1': "arm_sel s ! unat t' = None" "a1 = (arm_sel s)[unat t' := Some (i, Then)]" by auto
  have len: "length (arm_sel s) = length (nodes B)" using I by simp
  have lt: "unat t' < length (nodes B)" using t'(2) by (simp add: is_end_def)
  show ?thesis
  proof (cases e)
    case (Node e')
    with sh have two: "two_armed (nodes B) i (unat t') (unat e')" by (simp add: unit_else_def)
    with i have "is_end B (unat e')" "unat e' < length (nodes B)" by (auto simp: two_armed_def is_end_def)
    with claim_arm_end [OF a2 [unfolded Node]] have
      a2': "a1 ! unat e' = None" "a2 = a1[unat e' := Some (i, Else)]" by auto
    then have ne: "unat e' \<noteq> unat t'" using a1' lt len by auto
    show ?thesis unfolding s'
      by (rule arms_inv_extend [OF arms i(1) nd])
        (use a1' a2' ne len lt two t' Node nd \<open>unat e' < length (nodes B)\<close> in
          \<open>auto simp: nth_list_update arm_ref_def split: if_splits\<close>)
  next
    case (Pool p)
    with a2 have "a2 = a1" by (simp add: claim_arm_def)
    with Pool sh a1' t' lt len nd show ?thesis unfolding s'
      by (intro arms_inv_extend [OF arms i(1) nd]) (auto simp: nth_list_update arm_ref_def split: if_splits)
  qed
qed


lemma scan_nodes_arms:
  assumes "arms_inv sha B i (arm_sel s)" "scan_inv B i s" "i + length ns = length (nodes B)" "ns = drop i (nodes B)"
    "length (nodes B) \<le> 2 ^ 32" "scan_nodes sha B i ns s = Inr s'"
  shows "arms_inv sha B (length (nodes B)) (arm_sel s')"
  using assms
proof (induction ns arbitrary: i s)
  case (Cons nd ns)
  from Cons.prems(3) have i: "i < length (nodes B)" by simp
  with Cons.prems(4) have nd: "nd = nodes B ! i" and ns: "ns = drop (Suc i) (nodes B)"
    by (simp_all add: Cons_nth_drop_Suc [symmetric])
  from Cons.prems(6) obtain s1 where s1: "scan_step sha B i nd s = Inr s1" "scan_nodes sha B (Suc i) ns s1 = Inr s'"
    by auto
  note st = s1(1) [unfolded nd]
  from Cons.IH [OF arms_inv_step [OF Cons.prems(1,2) i Cons.prems(5) st]
      scan_step_inv [OF Cons.prems(2) i Cons.prems(5) st] _ ns Cons.prems(5) s1(2)] Cons.prems(3)
  show ?case by simp
qed simp

end
