(* ===== verification/BlockRules.thy ===== *)
theory BlockRules
  imports BlockScan
begin

text \<open>
  The second pass of the block verifier and what an accepted bundle satisfies: the execution rule of
  Core IR 0.6, scoping, branching, nesting, and that the verifier does not panic.
\<close>

section \<open>The uses\<close>

definition uses :: "node \<Rightarrow> node_ref list" where
  "uses nd = (case nd of CCall _ as _ \<Rightarrow> as | CIf c _ _ \<Rightarrow> [c] | CEnd v \<Rightarrow> [v] | _ \<Rightarrow> [])"

definition open_at :: "core_bundle \<Rightarrow> nat \<Rightarrow> bool list \<Rightarrow> bool" where
  "open_at B u opn \<longleftrightarrow> length opn = length (nodes B) \<and>
     (\<forall>b < length (nodes B). opn ! b \<longleftrightarrow> b \<in> set (open_stack (nodes B) u))"

definition use_scoped :: "core_bundle \<Rightarrow> blocks \<Rightarrow> nat \<Rightarrow> node_ref \<Rightarrow> bool" where
  "use_scoped B bl u r =
     (case r of Pool _ \<Rightarrow> True
      | Node j' \<Rightarrow> (let j = unat j' in
          j < length (nodes B) \<and> nodes B ! j \<noteq> CBlock \<and> (is_cend (nodes B ! j) \<longrightarrow> arm_sel bl ! j = None) \<and>
          set (scope (nodes B) j) \<subseteq> set (open_stack (nodes B) u)))"

lemma check_home_Inr:
  "check_home B bl opn who j = Inr () \<longleftrightarrow> (case home bl ! j of None \<Rightarrow> True | Some b \<Rightarrow> opn ! b)"
  by (simp add: check_home_def split: option.split prod.split del: closed_walk.simps)

lemma check_home_scoped:
  assumes "home bl ! j = top_of (scope (nodes B) j)" "j < length (nodes B)" "open_at B u opn"
  shows "check_home B bl opn who j = Inr () \<longleftrightarrow> set (scope (nodes B) j) \<subseteq> set (open_stack (nodes B) u)"
proof (cases "scope (nodes B) j")
  case Nil
  then show ?thesis using assms by (simp add: check_home_Inr top_of_def)
next
  case (Cons b rest)
  then have "b \<in> set (open_stack (nodes B) j)" by (auto simp: scope_def split: if_splits intro: in_set_tl)
  then have "b < length (nodes B)" using open_stack_less [of b "nodes B" j] assms(2) by simp
  then have "opn ! b \<longleftrightarrow> b \<in> set (open_stack (nodes B) u)" using assms(3) by (simp add: open_at_def)
  moreover have "b \<in> set (open_stack (nodes B) u) \<longleftrightarrow> set (scope (nodes B) j) \<subseteq> set (open_stack (nodes B) u)"
    using scope_within [OF Cons, of u] by (metis Cons list.set_intros(1) subsetD)
  moreover have "check_home B bl opn who j = Inr () \<longleftrightarrow> opn ! b"
    by (simp add: check_home_Inr assms(1) Cons top_of_def)
  ultimately show ?thesis by blast
qed

lemma check_use_scoped:
  assumes "\<And>j. j < length (nodes B) \<Longrightarrow> home bl ! j = top_of (scope (nodes B) j)" "open_at B u opn"
  shows "check_use B bl opn who r = Inr () \<longleftrightarrow> use_scoped B bl u r"
proof (cases r)
  case (Node j)
  then show ?thesis
    using check_home_scoped [of bl "unat j" B u opn who] assms
    by (cases "unat j < length (nodes B)"; cases "nodes B ! unat j"; cases "arm_sel bl ! unat j")
      (auto simp: check_use_def use_scoped_def Let_def is_cend_def)
qed (simp add: check_use_def use_scoped_def)

lemma check_uses_scoped:
  assumes "\<And>j. j < length (nodes B) \<Longrightarrow> home bl ! j = top_of (scope (nodes B) j)" "open_at B u opn"
  shows "check_uses B bl opn who rs = Inr () \<longleftrightarrow> list_all (use_scoped B bl u) rs"
  using check_use_scoped [OF assms] by (induction rs) auto

lemma use_step_scoped:
  assumes home: "\<And>j. j < length (nodes B) \<Longrightarrow> home bl ! j = top_of (scope (nodes B) j)"
    and part: "\<And>e. e < length (nodes B) \<Longrightarrow> is_cend (nodes B ! e) \<Longrightarrow>
       open_stack (nodes B) e \<noteq> [] \<and> partner bl ! e = Some (hd (open_stack (nodes B) e))"
    and u: "u < length (nodes B)" and opn: "open_at B u opn"
  shows "(\<exists>opn'. use_step B bl u (nodes B ! u) opn = Inr opn') \<longleftrightarrow> list_all (use_scoped B bl u) (uses (nodes B ! u))"
    and "use_step B bl u (nodes B ! u) opn = Inr opn' \<Longrightarrow> open_at B (Suc u) opn'"
proof -
  note cu = check_use_scoped [OF home opn] check_uses_scoped [OF home opn]
  show "(\<exists>opn'. use_step B bl u (nodes B ! u) opn = Inr opn') \<longleftrightarrow> list_all (use_scoped B bl u) (uses (nodes B ! u))"
    using part [OF u] cu by (cases "nodes B ! u") (auto simp: use_step_def uses_def is_cend_def)
  assume step: "use_step B bl u (nodes B ! u) opn = Inr opn'"
  show "open_at B (Suc u) opn'"
  proof (cases "nodes B ! u")
    case (CEnd v)
    with part [OF u] step obtain b st where b: "open_stack (nodes B) u = b # st" "opn' = opn[b := False]"
      by (cases "open_stack (nodes B) u") (auto simp: use_step_def is_cend_def)
    have "b \<notin> set st" using open_stack_distinct [of "nodes B" u] b(1) by simp
    moreover have "b < length (nodes B)" using open_stack_less [of b "nodes B" u] b(1) u by simp
    ultimately show ?thesis using opn b CEnd unfolding open_at_def
      by (auto simp: nth_list_update split: if_splits)
  qed (use step opn u in \<open>auto simp: use_step_def open_at_def nth_list_update split: if_splits\<close>)
qed


lemma use_nodes_scoped:
  assumes home: "\<And>j. j < length (nodes B) \<Longrightarrow> home bl ! j = top_of (scope (nodes B) j)"
    and part: "\<And>e. e < length (nodes B) \<Longrightarrow> is_cend (nodes B ! e) \<Longrightarrow>
       open_stack (nodes B) e \<noteq> [] \<and> partner bl ! e = Some (hd (open_stack (nodes B) e))"
    and "u + length ns = length (nodes B)" "ns = drop u (nodes B)" "open_at B u opn"
    and "use_nodes B bl u ns opn = Inr opn'"
  shows "open_at B (length (nodes B)) opn' \<and>
    (\<forall>v. u \<le> v \<and> v < length (nodes B) \<longrightarrow> list_all (use_scoped B bl v) (uses (nodes B ! v)))"
  using assms(3-)
proof (induction ns arbitrary: u opn)
  case (Cons nd ns)
  from Cons.prems(1) have u: "u < length (nodes B)" by simp
  with Cons.prems(2) have nd: "nd = nodes B ! u" and ns: "ns = drop (Suc u) (nodes B)"
    by (simp_all add: Cons_nth_drop_Suc [symmetric])
  from Cons.prems(4) obtain o1 where o1: "use_step B bl u (nodes B ! u) opn = Inr o1" "use_nodes B bl (Suc u) ns o1 = Inr opn'"
    using nd by auto
  have scoped: "list_all (use_scoped B bl u) (uses (nodes B ! u))"
    using use_step_scoped(1) [OF home part u Cons.prems(3)] o1(1) by blast
  have "open_at B (Suc u) o1" using use_step_scoped(2) [OF home part u Cons.prems(3) o1(1)] .
  from Cons.IH [OF _ ns this o1(2)] Cons.prems(1) scoped show ?case
    by (metis Suc_leI add_Suc_right add_Suc le_neq_implies_less length_Cons)
qed auto

section \<open>What an accepted bundle satisfies\<close>

text \<open>The facts the two passes establish about the returned block structure.\<close>

definition blocks_of :: "(bytes \<Rightarrow> hash256) \<Rightarrow> core_bundle \<Rightarrow> blocks \<Rightarrow> bool" where
  "blocks_of sha B bl \<longleftrightarrow>
     length (home bl) = length (nodes B) \<and> length (partner bl) = length (nodes B) \<and>
     (\<forall>j < length (nodes B). home bl ! j = top_of (scope (nodes B) j)) \<and>
     (\<forall>e < length (nodes B). is_cend (nodes B ! e) \<longrightarrow> open_stack (nodes B) e \<noteq> []) \<and>
     open_stack (nodes B) (length (nodes B)) = [] \<and>
     (\<forall>x < length (nodes B). \<forall>y. partner bl ! x = Some y \<longleftrightarrow> matched (nodes B) x y \<or> matched (nodes B) y x) \<and>
     (\<forall>b < length (nodes B). nodes B ! b = CBlock \<longrightarrow> partner bl ! b \<noteq> None) \<and>
     arms_inv sha B (length (nodes B)) (arm_sel bl) \<and>
     (\<forall>u < length (nodes B). list_all (use_scoped B bl u) (uses (nodes B ! u))) \<and>
     use_scoped B bl (length (nodes B)) (result B)"

lemma verify_blocks_sound:
  assumes "verify_blocks sha B = Inr bl" "length (nodes B) \<le> 2 ^ 32"
  shows "blocks_of sha B bl"
proof -
  let ?n = "length (nodes B)"
  from assms(1) obtain s opn where
    s: "scan_nodes sha B 0 (nodes B) (scan_init ?n) = Inr s" "sc_stack s = []" "bl = blocks.truncate s"
    and opn: "use_nodes B bl 0 (nodes B) (replicate ?n False) = Inr opn" "check_use B bl opn ResultUser (result B) = Inr ()"
    by (auto simp: verify_blocks_def Let_def split: if_splits)
  have inv: "scan_inv B ?n s" using scan_nodes_inv [OF scan_init_inv _ _ assms(2) s(1)] by simp
  have "arms_inv sha B 0 (arm_sel (scan_init ?n))" by (simp add: arms_inv_def scan_init_def)
  from scan_nodes_arms [OF this scan_init_inv _ _ assms(2) s(1)] have arms: "arms_inv sha B ?n (arm_sel s)" by simp
  have bl: "home bl = home s" "partner bl = partner s" "arm_sel bl = arm_sel s"
    by (simp_all add: s(3) blocks.defs)
  note I = inv [unfolded scan_inv_def]
  have home: "j < ?n \<Longrightarrow> home bl ! j = top_of (scope (nodes B) j)" for j using I bl by simp
  have part: "open_stack (nodes B) e \<noteq> [] \<and> partner bl ! e = Some (hd (open_stack (nodes B) e))"
    if "e < ?n" "is_cend (nodes B ! e)" for e
    using I bl that by (auto simp: matched_def)
  have "open_at B 0 (replicate ?n False)" by (simp add: open_at_def)
  from use_nodes_scoped [OF home part _ _ this opn(1)] have
    u: "open_at B ?n opn" "\<forall>v < ?n. list_all (use_scoped B bl v) (uses (nodes B ! v))" by auto
  have res: "use_scoped B bl ?n (result B)"
    using check_use_scoped [OF home u(1)] opn(2) by blast
  have pm: "\<forall>x < ?n. \<forall>y. partner bl ! x = Some y \<longleftrightarrow> matched (nodes B) x y \<or> matched (nodes B) y x"
  proof (intro allI impI iffI)
    fix x y assume "x < ?n" "matched (nodes B) x y \<or> matched (nodes B) y x"
    then show "partner bl ! x = Some y" using I bl by (auto simp: matched_def)
  qed (use I bl in metis)
  have os: "open_stack (nodes B) ?n = []" using I s(2) by simp
  have cl: "\<forall>b < ?n. nodes B ! b = CBlock \<longrightarrow> partner bl ! b \<noteq> None" using I os bl by auto
  show ?thesis unfolding blocks_of_def
    using I bl home os pm cl arms u(2) res by (intro conjI) simp_all
qed


section \<open>Where a node runs\<close>

text \<open>
  The execution rule of Core IR 0.6: a node runs exactly when every block enclosing it runs, and a
  block runs unless it is an arm of a \<open>CIf\<close> that selects the other one. \<open>enclosing\<close> follows \<open>home\<close>; an
  oracle \<open>sel\<close> says which arm each \<open>CIf\<close> selects.
\<close>

fun enclosing :: "nat \<Rightarrow> blocks \<Rightarrow> nat \<Rightarrow> nat list" where
  "enclosing 0 bl j = []"
| "enclosing (Suc f) bl j = (case home bl ! j of None \<Rightarrow> [] | Some b \<Rightarrow> b # enclosing f bl b)"

definition block_runs :: "blocks \<Rightarrow> (nat \<Rightarrow> arm) \<Rightarrow> nat \<Rightarrow> bool" where
  "block_runs bl sel b = (case arm_of_block bl b of None \<Rightarrow> True | Some (k, a) \<Rightarrow> sel k = a)"

definition runs :: "blocks \<Rightarrow> (nat \<Rightarrow> arm) \<Rightarrow> nat \<Rightarrow> bool" where
  "runs bl sel j \<longleftrightarrow> list_all (block_runs bl sel) (enclosing (length (home bl)) bl j)"

text \<open>A \<open>CEnd\<close> sits in the enclosing block; its value is read when its own block runs.\<close>

definition reads :: "blocks \<Rightarrow> (nat \<Rightarrow> arm) \<Rightarrow> core_bundle \<Rightarrow> nat \<Rightarrow> bool" where
  "reads bl sel B u \<longleftrightarrow> runs bl sel u \<and>
     (is_cend (nodes B ! u) \<longrightarrow> (case partner bl ! u of None \<Rightarrow> True | Some b \<Rightarrow> block_runs bl sel b))"

lemma scope_subset_open: "set (scope ns j) \<subseteq> set (open_stack ns j)"
  by (auto simp: scope_def in_set_tl)

lemma enclosing_scope:
  assumes "blocks_of sha B bl" "j < length (nodes B)" "j < f"
  shows "enclosing f bl j = scope (nodes B) j"
  using assms(2,3)
proof (induction f arbitrary: j)
  case (Suc f)
  have h: "home bl ! j = top_of (scope (nodes B) j)" using assms(1) Suc.prems by (simp add: blocks_of_def)
  show ?case
  proof (cases "scope (nodes B) j")
    case Nil
    with h show ?thesis by (simp add: top_of_def)
  next
    case (Cons b rest)
    then have b: "b < j" "nodes B ! b = CBlock"
      using open_stack_less [of b "nodes B" j] scope_subset_open [of "nodes B" j] by auto
    have "scope (nodes B) b = rest" using scope_top [OF Cons] b by (simp add: scope_def is_cend_def)
    moreover have "enclosing f bl b = scope (nodes B) b" using b Suc.prems by (intro Suc.IH) auto
    ultimately show ?thesis using h Cons by (simp add: top_of_def)
  qed
qed simp

lemma runs_scope:
  assumes "blocks_of sha B bl" "j < length (nodes B)"
  shows "runs bl sel j \<longleftrightarrow> list_all (block_runs bl sel) (scope (nodes B) j)"
  using enclosing_scope [OF assms, of "length (nodes B)"] assms by (simp add: runs_def blocks_of_def)

lemma reads_open:
  assumes "blocks_of sha B bl" "u < length (nodes B)"
  shows "reads bl sel B u \<longleftrightarrow> list_all (block_runs bl sel) (open_stack (nodes B) u)"
proof (cases "is_cend (nodes B ! u)")
  case True
  with assms obtain b st where st: "open_stack (nodes B) u = b # st"
    by (cases "open_stack (nodes B) u") (auto simp: blocks_of_def)
  with True assms have "partner bl ! u = Some b" "scope (nodes B) u = st"
    by (auto simp: blocks_of_def matched_def scope_def)
  then show ?thesis using runs_scope [OF assms] st True by (auto simp: reads_def)
next
  case False
  then show ?thesis using runs_scope [OF assms] by (simp add: reads_def scope_def)
qed

section \<open>A sample bundle\<close>

text \<open>
  The bundle of the loader's own round-trip test (\<open>sample\<close>), with a stand-in for SHA-256 that pads its
  input to 32 bytes: what the witnesses below evaluate.
\<close>

definition demo_sha :: "bytes \<Rightarrow> hash256" where
  "demo_sha bs = take 32 (bs @ replicate 32 0)"

definition sample_bundle :: core_bundle where
  "sample_bundle =
     \<lparr>version = ''0.6'',
      constant_pool =
        [\<lparr>def_hash = demo_sha [1, 0, 9], payload = [0]\<rparr>,
         \<lparr>def_hash = demo_sha [1, 0, 5], payload = [4, 0x6e, 0x6f, 0x6e, 0x65]\<rparr>,
         \<lparr>def_hash = demo_sha [1, 0, 2], payload = [0xd7, 0x04]\<rparr>],
      nodes =
        [CCall (replicate 32 7) [Pool 0, Pool 2] [0x69, 0x6e, 0x74, 0x5f, 0x65, 0x71],
         CBlock, CEnd (Pool 1), CBlock, CEnd (Pool 1), CIf (Node 0) (Node 2) (Node 4), CDeterminate],
      result = Node 5\<rparr>"

definition sample_blocks :: blocks where
  "sample_blocks =
     \<lparr>home = [None, None, None, None, None, None, None],
      partner = [None, Some 2, Some 1, Some 4, Some 3, None, None],
      arm_sel = [None, None, Some (5, Then), None, Some (5, Else), None, None]\<rparr>"

lemmas verify_exec = verify_blocks_def scan_step_def scan_init_def as_u32_def is_cend_def is_end_def top_of_def
  arm_of_block_def claim_arm_def unit_else_def arms_ok_def check_home_def check_use_def use_step_def blocks.defs

lemma sample_verifies: "verify_blocks demo_sha sample_bundle = Inr sample_blocks"
  by (simp add: verify_exec sample_bundle_def sample_blocks_def Let_def)

lemma sample_runs: "runs sample_blocks sel 5" "reads sample_blocks (\<lambda>_. Then) sample_bundle 5"
  by (simp_all add: runs_def reads_def sample_bundle_def sample_blocks_def is_cend_def numeral_eq_Suc)

section \<open>Scoping and branching\<close>

lemma use_scoped_runs:
  assumes "blocks_of sha B bl" "u \<le> length (nodes B)" "use_scoped B bl u (Node j)"
    "list_all (block_runs bl sel) (open_stack (nodes B) u)"
  shows "unat j < length (nodes B) \<and> runs bl sel (unat j)"
  using assms runs_scope [OF assms(1), of "unat j" sel] by (auto simp: use_scoped_def Let_def list_all_iff)

lemma matched_block_runs:
  assumes "blocks_of sha B bl" "matched (nodes B) b e" "arm_sel bl ! e = Some (k, w)"
  shows "block_runs bl sel b \<longleftrightarrow> sel k = w"
proof -
  have "b < length (nodes B)" using matched_less [OF assms(2)] assms(2) by (auto simp: matched_def)
  then have "partner bl ! b = Some e" using assms(1,2) by (simp add: blocks_of_def)
  then show ?thesis using assms(3) by (simp add: block_runs_def arm_of_block_def)
qed

lemma arm_reads:
  assumes bl: "blocks_of sha B bl" and e: "e < length (nodes B)" "is_cend (nodes B ! e)" "arm_sel bl ! e = Some (k, w)"
    and same: "scope (nodes B) e = scope (nodes B) k" and k: "k < length (nodes B)" "runs bl sel k"
  shows "reads bl sel B e \<longleftrightarrow> sel k = w"
proof -
  obtain b st where st: "open_stack (nodes B) e = b # st" 
    using bl e by (cases "open_stack (nodes B) e") (auto simp: blocks_of_def)
  then have "matched (nodes B) b e" using e by (simp add: matched_def)
  then have "block_runs bl sel b \<longleftrightarrow> sel k = w" using matched_block_runs [OF bl _ e(3)] by blast
  moreover have "st = scope (nodes B) k" using same st e(2) by (simp add: scope_def)
  then have "list_all (block_runs bl sel) st" using k runs_scope [OF bl k(1)] by simp
  ultimately show ?thesis using reads_open [OF bl e(1)] st by simp
qed

lemma scope_before:
  assumes "1 \<le> k" "is_cend (ns ! (k - 1))" "\<not> is_cend (ns ! k)"
  shows "scope ns (k - 1) = scope ns k"
proof -
  from assms(1) obtain m where "k = Suc m" by (cases k) auto
  with assms show ?thesis by (auto simp: scope_def is_cend_def split: node.splits)
qed

lemma scope_then_arm:
  assumes "two_armed ns k t e" 
  shows "scope ns t = scope ns e"
proof -
  obtain st where st: "open_stack ns e = Suc t # st"
    using assms by (cases "open_stack ns e") (auto simp: two_armed_def)
  then have "st = open_stack ns (Suc t)" using open_stack_below [of ns e "[]"] by simp
  with st assms show ?thesis by (auto simp: scope_def two_armed_def is_cend_def split: node.splits)
qed

text \<open>
  C3. Scoping of an accepted bundle (block rules 4 and 5): when a node reads its operands (its own
  enclosing blocks run, and for a \<open>CEnd\<close> its own block too), every node it uses as a value exists and
  has run, whichever arms the \<open>CIf\<close> nodes select.
\<close>

theorem used_value_has_run:
  assumes "verify_blocks sha B = Inr bl" "length (nodes B) \<le> 2 ^ 32"
    and "u < length (nodes B)" "Node j \<in> set (uses (nodes B ! u))" "reads bl sel B u"
  shows "unat j < length (nodes B) \<and> runs bl sel (unat j)"
proof -
  note bl = verify_blocks_sound [OF assms(1,2)]
  have sc: "use_scoped B bl u (Node j)" using bl assms(3,4) by (auto simp: blocks_of_def list_all_iff)
  then show ?thesis using use_scoped_runs [OF bl _ sc] reads_open [OF bl assms(3)] assms(3,5) by simp
qed

theorem used_value_has_run_witness: "runs sample_blocks (\<lambda>_. Then) 0"
proof -
  have "Node 0 \<in> set (uses (nodes sample_bundle ! 5))" "length (nodes sample_bundle) = 7"
    by (simp_all add: sample_bundle_def uses_def)
  then show ?thesis
    using used_value_has_run [OF sample_verifies, of 5 0 "\<lambda>_. Then"] sample_runs(2) by simp
qed

text \<open>
  C4. Branching of an accepted bundle (block rules 2 and 3): when a \<open>CIf\<close> runs, its \<open>then\<close> arm runs
  exactly when \<open>then\<close> is selected, and its \<open>else\<close> arm, if it has one, exactly when \<open>else\<close> is selected.
\<close>

theorem exactly_one_arm_runs:
  assumes "verify_blocks sha B = Inr bl" "length (nodes B) \<le> 2 ^ 32"
    and "k < length (nodes B)" "nodes B ! k = CIf c t e" "runs bl sel k"
  shows "\<exists>t'. t = Node t' \<and> (reads bl sel B (unat t') \<longleftrightarrow> sel k = Then) \<and>
    (\<forall>e'. e = Node e' \<longrightarrow> (reads bl sel B (unat e') \<longleftrightarrow> sel k = Else))"
proof -
  note bl = verify_blocks_sound [OF assms(1,2)]
  let ?ns = "nodes B"
  have "arms_inv sha B (length ?ns) (arm_sel bl)" using bl by (simp add: blocks_of_def)
  with assms(3,4) obtain t' where t': "t = Node t'" "arm_sel bl ! unat t' = Some (k, Then)"
    and sh: "(\<exists>e'. e = Node e' \<and> two_armed ?ns k (unat t') (unat e') \<and> arm_sel bl ! unat e' = Some (k, Else)) \<or>
            (unit_else sha B e \<and> one_armed ?ns k (unat t'))"
    unfolding arms_inv_def by blast
  have nk: "\<not> is_cend (?ns ! k)" using assms(4) by (simp add: is_cend_def)
  from sh show ?thesis
  proof
    assume "\<exists>e'. e = Node e' \<and> two_armed ?ns k (unat t') (unat e') \<and> arm_sel bl ! unat e' = Some (k, Else)"
    then obtain e' where e': "e = Node e'" "two_armed ?ns k (unat t') (unat e')" "arm_sel bl ! unat e' = Some (k, Else)"
      by blast
    have se: "scope ?ns (unat e') = scope ?ns k" using scope_before [of k ?ns] e'(2) nk by (auto simp: two_armed_def)
    have "reads bl sel B (unat e') \<longleftrightarrow> sel k = Else"
      using e' assms(3) by (intro arm_reads [OF bl _ _ _ se assms(3,5)]) (auto simp: two_armed_def)
    moreover have "reads bl sel B (unat t') \<longleftrightarrow> sel k = Then"
      using e'(2) t'(2) scope_then_arm [OF e'(2)] se
      by (intro arm_reads [OF bl _ _ _ _ assms(3,5)]) (auto simp: two_armed_def)
    ultimately show ?thesis using t' e' by auto
  next
    assume one: "unit_else sha B e \<and> one_armed ?ns k (unat t')"
    then have "scope ?ns (unat t') = scope ?ns k" using scope_before [of k ?ns] nk by (auto simp: one_armed_def)
    then have "reads bl sel B (unat t') \<longleftrightarrow> sel k = Then"
      using one t'(2) assms(3) by (intro arm_reads [OF bl _ _ _ _ assms(3,5)]) (auto simp: one_armed_def)
    then show ?thesis using t' one by (auto simp: unit_else_def)
  qed
qed

theorem exactly_one_arm_runs_witness:
  "reads sample_blocks (\<lambda>_. Then) sample_bundle 2 \<and> \<not> reads sample_blocks (\<lambda>_. Then) sample_bundle 4"
proof -
  have "nodes sample_bundle ! 5 = CIf (Node 0) (Node 2) (Node 4)" "length (nodes sample_bundle) = 7"
    by (simp_all add: sample_bundle_def)
  then show ?thesis
    using exactly_one_arm_runs [OF sample_verifies, of 5 "Node 0" "Node 2" "Node 4" "\<lambda>_. Then"] sample_runs(1)
    by simp
qed

text \<open>
  C6. The result of an accepted bundle is a node outside every block that is not a \<open>CBlock\<close>, so it
  has a value on every path.
\<close>

theorem result_always_runs:
  assumes "verify_blocks sha B = Inr bl" "length (nodes B) \<le> 2 ^ 32" "result B = Node j"
  shows "unat j < length (nodes B) \<and> nodes B ! unat j \<noteq> CBlock \<and> runs bl sel (unat j)"
proof -
  note bl = verify_blocks_sound [OF assms(1,2)]
  have sc: "use_scoped B bl (length (nodes B)) (Node j)" and "open_stack (nodes B) (length (nodes B)) = []"
    using bl assms(3) by (simp_all add: blocks_of_def)
  with use_scoped_runs [OF bl _ sc] show ?thesis by (simp add: use_scoped_def Let_def)
qed

theorem result_always_runs_witness: "runs sample_blocks (\<lambda>_. Else) 5"
  using result_always_runs [OF sample_verifies, of 5 "\<lambda>_. Else"] by (simp add: sample_bundle_def)

section \<open>Nesting\<close>

lemma open_until_matched:
  assumes "matched ns b e" "b < i" "i \<le> e"
  shows "b \<in> set (open_stack ns i)"
  using assms(2,3)
proof (induction i)
  case (Suc i)
  show ?case
  proof (cases "i = b")
    case True
    then show ?thesis using matched_less [OF assms(1)] by simp
  next
    case False
    with Suc have b: "b \<in> set (open_stack ns i)" by simp
    moreover have "is_cend (ns ! i) \<Longrightarrow> b \<noteq> hd (open_stack ns i)"
    proof
      assume "is_cend (ns ! i)" "b = hd (open_stack ns i)"
      with b have "matched ns b i" using Suc.prems assms(1) by (auto simp: matched_def)
      with assms(1) have "i = e" by (rule matched_unique [rotated])
      with Suc.prems show False by simp
    qed
    ultimately show ?thesis by (auto split: node.splits simp: is_cend_def intro: tl_member)
  qed
qed simp

lemma scope_interval:
  assumes "matched ns b e"
  shows "b \<in> set (scope ns j) \<longleftrightarrow> b < j \<and> j < e"
proof
  assume b: "b \<in> set (scope ns j)"
  then have o: "b \<in> set (open_stack ns j)" using scope_subset_open by blast
  have "j \<noteq> e"
  proof
    assume "j = e"
    with assms have "open_stack ns j = b # tl (open_stack ns j)" "is_cend (ns ! j)" by (auto simp: matched_def)
    with b open_stack_distinct [of ns j] show False unfolding scope_def by (metis distinct.simps(2))
  qed
  moreover have "\<not> e < j" using matched_not_open [OF assms] o by blast
  ultimately show "b < j \<and> j < e" using open_stack_less [OF o] by simp
next
  assume j: "b < j \<and> j < e"
  then have o: "b \<in> set (open_stack ns j)" by (intro open_until_matched [OF assms]) auto
  have "is_cend (ns ! j) \<Longrightarrow> b \<noteq> hd (open_stack ns j)"
    using matched_unique [OF assms, of j] o j assms by (cases "open_stack ns j") (auto simp: matched_def)
  with o show "b \<in> set (scope ns j)" by (auto simp: scope_def intro: tl_member)
qed

text \<open>
  C5. Block structure (block rule 1): every \<open>CBlock\<close> of an accepted bundle is closed by one later
  \<open>CEnd\<close>, the two are each other's \<open>partner\<close>, and following \<open>home\<close> from a node meets the block exactly
  when the node lies strictly between them.
\<close>

theorem blocks_nest:
  assumes "verify_blocks sha B = Inr bl" "length (nodes B) \<le> 2 ^ 32"
    and "b < length (nodes B)" "nodes B ! b = CBlock"
  shows "\<exists>e. partner bl ! b = Some e \<and> b < e \<and> e < length (nodes B) \<and> is_cend (nodes B ! e) \<and> partner bl ! e = Some b \<and>
     (\<forall>j < length (nodes B). b \<in> set (enclosing (length (home bl)) bl j) \<longleftrightarrow> b < j \<and> j < e)"
proof -
  note bl = verify_blocks_sound [OF assms(1,2)]
  then obtain e where p: "partner bl ! b = Some e"
    using assms(3,4) unfolding blocks_of_def by blast
  with bl assms(3) have "matched (nodes B) b e \<or> matched (nodes B) e b" by (simp add: blocks_of_def)
  with assms(4) have m: "matched (nodes B) b e" by (auto simp: matched_def is_cend_def)
  then have e: "b < e" "e < length (nodes B)" "is_cend (nodes B ! e)" using matched_less [OF m] by (auto simp: matched_def)
  moreover have "partner bl ! e = Some b" using bl m e by (simp add: blocks_of_def)
  moreover have "enclosing (length (home bl)) bl j = scope (nodes B) j" if "j < length (nodes B)" for j
    using enclosing_scope [OF bl that, of "length (home bl)"] bl that by (simp add: blocks_of_def)
  ultimately show ?thesis using p scope_interval [OF m] by auto
qed

theorem blocks_nest_witness: "partner sample_blocks ! 1 = Some 2 \<and> 1 \<notin> set (enclosing 7 sample_blocks 3)"
proof -
  have "partner sample_blocks ! 1 = Some 2" "length (nodes sample_bundle) = 7" "length (home sample_blocks) = 7"
    "nodes sample_bundle ! 1 = CBlock"
    by (simp_all add: sample_bundle_def sample_blocks_def)
  then show ?thesis using blocks_nest [OF sample_verifies, of 1] by auto
qed

section \<open>The verifier does not panic\<close>

fun ref_below :: "nat \<Rightarrow> node_ref \<Rightarrow> bool" where
  "ref_below n (Node j) \<longleftrightarrow> unat j < n"
| "ref_below n (Pool _) \<longleftrightarrow> True"

definition refs_in_range :: "core_bundle \<Rightarrow> bool" where
  "refs_in_range B \<longleftrightarrow>
     list_all (\<lambda>nd. list_all (ref_below (length (nodes B))) (uses nd)) (nodes B) \<and>
     ref_below (length (nodes B)) (result B)"

lemma refs_in_rangeD:
  "refs_in_range B \<Longrightarrow> u < length (nodes B) \<Longrightarrow> Node j \<in> set (uses (nodes B ! u)) \<Longrightarrow> unat j < length (nodes B)"
  "refs_in_range B \<Longrightarrow> result B = Node j \<Longrightarrow> unat j < length (nodes B)"
  by (force simp: refs_in_range_def list_all_iff)+

lemma closed_walk_ends:
  assumes "\<And>j. j < n \<Longrightarrow> case home bl ! j of None \<Rightarrow> True | Some b \<Rightarrow> b < j"
    and "case at of None \<Rightarrow> True | Some b \<Rightarrow> b < n \<and> b < fuel"
  shows "closed_walk fuel bl opn at om ia \<noteq> None"
  using assms(2)
proof (induction fuel arbitrary: at om ia)
  case 0
  then show ?case by (cases at) auto
next
  case (Suc fuel)
  show ?case
  proof (cases at)
    case (Some b)
    with Suc.prems assms(1) [of b] have "case home bl ! b of None \<Rightarrow> True | Some b' \<Rightarrow> b' < n \<and> b' < fuel"
      by (auto split: option.splits)
    from Suc.IH [OF this] Some show ?thesis by simp
  qed simp
qed

lemma check_home_no_panic:
  assumes "\<And>j. j < length (nodes B) \<Longrightarrow> home bl ! j = top_of (scope (nodes B) j)" "j < length (nodes B)"
  shows "check_home B bl opn who j \<noteq> Inl (BlockPanic m)"
proof -
  have dec: "case home bl ! x of None \<Rightarrow> True | Some b \<Rightarrow> b < x" if "x < length (nodes B)" for x
    using assms(1) [OF that] open_stack_less [of _ "nodes B" x] scope_subset_open [of "nodes B" x]
    by (cases "scope (nodes B) x") (auto simp: top_of_def)
  have "closed_walk (Suc (length (nodes B))) bl opn (Some b) b None \<noteq> None" if "home bl ! j = Some b" for b
    using dec [OF assms(2)] that assms(2) by (intro closed_walk_ends [where n = "length (nodes B)"] dec) auto
  then show ?thesis
    by (auto simp: check_home_def split: option.splits prod.splits simp del: closed_walk.simps)
qed


lemma check_use_no_panic:
  assumes "\<And>j. j < length (nodes B) \<Longrightarrow> home bl ! j = top_of (scope (nodes B) j)"
    "\<And>j. r = Node j \<Longrightarrow> unat j < length (nodes B)"
  shows "check_use B bl opn who r \<noteq> Inl (BlockPanic m)"
proof (cases r)
  case (Node j)
  with assms(2) have "unat j < length (nodes B)" by simp
  with Node check_home_no_panic [OF assms(1)] show ?thesis
    by (auto simp: check_use_def Let_def split: node.splits option.splits)
qed (simp add: check_use_def)

lemma check_uses_no_panic:
  assumes "\<And>j. j < length (nodes B) \<Longrightarrow> home bl ! j = top_of (scope (nodes B) j)"
    "\<And>j. Node j \<in> set rs \<Longrightarrow> unat j < length (nodes B)"
  shows "check_uses B bl opn who rs \<noteq> Inl (BlockPanic m)"
  using assms(2)
proof (induction rs)
  case (Cons r rs)
  have "check_use B bl opn who r \<noteq> Inl (BlockPanic m)"
    using Cons.prems by (intro check_use_no_panic assms(1)) auto
  with Cons show ?case by (auto simp: bindE_eq_Inl)
qed simp

lemma use_nodes_no_panic:
  assumes home: "\<And>j. j < length (nodes B) \<Longrightarrow> home bl ! j = top_of (scope (nodes B) j)"
    and part: "\<And>e. e < length (nodes B) \<Longrightarrow> is_cend (nodes B ! e) \<Longrightarrow> partner bl ! e \<noteq> None"
    and range: "refs_in_range B"
    and "u + length ns = length (nodes B)" "ns = drop u (nodes B)"
  shows "use_nodes B bl u ns opn \<noteq> Inl (BlockPanic m)"
  using assms(4,5)
proof (induction ns arbitrary: u opn)
  case (Cons nd ns)
  from Cons.prems(1) have u: "u < length (nodes B)" by simp
  with Cons.prems(2) have nd: "nd = nodes B ! u" and ns: "ns = drop (Suc u) (nodes B)"
    by (simp_all add: Cons_nth_drop_Suc [symmetric])
  have r: "Node j \<in> set (uses nd) \<Longrightarrow> unat j < length (nodes B)" for j
    using refs_in_rangeD(1) [OF range u] nd by blast
  have "use_step B bl u nd opn \<noteq> Inl (BlockPanic m)"
    using check_use_no_panic [OF home, of _ opn "NodeUser u" m] check_uses_no_panic [OF home, of _ opn "NodeUser u" m]
      r part [OF u] nd [symmetric]
    by (cases nd) (auto simp: use_step_def uses_def is_cend_def bindE_eq_Inl)
  moreover have "use_nodes B bl (Suc u) ns opn' \<noteq> Inl (BlockPanic m)" for opn'
    using Cons.prems(1) by (intro Cons.IH ns) simp
  ultimately show ?case by (auto simp: bindE_eq_Inl)
qed simp

lemma scan_step_no_panic:
  assumes "scan_inv B i s" "i < length (nodes B)" "length (nodes B) \<le> 2 ^ 32"
  shows "scan_step sha B i (nodes B ! i) s \<noteq> Inl (BlockPanic m)"
proof -
  have k: "as_u32 i = i" using assms by (simp add: as_u32_def)
  have p: "\<And>e. is_end B e \<Longrightarrow> e < i \<Longrightarrow> partner s ! e \<noteq> None"
    using assms(1) unfolding scan_inv_def is_end_def by (metis matched_def option.distinct(1))
  have a: "arms_ok sha B (partner s) i t e \<noteq> Inl (BlockPanic m)" for t e
    using p [of "i - 1"] by (auto simp: arms_ok_def split: node_ref.splits option.splits)
  have c: "claim_arm B i rw as \<noteq> Inl (BlockPanic m)" for rw as
    by (auto simp: claim_arm_def split: prod.splits node_ref.splits option.splits)
  show ?thesis using a c k by (auto simp: scan_step_def Let_def bindE_eq_Inl split: node.splits list.splits)
qed

lemma scan_nodes_no_panic:
  assumes "scan_inv B i s" "i + length ns = length (nodes B)" "ns = drop i (nodes B)" "length (nodes B) \<le> 2 ^ 32"
  shows "scan_nodes sha B i ns s \<noteq> Inl (BlockPanic m)"
  using assms
proof (induction ns arbitrary: i s)
  case (Cons nd ns)
  from Cons.prems(2) have i: "i < length (nodes B)" by simp
  with Cons.prems(3) have nd: "nd = nodes B ! i" and ns: "ns = drop (Suc i) (nodes B)"
    by (simp_all add: Cons_nth_drop_Suc [symmetric])
  have "scan_nodes sha B (Suc i) ns s1 \<noteq> Inl (BlockPanic m)" if "scan_step sha B i nd s = Inr s1" for s1
    using scan_step_inv [OF Cons.prems(1) i Cons.prems(4)] that nd Cons.prems(2,4) by (intro Cons.IH ns) auto
  with scan_step_no_panic [OF Cons.prems(1) i Cons.prems(4)] nd show ?case by (auto simp: bindE_eq_Inl)
qed simp

lemma verify_no_panic:
  assumes "refs_in_range B" "length (nodes B) \<le> 2 ^ 32"
  shows "verify_blocks sha B \<noteq> Inl (BlockPanic m)"
proof
  let ?n = "length (nodes B)"
  assume v: "verify_blocks sha B = Inl (BlockPanic m)"
  have sc: "scan_nodes sha B 0 (nodes B) (scan_init ?n) \<noteq> Inl (BlockPanic m)"
    by (rule scan_nodes_no_panic [OF scan_init_inv]) (use assms(2) in simp_all)
  with v obtain s where s: "scan_nodes sha B 0 (nodes B) (scan_init ?n) = Inr s" "sc_stack s = []"
    and rest: "bindE (use_nodes B (blocks.truncate s) 0 (nodes B) (replicate ?n False))
      (\<lambda>opn. bindE (check_use B (blocks.truncate s) opn ResultUser (result B)) (\<lambda>_. Inr (blocks.truncate s)))
      = Inl (BlockPanic m)"
    by (auto simp: verify_blocks_def Let_def bindE_eq_Inl split: if_splits)
  have inv: "scan_inv B ?n s" using scan_nodes_inv [OF scan_init_inv _ _ assms(2) s(1)] by simp
  have home: "home (blocks.truncate s) ! j = top_of (scope (nodes B) j)" if "j < ?n" for j
    using inv that by (simp add: scan_inv_def blocks.defs)
  have part: "partner (blocks.truncate s) ! e \<noteq> None" if "e < ?n" "is_cend (nodes B ! e)" for e
    using inv that unfolding scan_inv_def blocks.defs by (auto simp: matched_def)
  have "use_nodes B (blocks.truncate s) 0 (nodes B) (replicate ?n False) \<noteq> Inl (BlockPanic m)"
    by (rule use_nodes_no_panic [OF home part assms(1)]) auto
  moreover have "check_use B (blocks.truncate s) opn ResultUser (result B) \<noteq> Inl (BlockPanic m)" for opn
    using refs_in_rangeD(2) [OF assms(1)] by (intro check_use_no_panic home)
  ultimately show False using rest by (auto simp: bindE_eq_Inl)
qed

text \<open>
  C8. On a bundle whose references are in range the verifier never reaches one of its \<open>expect\<close>s, an
  out-of-range index or an endless walk: it returns a block structure or names a broken rule.
\<close>

theorem verify_blocks_no_panic:
  assumes "refs_in_range B" "length (nodes B) \<le> 2 ^ 32"
  shows "verify_blocks sha B \<noteq> Inl (BlockPanic m)"
  using assms by (rule verify_no_panic)

theorem verify_blocks_no_panic_witness: "verify_blocks demo_sha sample_bundle \<noteq> Inl (BlockPanic ''a closed block'')"
proof -
  have "refs_in_range sample_bundle"
    by (simp add: refs_in_range_def sample_bundle_def uses_def)
  then show ?thesis by (rule verify_blocks_no_panic) (simp add: sample_bundle_def)
qed

end
