(* ===== verification/CoreIr.thy ===== *)
theory CoreIr
  imports Codec BlockRules Utf8
begin

text \<open>
  The native wire format of \<open>src/src/core_ir_05/mod.rs\<close>: \<open>serialize_canonical\<close>,
  \<open>deserialize_canonical\<close>, the six-byte \<open>.coreir\<close> header (\<open>serialize_axbi\<close>, \<open>is_axbi\<close>, \<open>parse_axbi\<close>) and
  the bundle's identity. SHA-256 is a parameter.
\<close>

section \<open>Serialisation\<close>

fun write_noderef :: "node_ref \<Rightarrow> bytes" where
  "write_noderef (Node i) = write_varint (push_bit 1 (ucast i))"
| "write_noderef (Pool i) = write_varint (push_bit 1 (ucast i) OR 1)"

definition write_entry :: "pool_entry \<Rightarrow> bytes" where
  "write_entry e = def_hash e @ write_bytes (payload e)"

fun write_node :: "node \<Rightarrow> bytes" where
  "write_node (CCall tid as name) =
     write_varint 0 @ write_bytes name @ tid @ write_varint (of_nat (length as)) @ concat (map write_noderef as)"
| "write_node (CIf c t e) = write_varint 1 @ write_noderef c @ write_noderef t @ write_noderef e"
| "write_node CDeterminate = write_varint 2"
| "write_node CBlock = write_varint 3"
| "write_node (CEnd v) = write_varint 4 @ write_noderef v"

definition serialize_canonical :: "core_bundle \<Rightarrow> bytes" where
  "serialize_canonical B =
     write_varint (of_nat (length (constant_pool B))) @ concat (map write_entry (constant_pool B)) @
     write_varint (of_nat (length (nodes B))) @ concat (map write_node (nodes B)) @
     write_noderef (result B)"

definition bundle_identity :: "(bytes \<Rightarrow> hash256) \<Rightarrow> core_bundle \<Rightarrow> hash256" where
  "bundle_identity sha B = sha (serialize_canonical B)"

definition AXBI_MAGIC :: bytes where
  "AXBI_MAGIC = [0x41, 0x58, 0x43, 0x49]"

definition serialize_axbi :: "core_bundle \<Rightarrow> bytes" where
  "serialize_axbi B = AXBI_MAGIC @ [0, 6] @ serialize_canonical B"

section \<open>The strict decoder\<close>

definition rd_noderef :: "u64 \<Rightarrow> u64 \<Rightarrow> canon_reader \<Rightarrow> node_ref reading" where
  "rd_noderef nodes_so_far pool_count r =
     bindE (varint r) (\<lambda>(v, r').
       let idx = drop_bit 1 v in
       if v AND 1 = 1 then
         (if pool_count \<le> idx then Inl (PoolOutOfRange idx pool_count) else Inr (Pool (ucast idx), r'))
       else
         (if nodes_so_far \<le> idx then Inl (TopologicalOrder idx nodes_so_far) else Inr (Node (ucast idx), r')))"

definition rd_entry :: "canon_reader \<Rightarrow> pool_entry reading" where
  "rd_entry r =
     bindE (rd_hash r) (\<lambda>(h, r1). bindE (rd_bytes r1) (\<lambda>(p, r2). Inr (\<lparr>def_hash = h, payload = p\<rparr>, r2)))"

definition rd_node :: "u64 \<Rightarrow> nat \<Rightarrow> canon_reader \<Rightarrow> node reading" where
  "rd_node pool_count i r =
     bindE (varint r) (\<lambda>(k, r0).
       if k = 0 then
         bindE (rd_bytes r0) (\<lambda>(name, r1).
         if \<not> utf8_valid name then Inl NameNotUtf8
         else
           bindE (rd_hash r1) (\<lambda>(tid, r2).
           bindE (varint r2) (\<lambda>(argc, r3).
           bindE (read_seq (\<lambda>_. rd_noderef (of_nat i) pool_count) 0 (unat argc) r3) (\<lambda>(as, r4).
             Inr (CCall tid as name, r4)))))
       else if k = 1 then
         bindE (rd_noderef (of_nat i) pool_count r0) (\<lambda>(c, r1).
         bindE (rd_noderef (of_nat i) pool_count r1) (\<lambda>(t, r2).
         bindE (rd_noderef (of_nat i) pool_count r2) (\<lambda>(e, r3). Inr (CIf c t e, r3))))
       else if k = 2 then Inr (CDeterminate, r0)
       else if k = 3 then Inr (CBlock, r0)
       else if k = 4 then bindE (rd_noderef (of_nat i) pool_count r0) (\<lambda>(v, r1). Inr (CEnd v, r1))
       else Inl (UnknownKind k))"

definition deserialize_canonical :: "(bytes \<Rightarrow> hash256) \<Rightarrow> bytes \<Rightarrow> ir_error + core_bundle" where
  "deserialize_canonical sha bs =
     bindE (varint \<lparr>rd_b = bs, rd_pos = 0\<rparr>) (\<lambda>(pool_count, r1).
     bindE (read_seq (\<lambda>_. rd_entry) 0 (unat pool_count) r1) (\<lambda>(pool, r2).
     bindE (varint r2) (\<lambda>(node_count, r3).
     bindE (read_seq (rd_node pool_count) 0 (unat node_count) r3) (\<lambda>(nds, r4).
     bindE (rd_noderef node_count pool_count r4) (\<lambda>(res, r5).
       if rd_pos r5 \<noteq> length bs then Inl (TrailingBytes (length bs - rd_pos r5))
       else
         (let B = \<lparr>version = ''0.6'', constant_pool = pool, nodes = nds, result = res\<rparr> in
          case verify_blocks sha B of Inl e \<Rightarrow> Inl (BlockRefused e) | Inr _ \<Rightarrow> Inr B))))))"

definition is_axbi :: "bytes \<Rightarrow> bool" where
  "is_axbi bs \<longleftrightarrow> 4 \<le> length bs \<and> take 4 bs = AXBI_MAGIC"

definition parse_axbi :: "(bytes \<Rightarrow> hash256) \<Rightarrow> bytes \<Rightarrow> ir_error + core_bundle" where
  "parse_axbi sha bs =
     (if \<not> is_axbi bs then Inl BadMagic
      else if 6 \<le> length bs \<and> bs ! 4 = 0 \<and> bs ! 5 = 5 then Inl Refuse05
      else if length bs < 6 \<or> bs ! 4 \<noteq> 0 \<or> bs ! 5 \<noteq> 6 then Inl UnsupportedVersion
      else deserialize_canonical sha (drop 6 bs))"

section \<open>Well-formed bundles\<close>

fun ref_ok :: "nat \<Rightarrow> nat \<Rightarrow> node_ref \<Rightarrow> bool" where
  "ref_ok pc i (Node j) \<longleftrightarrow> unat j < i"
| "ref_ok pc i (Pool p) \<longleftrightarrow> unat p < pc"

definition entry_ok :: "pool_entry \<Rightarrow> bool" where
  "entry_ok e \<longleftrightarrow> length (def_hash e) = 32 \<and> length (payload e) < 2 ^ 64"

fun node_ok :: "nat \<Rightarrow> nat \<Rightarrow> node \<Rightarrow> bool" where
  "node_ok pc i (CCall tid as name) \<longleftrightarrow>
     length tid = 32 \<and> utf8_valid name \<and> length name < 2 ^ 64 \<and> length as \<le> 2 ^ 32 \<and> list_all (ref_ok pc i) as"
| "node_ok pc i (CIf c t e) \<longleftrightarrow> ref_ok pc i c \<and> ref_ok pc i t \<and> ref_ok pc i e"
| "node_ok pc i CDeterminate \<longleftrightarrow> True"
| "node_ok pc i CBlock \<longleftrightarrow> True"
| "node_ok pc i (CEnd v) \<longleftrightarrow> ref_ok pc i v"

definition bundle_ok :: "core_bundle \<Rightarrow> bool" where
  "bundle_ok B \<longleftrightarrow>
     version B = ''0.6'' \<and> length (constant_pool B) \<le> 2 ^ 32 \<and> length (nodes B) \<le> 2 ^ 32 \<and>
     list_all entry_ok (constant_pool B) \<and>
     (\<forall>i < length (nodes B). node_ok (length (constant_pool B)) i (nodes B ! i)) \<and>
     ref_ok (length (constant_pool B)) (length (nodes B)) (result B)"

section \<open>Codecs of references, pool entries and nodes\<close>

lemma rd_noderef_write:
  assumes "ref_ok (unat pc) i x" "i \<le> 2 ^ 32" "rd_rest r = write_noderef x @ zs"
  shows "rd_noderef (of_nat i) pc r = Inr (x, rd_adv (length (write_noderef x)) r)"
proof (cases x)
  case (Node j)
  have "unat (of_nat i :: u64) = i" using assms(2) by (intro unat_of_nat_64) simp
  moreover have "varint r = Inr (push_bit 1 (ucast j), rd_adv (length (write_noderef x)) r)"
    using assms(3) Node varint_write by simp
  ultimately show ?thesis
    using Node assms(1) by (simp add: rd_noderef_def ref_index_simps unat_ucast_up word_le_nat_alt)
next
  case (Pool j)
  moreover have "varint r = Inr (push_bit 1 (ucast j) OR 1, rd_adv (length (write_noderef x)) r)"
    using assms(3) Pool varint_write by simp
  ultimately show ?thesis
    using assms(1) by (simp add: rd_noderef_def ref_index_simps unat_ucast_up word_le_nat_alt)
qed

lemma rd_noderef_read:
  assumes "rd_noderef (of_nat i) pc r = Inr (x, r')" "i \<le> 2 ^ 32" "unat pc \<le> 2 ^ 32"
  shows "ref_ok (unat pc) i x \<and> r' = rd_adv (length (write_noderef x)) r \<and> (\<exists>zs. rd_rest r = write_noderef x @ zs)"
proof -
  from assms(1) obtain v where v: "varint r = Inr (v, r')"
    by (auto simp: rd_noderef_def Let_def split: prod.splits if_splits)
  have i: "unat (of_nat i :: u64) = i" using assms(2) by (intro unat_of_nat_64) simp
  have "ref_ok (unat pc) i x \<and> write_noderef x = write_varint v"
  proof (cases "v AND 1 = 1")
    case True
    with assms(1) v have x: "x = Pool (ucast (drop_bit 1 v))" and lt: "unat (drop_bit 1 v) < unat pc"
      by (auto simp: rd_noderef_def Let_def word_le_nat_alt split: if_splits)
    moreover from lt assms(3) have "unat (drop_bit 1 v) < 2 ^ 32" by simp
    ultimately show ?thesis
      using True split_low_bit [of v] by (simp only: ucast_down_up unat_ucast_down ref_ok.simps write_noderef.simps)
  next
    case False
    with assms(1) v i have x: "x = Node (ucast (drop_bit 1 v))" and lt: "unat (drop_bit 1 v) < i"
      by (auto simp: rd_noderef_def Let_def word_le_nat_alt split: if_splits)
    moreover from lt assms(2) have "unat (drop_bit 1 v) < 2 ^ 32" by simp
    ultimately show ?thesis
      using False low_bit_cases [of v] split_low_bit [of v]
      by (simp only: ucast_down_up unat_ucast_down ref_ok.simps write_noderef.simps) simp
  qed
  with varint_read [OF v] show ?thesis by auto
qed

lemma write_noderef_nonempty [simp]: "write_noderef x \<noteq> []"
  by (cases x) auto

lemma noderef_codec:
  "unat pc \<le> 2 ^ 32 \<Longrightarrow> canon_codec write_noderef (\<lambda>i. rd_noderef (of_nat i) pc) (ref_ok (unat pc))"
  by unfold_locales (auto simp: rd_room_def dest: rd_noderef_write rd_noderef_read)

lemma args_codec:
  "unat pc \<le> 2 ^ 32 \<Longrightarrow> i \<le> 2 ^ 32 \<Longrightarrow>
     canon_codec write_noderef (\<lambda>_. rd_noderef (of_nat i) pc) (\<lambda>_. ref_ok (unat pc) i)"
  by unfold_locales (auto dest: rd_noderef_write rd_noderef_read)

lemma entry_write:
  assumes "entry_ok e" "rd_rest r = write_entry e @ zs"
  shows "rd_entry r = Inr (e, rd_adv (length (write_entry e)) r)"
proof -
  have "rd_hash r = Inr (def_hash e, rd_adv 32 r)"
    using assms by (intro rd_hash_append) (auto simp: write_entry_def entry_ok_def)
  moreover have "rd_bytes (rd_adv 32 r) = Inr (payload e, rd_adv (length (write_bytes (payload e))) (rd_adv 32 r))"
    using assms by (intro rd_bytes_append) (auto simp: write_entry_def entry_ok_def)
  ultimately show ?thesis using assms(1) by (simp add: rd_entry_def write_entry_def entry_ok_def)
qed

lemma entry_read:
  assumes "rd_entry r = Inr (e, r')"
  shows "entry_ok e \<and> r' = rd_adv (length (write_entry e)) r \<and> (\<exists>zs. rd_rest r = write_entry e @ zs)"
proof -
  from assms obtain h r1 p where h: "rd_hash r = Inr (h, r1)" and p: "rd_bytes r1 = Inr (p, r')"
    and e: "e = \<lparr>def_hash = h, payload = p\<rparr>"
    by (auto simp: rd_entry_def split: prod.splits)
  from rd_hash_read [OF h] rd_bytes_read [OF p] e show ?thesis
    by (auto simp: write_entry_def entry_ok_def)
qed

interpretation en: canon_codec write_entry "\<lambda>_. rd_entry" "\<lambda>_. entry_ok"
  by unfold_locales (auto simp: write_bytes_nonempty write_entry_def [of "_ :: pool_entry"] dest: entry_write entry_read)


lemma node_write:
  assumes "node_ok (unat pc) i nd" "i \<le> 2 ^ 32" "unat pc \<le> 2 ^ 32" "rd_rest r = write_node nd @ zs"
  shows "rd_node pc i r = Inr (nd, rd_adv (length (write_node nd)) r)"
proof (cases nd)
  case (CCall tid as name)
  let ?argc = "of_nat (length as) :: u64"
  let ?r1 = "rd_adv (length (write_varint 0)) r"
  let ?r2 = "rd_adv (length (write_bytes name)) ?r1"
  let ?r3 = "rd_adv 32 ?r2"
  let ?r4 = "rd_adv (length (write_varint ?argc)) ?r3"
  note ok = assms(1) [unfolded CCall node_ok.simps] and rest = assms(4) [unfolded CCall write_node.simps]
  have argc: "unat ?argc = length as" using ok by (intro unat_of_nat_64) auto
  have "varint r = Inr (0, ?r1)" using rest by (simp add: varint_write)
  moreover have "rd_bytes ?r1 = Inr (name, ?r2)"
    using rest ok by (intro rd_bytes_append) auto
  moreover have "rd_hash ?r2 = Inr (tid, ?r3)"
    using rest ok by (intro rd_hash_append) auto
  moreover have "varint ?r3 = Inr (?argc, ?r4)"
    using rest ok by (intro varint_write) auto
  moreover have "read_seq (\<lambda>_. rd_noderef (of_nat i) pc) 0 (length as) ?r4 =
      Inr (as, rd_adv (length (concat (map write_noderef as))) ?r4)"
    using rest ok by (intro canon_codec.read_seq_encs [OF args_codec [OF assms(3,2)]])
      (auto simp: list_all_length)
  ultimately show ?thesis
    using ok argc unfolding CCall rd_node_def by (simp add: add.assoc)
qed (use assms in \<open>auto simp: rd_node_def varint_write rd_noderef_write\<close>)

lemma node_read:
  assumes "rd_node pc i r = Inr (nd, r')" "rd_room i r" "unat pc \<le> 2 ^ 32"
  shows "node_ok (unat pc) i nd \<and> r' = rd_adv (length (write_node nd)) r \<and> (\<exists>zs. rd_rest r = write_node nd @ zs)"
proof -
  from assms(1) obtain k r0 where k: "varint r = Inr (k, r0)"
    by (auto simp: rd_node_def split: prod.splits)
  from varint_read [OF k] obtain zs where r0: "r0 = rd_adv (length (write_varint k)) r" "rd_rest r = write_varint k @ zs"
    by blast
  have room: "i \<le> 2 ^ 32" using assms(2) by (simp add: rd_room_def)
  note body = assms(1) [unfolded rd_node_def k bindE_simps prod.case]
  consider "k = 0" | "k = 1" | "k = 2" | "k = 3" | "k = 4" using body by (auto split: if_splits)
  then show ?thesis
  proof cases
    case 1
    with body obtain name r1 tid r2 argc r3 as where
      s: "rd_bytes r0 = Inr (name, r1)" "utf8_valid name" "rd_hash r1 = Inr (tid, r2)" "varint r2 = Inr (argc, r3)"
      "read_seq (\<lambda>_. rd_noderef (of_nat i) pc) 0 (unat argc) r3 = Inr (as, r')" "nd = CCall tid as name"
      by (auto split: prod.splits if_splits)
    note rd = rd_bytes_read [OF s(1)] rd_hash_read [OF s(3)] varint_read [OF s(4)]
    from assms(2) have "rd_room 0 r" by (simp add: rd_room_def)
    then have "rd_room 0 r3" using r0 rd by (metis rd_room_adv le_add1)
    from canon_codec.read_seq_dec [OF args_codec [OF assms(3) room] s(5) this] obtain ys where
      as: "length as = unat argc" "list_all (ref_ok (unat pc) i) as" "rd_room (length as) r'"
      "r' = rd_adv (length (concat (map write_noderef as))) r3"
      "rd_rest r3 = concat (map write_noderef as) @ ys"
      by (auto simp: list_all_length)
    from as(1) have argc: "argc = of_nat (length as)" by simp
    from as(3) have "length as \<le> 2 ^ 32" by (simp add: rd_room_def)
    then have "node_ok (unat pc) i nd" using rd s(2,6) as(2) by simp
    moreover have "r' = rd_adv (length (write_node nd)) r"
      using rd r0 1 s(6) as(4) argc by (simp add: add.assoc)
    moreover have "\<exists>zs. rd_rest r = write_node nd @ zs"
      using rd r0 1 s(6) as(5) argc by auto
    ultimately show ?thesis by blast
  next
    case 2
    with body obtain c r1 t r2 e where
      s: "rd_noderef (of_nat i) pc r0 = Inr (c, r1)" "rd_noderef (of_nat i) pc r1 = Inr (t, r2)"
      "rd_noderef (of_nat i) pc r2 = Inr (e, r')" "nd = CIf c t e"
      by (auto split: prod.splits)
    from s(1-3) [THEN rd_noderef_read, OF room assms(3)] r0 2 s(4) show ?thesis
      by auto
  next
    case 5
    with body obtain v where s: "rd_noderef (of_nat i) pc r0 = Inr (v, r')" "nd = CEnd v"
      by (auto split: prod.splits)
    from rd_noderef_read [OF s(1) room assms(3)] r0 5 s(2) show ?thesis by auto
  qed (use body r0 in auto)
qed


lemma node_codec:
  "unat pc \<le> 2 ^ 32 \<Longrightarrow> canon_codec write_node (rd_node pc) (node_ok (unat pc))"
proof unfold_locales
  fix i nd show "node_ok (unat pc) i nd \<Longrightarrow> write_node nd \<noteq> []"
    by (cases nd) auto
qed (auto dest: node_write node_read)

lemma deserialize_serialize:
  assumes "bundle_ok B" "verify_blocks sha B = Inr bl"
  shows "deserialize_canonical sha (serialize_canonical B) = Inr B"
proof -
  let ?pc = "of_nat (length (constant_pool B)) :: u64" and ?nc = "of_nat (length (nodes B)) :: u64"
  let ?r0 = "\<lparr>rd_b = serialize_canonical B, rd_pos = 0\<rparr>"
  let ?r1 = "rd_adv (length (write_varint ?pc)) ?r0"
  let ?r2 = "rd_adv (length (concat (map write_entry (constant_pool B)))) ?r1"
  let ?r3 = "rd_adv (length (write_varint ?nc)) ?r2"
  let ?r4 = "rd_adv (length (concat (map write_node (nodes B)))) ?r3"
  have rest: "rd_rest ?r0 = serialize_canonical B" by (simp add: rd_rest_def)
  note ok = assms(1) [unfolded bundle_ok_def]
  have pc: "unat ?pc = length (constant_pool B)" "unat ?pc \<le> 2 ^ 32" and nc: "unat ?nc = length (nodes B)"
    using ok by (simp_all add: unat_of_nat_64)
  have "varint ?r0 = Inr (?pc, ?r1)"
    using rest by (simp add: varint_write serialize_canonical_def)
  moreover have "read_seq (\<lambda>_. rd_entry) 0 (length (constant_pool B)) ?r1 = Inr (constant_pool B, ?r2)"
    using rest ok by (intro en.read_seq_encs) (auto simp: serialize_canonical_def list_all_length)
  moreover have "varint ?r2 = Inr (?nc, ?r3)"
    using rest by (intro varint_write) (simp add: serialize_canonical_def)
  moreover have "read_seq (rd_node ?pc) 0 (length (nodes B)) ?r3 = Inr (nodes B, ?r4)"
    using rest ok pc by (intro canon_codec.read_seq_encs [OF node_codec [OF pc(2)]]) (auto simp: serialize_canonical_def)
  moreover have "rd_noderef (of_nat (length (nodes B))) ?pc ?r4 =
      Inr (result B, rd_adv (length (write_noderef (result B))) ?r4)"
    using rest ok pc by (intro rd_noderef_write [where zs = "[]"]) (auto simp: serialize_canonical_def)
  moreover have "\<lparr>version = ''0.6'', constant_pool = constant_pool B, nodes = nodes B, result = result B\<rparr> = B"
    using ok by (cases B) simp
  ultimately show ?thesis
    using pc nc assms(2)
    unfolding deserialize_canonical_def
    by (simp add: Let_def serialize_canonical_def)
qed

lemma read_body:
  fixes bs :: bytes
  defines "r0 \<equiv> \<lparr>rd_b = bs, rd_pos = 0\<rparr>"
  assumes bound: "length bs \<le> 2 ^ 32"
    and s: "varint r0 = Inr (pc, r1)" "read_seq (\<lambda>_. rd_entry) 0 (unat pc) r1 = Inr (pool, r2)"
    "varint r2 = Inr (nc, r3)" "read_seq (rd_node pc) 0 (unat nc) r3 = Inr (nds, r4)"
    "rd_noderef nc pc r4 = Inr (res, r5)" "rd_pos r5 = length bs"
    and B: "B = \<lparr>version = ''0.6'', constant_pool = pool, nodes = nds, result = res\<rparr>"
  shows "bundle_ok B \<and> serialize_canonical B = bs"
proof -
  have "rd_room 0 r0" using bound by (simp add: rd_room_def r0_def)
  with varint_read [OF s(1)] have room1: "rd_room 0 r1" by (metis rd_room_adv le_add1)
  from en.read_seq_dec [OF s(2) room1] have
    pool: "length pool = unat pc" "list_all entry_ok pool" "r2 = rd_adv (length (concat (map write_entry pool))) r1"
      "\<exists>zs. rd_rest r1 = concat (map write_entry pool) @ zs" "rd_room (unat pc) r2"
    by (auto simp: list_all_length)
  from pool(5) have pc: "unat pc \<le> 2 ^ 32" and "rd_room 0 r2" by (simp_all add: rd_room_def)
  with varint_read [OF s(3)] have room3: "rd_room 0 r3" by (metis rd_room_adv le_add1)
  from canon_codec.read_seq_dec [OF node_codec [OF pc] s(4) room3] have
    nds: "length nds = unat nc" "\<forall>i < length nds. node_ok (unat pc) i (nds ! i)"
      "r4 = rd_adv (length (concat (map write_node nds))) r3"
      "\<exists>zs. rd_rest r3 = concat (map write_node nds) @ zs" "rd_room (unat nc) r4"
    by auto
  from nds(5) have nc: "unat nc \<le> 2 ^ 32" by (simp add: rd_room_def)
  from s(5) have "rd_noderef (of_nat (unat nc)) pc r4 = Inr (res, r5)" by simp
  from rd_noderef_read [OF this nc pc] have
    res: "ref_ok (unat pc) (unat nc) res" "r5 = rd_adv (length (write_noderef res)) r4"
      "\<exists>zs. rd_rest r4 = write_noderef res @ zs" by auto
  have "of_nat (length pool) = pc" "of_nat (length nds) = nc" using pool(1) nds(1) by simp_all
  then have ser: "serialize_canonical B = write_varint pc @ concat (map write_entry pool) @
      write_varint nc @ concat (map write_node nds) @ write_noderef res"
    by (simp add: serialize_canonical_def B)
  have "bundle_ok B" using B pool nds res pc nc by (simp add: bundle_ok_def)
  moreover have "serialize_canonical B = bs"
  proof -
    have "\<exists>zs. bs = serialize_canonical B @ zs"
      using varint_read [OF s(1)] pool varint_read [OF s(3)] nds res unfolding ser by (auto simp: rd_rest_def r0_def)
    moreover have "length (serialize_canonical B) = length bs"
      using varint_read [OF s(1)] pool(3) varint_read [OF s(3)] nds(3) res(2) s(6) unfolding ser by (simp add: r0_def)
    ultimately show ?thesis by auto
  qed
  ultimately show ?thesis by blast
qed

lemma serialize_deserialize:
  assumes "deserialize_canonical sha bs = Inr B" "length bs \<le> 2 ^ 32"
  shows "bundle_ok B \<and> (\<exists>bl. verify_blocks sha B = Inr bl) \<and> serialize_canonical B = bs"
proof -
  from assms(1) obtain pc r1 pool r2 nc r3 nds r4 res r5 bl where
    s: "varint \<lparr>rd_b = bs, rd_pos = 0\<rparr> = Inr (pc, r1)" "read_seq (\<lambda>_. rd_entry) 0 (unat pc) r1 = Inr (pool, r2)"
    "varint r2 = Inr (nc, r3)" "read_seq (rd_node pc) 0 (unat nc) r3 = Inr (nds, r4)"
    "rd_noderef nc pc r4 = Inr (res, r5)" "rd_pos r5 = length bs"
    and B: "B = \<lparr>version = ''0.6'', constant_pool = pool, nodes = nds, result = res\<rparr>" "verify_blocks sha B = Inr bl"
    by (auto simp: deserialize_canonical_def Let_def split: prod.splits if_splits sum.splits)
  from read_body [OF assms(2) s B(1)] B(2) show ?thesis by blast
qed

text \<open>A decoder's own errors are never the verifier's: a refusal by the verifier is about a well-formed bundle.\<close>

definition reader_error :: "ir_error \<Rightarrow> bool" where
  "reader_error e = (case e of BlockRefused _ \<Rightarrow> False | _ \<Rightarrow> True)"

lemma varint_loop_error: "varint_loop start v s r = Inl e \<Longrightarrow> reader_error e"
proof (induction "rd_rest r" arbitrary: v s r)
  case Nil
  from Nil(2) [unfolded varint_loop.simps [of start v s r]] Nil(1) show ?case
    by (auto simp: rd_take1 reader_error_def simp flip: Nil(1))
next
  case (Cons b bs)
  note rest = Cons(2) [symmetric]
  from Cons(3) [unfolded varint_loop.simps [of start v s r], simplified rd_take1 One_nat_def rest, simplified]
    Cons(1) [of "rd_adv 1 r"] rest
  show ?case by (auto simp: Let_def reader_error_def split: if_splits)
qed

lemma rd_take_error: "rd_take n r = Inl e \<Longrightarrow> reader_error e"
  by (auto simp: rd_take_def reader_error_def split: if_splits)

lemma varint_error: "varint r = Inl e \<Longrightarrow> reader_error e"
  unfolding varint_def by (rule varint_loop_error)

lemma rd_bytes_error: "rd_bytes r = Inl e \<Longrightarrow> reader_error e"
  by (auto simp: rd_bytes_def rd_len_def bindE_eq_Inl split: prod.splits dest: varint_error rd_take_error)

lemma read_seq_error:
  assumes "\<And>i r e. dec i r = Inl e \<Longrightarrow> reader_error e"
  shows "read_seq dec i n r = Inl e \<Longrightarrow> reader_error e"
  by (induction n arbitrary: i r) (auto simp: bindE_eq_Inl assms split: prod.splits)

lemma rd_noderef_error: "rd_noderef i pc r = Inl e \<Longrightarrow> reader_error e"
  by (auto simp: rd_noderef_def Let_def bindE_eq_Inl reader_error_def split: prod.splits if_splits dest: varint_error)

lemma rd_entry_error: "rd_entry r = Inl e \<Longrightarrow> reader_error e"
  by (auto simp: rd_entry_def rd_hash_def bindE_eq_Inl split: prod.splits dest: rd_take_error rd_bytes_error)

lemma rd_node_error:
  assumes "rd_node pc i r = Inl e"
  shows "reader_error e"
proof -
  have "reader_error NameNotUtf8" "\<And>k. reader_error (UnknownKind k)" by (simp_all add: reader_error_def)
  then show ?thesis
    using assms read_seq_error [of "\<lambda>_. rd_noderef (of_nat i) pc", OF rd_noderef_error]
    unfolding rd_node_def
    by (auto simp: bindE_eq_Inl rd_hash_def split: prod.splits if_splits
        dest: varint_error rd_bytes_error rd_take_error rd_noderef_error)
qed

lemma entries_error: "read_seq (\<lambda>_. rd_entry) i n r = Inl e \<Longrightarrow> reader_error e"
  by (rule read_seq_error [OF rd_entry_error])

lemma nodes_error: "read_seq (rd_node pc) i n r = Inl e \<Longrightarrow> reader_error e"
  by (rule read_seq_error [OF rd_node_error])

lemma refused_by_verifier:
  "(case x of Inl e' \<Rightarrow> Inl (BlockRefused e') | Inr _ \<Rightarrow> Inr B) = Inl (BlockRefused e) \<longleftrightarrow> x = Inl e"
  by (cases x) auto

lemma deserialize_refusal:
  assumes "deserialize_canonical sha bs = Inl (BlockRefused e)" "length bs \<le> 2 ^ 32"
  shows "\<exists>B. bundle_ok B \<and> verify_blocks sha B = Inl e"
proof -
  have ne: "\<not> reader_error (BlockRefused e)" by (simp add: reader_error_def)
  have "\<exists>pc r1 pool r2 nc r3 nds r4 res r5.
    varint \<lparr>rd_b = bs, rd_pos = 0\<rparr> = Inr (pc, r1) \<and> read_seq (\<lambda>_. rd_entry) 0 (unat pc) r1 = Inr (pool, r2) \<and>
    varint r2 = Inr (nc, r3) \<and> read_seq (rd_node pc) 0 (unat nc) r3 = Inr (nds, r4) \<and>
    rd_noderef nc pc r4 = Inr (res, r5) \<and> rd_pos r5 = length bs \<and>
    verify_blocks sha \<lparr>version = ''0.6'', constant_pool = pool, nodes = nds, result = res\<rparr> = Inl e"
    using assms(1) ne unfolding deserialize_canonical_def bindE_eq_Inl
    by (auto simp: Let_def bindE_eq_Inl refused_by_verifier split: prod.splits if_splits
        dest: varint_error entries_error nodes_error rd_noderef_error)
  then obtain pc r1 pool r2 nc r3 nds r4 res r5 where
    s: "varint \<lparr>rd_b = bs, rd_pos = 0\<rparr> = Inr (pc, r1)" "read_seq (\<lambda>_. rd_entry) 0 (unat pc) r1 = Inr (pool, r2)"
    "varint r2 = Inr (nc, r3)" "read_seq (rd_node pc) 0 (unat nc) r3 = Inr (nds, r4)"
    "rd_noderef nc pc r4 = Inr (res, r5)" "rd_pos r5 = length bs"
    and v: "verify_blocks sha \<lparr>version = ''0.6'', constant_pool = pool, nodes = nds, result = res\<rparr> = Inl e"
    by blast
  from read_body [OF assms(2) s refl] v show ?thesis by blast
qed

lemma ref_ok_below: "ref_ok pc i r \<Longrightarrow> i \<le> n \<Longrightarrow> ref_below n r"
  by (cases r) auto

lemma bundle_ok_refs:
  assumes ok: "bundle_ok B"
  shows "refs_in_range B"
proof -
  have "list_all (ref_below (length (nodes B))) (uses (nodes B ! i))" if "i < length (nodes B)" for i
  proof -
    have "node_ok (length (constant_pool B)) i (nodes B ! i)" using ok that by (simp add: bundle_ok_def)
    then show ?thesis using that ref_ok_below [of _ i _ "length (nodes B)"]
      by (cases "nodes B ! i") (auto simp: uses_def list_all_iff)
  qed
  moreover have "ref_below (length (nodes B)) (result B)"
    using ok ref_ok_below [OF _ order_refl] unfolding bundle_ok_def by blast
  ultimately show ?thesis by (simp add: refs_in_range_def list_all_length)
qed

section \<open>The file format\<close>

lemma parse_axbi_header:
  "parse_axbi sha (AXBI_MAGIC @ [0, 6] @ bs) = deserialize_canonical sha bs"
  by (simp add: parse_axbi_def is_axbi_def AXBI_MAGIC_def)

lemma parse_axbi_InrD:
  assumes "parse_axbi sha bs = Inr B"
  shows "bs = AXBI_MAGIC @ [0, 6] @ drop 6 bs \<and> deserialize_canonical sha (drop 6 bs) = Inr B"
proof -
  from assms have h: "take 4 bs = AXBI_MAGIC" "6 \<le> length bs" "bs ! 4 = 0" "bs ! 5 = 6"
    "deserialize_canonical sha (drop 6 bs) = Inr B"
    by (auto simp: parse_axbi_def is_axbi_def split: if_splits)
  from h(2) obtain a b c d e f xs where "bs = a # b # c # d # e # f # xs"
    by (auto simp: numeral_eq_Suc Suc_le_length_iff)
  with h show ?thesis by simp
qed


lemma sample_ok: "bundle_ok sample_bundle"
  by (simp add: bundle_ok_def sample_bundle_def All_less_Suc2 entry_ok_def demo_sha_def utf8_valid_def
      utf8_valid_ascii)

text \<open>
  C2. Round trip of the native file format: a well-formed bundle whose blocks the verifier accepts,
  written by \<open>serialize_axbi\<close>, is read back by \<open>parse_axbi\<close> as exactly that bundle.
\<close>

theorem parse_axbi_serialize_axbi:
  assumes "bundle_ok B" "verify_blocks sha B = Inr bl"
  shows "parse_axbi sha (serialize_axbi B) = Inr B"
  unfolding serialize_axbi_def parse_axbi_header using assms by (rule deserialize_serialize)

theorem parse_axbi_serialize_axbi_witness: "parse_axbi demo_sha (serialize_axbi sample_bundle) = Inr sample_bundle"
  by (rule parse_axbi_serialize_axbi [OF sample_ok sample_verifies])

text \<open>
  C1. The decoder is canonical: whatever file of at most 4 GiB \<open>parse_axbi\<close> accepts, the bundle it
  returns is well-formed, its blocks verify, and writing it back gives the same bytes, so a
  bundle that is read and written again keeps its identity.
\<close>

theorem serialize_axbi_parse_axbi:
  assumes "parse_axbi sha bs = Inr B" "length bs \<le> 2 ^ 32"
  shows "bundle_ok B \<and> (\<exists>bl. verify_blocks sha B = Inr bl) \<and> serialize_axbi B = bs
    \<and> bundle_identity sha B = sha (drop 6 bs)"
proof -
  note p = parse_axbi_InrD [OF assms(1)]
  then have d: "deserialize_canonical sha (drop 6 bs) = Inr B" by blast
  have "length (drop 6 bs) \<le> 2 ^ 32" using assms(2) by simp
  note ser = serialize_deserialize [OF d this]
  then have "serialize_axbi B = AXBI_MAGIC @ [0, 6] @ drop 6 bs" by (simp add: serialize_axbi_def)
  also have "\<dots> = bs" using p by simp
  finally have "serialize_axbi B = bs" .
  then show ?thesis using ser by (simp add: bundle_identity_def)
qed

theorem serialize_axbi_parse_axbi_witness:
  "bundle_identity demo_sha sample_bundle = demo_sha (drop 6 (serialize_axbi sample_bundle))"
proof -
  have "parse_axbi demo_sha (serialize_axbi sample_bundle) = Inr sample_bundle"
    unfolding serialize_axbi_def parse_axbi_header
    by (rule deserialize_serialize [OF sample_ok sample_verifies])
  moreover have "length (serialize_axbi sample_bundle) = 170" by code_simp
  ultimately show ?thesis using serialize_axbi_parse_axbi [of demo_sha "serialize_axbi sample_bundle" sample_bundle] by simp
qed

text \<open>
  C7. Loading never panics in the verifier: on any byte string of at most 4 GiB \<open>parse_axbi\<close> returns a
  bundle, an error of the decoder or a named block rule, never one of the verifier's panics.
\<close>

theorem parse_axbi_no_panic:
  assumes "length bs \<le> 2 ^ 32"
  shows "parse_axbi sha bs \<noteq> Inl (BlockRefused (BlockPanic m))"
proof
  assume "parse_axbi sha bs = Inl (BlockRefused (BlockPanic m))"
  then have "deserialize_canonical sha (drop 6 bs) = Inl (BlockRefused (BlockPanic m))"
    by (auto simp: parse_axbi_def split: if_splits)
  moreover have "length (drop 6 bs) \<le> 2 ^ 32" using assms by simp
  ultimately obtain B where B: "bundle_ok B" "verify_blocks sha B = Inl (BlockPanic m)"
    using deserialize_refusal by blast
  have "verify_blocks sha B \<noteq> Inl (BlockPanic m)"
    using B(1) by (intro verify_no_panic bundle_ok_refs) (auto simp: bundle_ok_def)
  with B(2) show False by blast
qed

theorem parse_axbi_no_panic_witness: "parse_axbi demo_sha [0x41] \<noteq> Inl (BlockRefused (BlockPanic []))"
  by (rule parse_axbi_no_panic) simp

end
