(* ===== verification/BuiltinTables.thy ===== *)
theory BuiltinTables
  imports Decimal
begin

text \<open>
  The builtin tables of the emitter (\<open>src/src/emit/rust_05.rs\<close>): which Rust function a builtin's name
  stands for (\<open>symbol_map\<close>), which of its arguments are callees (\<open>fn_arg_kinds\<close>) and which builtins are
  called with native positional arguments (\<open>native_call_fn_arg_types\<close>). A table is the list of its
  insertions in source order, in pieces; looking a name up takes the last insertion, as \<open>HashMap\<close> does.
\<close>

section \<open>Names and paths\<close>

text \<open>The path of a builtin: its module of the runtime and its name there.\<close>

definition rt :: "string \<Rightarrow> string \<Rightarrow> string" where
  "rt m f = ''axis_codegen_bridge::runtime::'' @ m @ ''::'' @ f"

section \<open>The symbol map\<close>

definition symbol_rows_1 :: "(string \<times> string) list" where
  "symbol_rows_1 =
    [(''int_add'', rt ''arith'' ''int_add''), (''int_sub'', rt ''arith'' ''int_sub''),
     (''int_mul'', rt ''arith'' ''int_mul''), (''int_shl'', rt ''arith'' ''int_shl''),
     (''int_shr'', rt ''arith'' ''int_shr''), (''int_bit_and'', rt ''arith'' ''int_bit_and''),
     (''int_bit_or'', rt ''arith'' ''int_bit_or''), (''int_bit_xor'', rt ''arith'' ''int_bit_xor''),
     (''int_bit_not'', rt ''arith'' ''int_bit_not''), (''int_div'', rt ''arith'' ''int_div''),
     (''fail'', rt ''fail'' ''fail''), (''int_div_checked'', rt ''arith'' ''int_div_checked''),
     (''int_mod'', rt ''arith'' ''int_mod''), (''int_to_str'', rt ''arith'' ''int_to_str''),
     (''dec_add'', rt ''arith'' ''dec_add''), (''dec_sub'', rt ''arith'' ''dec_sub''),
     (''dec_mul'', rt ''arith'' ''dec_mul''), (''dec_neg'', rt ''arith'' ''dec_neg''),
     (''dec_abs'', rt ''arith'' ''dec_abs''), (''dec_min'', rt ''arith'' ''dec_min''),
     (''dec_max'', rt ''arith'' ''dec_max''), (''dec_round'', rt ''arith'' ''dec_round''),
     (''dec_to_int'', rt ''arith'' ''dec_to_int''), (''str_to_dec'', rt ''arith'' ''str_to_dec''),
     (''float_add'', rt ''arith'' ''float_add''), (''float_sub'', rt ''arith'' ''float_sub''),
     (''float_mul'', rt ''arith'' ''float_mul''), (''float_div'', rt ''arith'' ''float_div''),
     (''float_neg'', rt ''arith'' ''float_neg''), (''float_abs'', rt ''arith'' ''float_abs''),
     (''float_sqrt'', rt ''arith'' ''float_sqrt''), (''float_pow'', rt ''arith'' ''float_pow''),
     (''float_floor'', rt ''arith'' ''float_floor''), (''float_ceil'', rt ''arith'' ''float_ceil''),
     (''float_round'', rt ''arith'' ''float_round''), (''float_min'', rt ''arith'' ''float_min''),
     (''float_max'', rt ''arith'' ''float_max''), (''float_is_nan'', rt ''arith'' ''float_is_nan''),
     (''float_to_int'', rt ''arith'' ''float_to_int''), (''float_to_text'', rt ''arith'' ''float_to_text''),
     (''str_to_float'', rt ''arith'' ''str_to_float''), (''str_to_int'', rt ''arith'' ''str_to_int''),
     (''int_abs'', rt ''arith'' ''int_abs''), (''int_min'', rt ''arith'' ''int_min''),
     (''int_max'', rt ''arith'' ''int_max''), (''int_clamp'', rt ''arith'' ''int_clamp''),
     (''celsius_to_fahrenheit'', rt ''arith'' ''celsius_to_fahrenheit''),
     (''fahrenheit_to_celsius'', rt ''arith'' ''fahrenheit_to_celsius''),
     (''is_positive'', rt ''arith'' ''is_positive''), (''int_lt'', rt ''arith'' ''int_lt''),
     (''int_lte'', rt ''arith'' ''int_lte''), (''int_gt'', rt ''arith'' ''int_gt''),
     (''int_gte'', rt ''arith'' ''int_gte''), (''int_eq'', rt ''arith'' ''int_eq''),
     (''dec_lt'', rt ''arith'' ''dec_lt''), (''dec_lte'', rt ''arith'' ''dec_lte''),
     (''dec_gt'', rt ''arith'' ''dec_gt''), (''dec_gte'', rt ''arith'' ''dec_gte''),
     (''dec_eq'', rt ''arith'' ''dec_eq''), (''dec_div'', rt ''arith'' ''dec_div''),
     (''dec_to_text'', rt ''arith'' ''dec_to_text''), (''float_lt'', rt ''arith'' ''float_lt''),
     (''float_lte'', rt ''arith'' ''float_lte''), (''float_gt'', rt ''arith'' ''float_gt''),
     (''float_gte'', rt ''arith'' ''float_gte''), (''float_eq'', rt ''arith'' ''float_eq''),
     (''value_eq'', rt ''arith'' ''value_eq''), (''unit_id'', rt ''arith'' ''unit_id''),
     (''seq'', rt ''arith'' ''seq''), (''bool_and'', rt ''bool_ops'' ''bool_and''),
     (''bool_or'', rt ''bool_ops'' ''bool_or''), (''bool_not'', rt ''bool_ops'' ''bool_not''),
     (''bool_to_str'', rt ''str_ops'' ''bool_to_str''), (''assert'', rt ''bool_ops'' ''ax_assert''),
     (''str_len'', rt ''str_ops'' ''str_len''), (''str_concat'', rt ''str_ops'' ''str_concat''),
     (''str_char'', rt ''str_ops'' ''str_char''), (''str_char_at'', rt ''str_ops'' ''str_char_at''),
     (''str_char_code'', rt ''str_ops'' ''str_char_code''), (''str_slice'', rt ''str_ops'' ''str_slice''),
     (''str_split'', rt ''str_ops'' ''str_split''), (''str_starts_with'', rt ''str_ops'' ''str_starts_with''),
     (''str_ends_with'', rt ''str_ops'' ''str_ends_with''), (''str_trim'', rt ''str_ops'' ''str_trim''),
     (''str_contains'', rt ''str_ops'' ''str_contains''), (''str_index_of'', rt ''str_ops'' ''str_index_of''),
     (''str_find_from'', rt ''str_ops'' ''str_find_from''),
     (''str_starts_with_at'', rt ''str_ops'' ''str_starts_with_at''), (''str_eq'', rt ''str_ops'' ''str_eq''),
     (''text_eq'', rt ''str_ops'' ''text_eq''), (''text_lt'', rt ''str_ops'' ''text_lt''),
     (''text_lte'', rt ''str_ops'' ''text_lte''), (''text_gt'', rt ''str_ops'' ''text_gt''),
     (''text_gte'', rt ''str_ops'' ''text_gte''), (''str_lt'', rt ''str_ops'' ''str_lt''),
     (''str_lte'', rt ''str_ops'' ''str_lte''), (''str_gt'', rt ''str_ops'' ''str_gt''),
     (''str_gte'', rt ''str_ops'' ''str_gte''), (''str_before'', rt ''str_ops'' ''str_before''),
     (''str_after'', rt ''str_ops'' ''str_after''), (''str_between'', rt ''str_ops'' ''str_between''),
     (''chr'', rt ''str_ops'' ''chr''), (''list_nil'', rt ''list'' ''list_nil''),
     (''list_cons'', rt ''list'' ''list_cons''), (''list_len'', rt ''list'' ''list_len''),
     (''text_list_len'', rt ''list'' ''list_len''), (''list_get'', rt ''list'' ''list_get''),
     (''list_get_at'', rt ''list'' ''list_get_at''),
     (''list_get_println_if_some'', rt ''list'' ''list_get_println_if_some''),
     (''list_str_len_lte_if_some'', rt ''list'' ''list_str_len_lte_if_some''),
     (''list_append'', rt ''list'' ''list_append''), (''value_list_push'', rt ''list'' ''list_append''),
     (''list_set'', rt ''list'' ''list_set''), (''list_insert'', rt ''list'' ''list_insert''),
     (''list_remove'', rt ''list'' ''list_remove''), (''list_drop_last'', rt ''list'' ''list_drop_last''),
     (''list_concat'', rt ''list'' ''list_concat'')]"

definition symbol_rows_2 :: "(string \<times> string) list" where
  "symbol_rows_2 =
    [(''list_reverse'', rt ''list'' ''list_reverse''), (''list_head'', rt ''list'' ''list_head''),
     (''list_tail'', rt ''list'' ''list_tail''), (''list_is_empty'', rt ''list'' ''list_is_empty''),
     (''text_list_is_empty'', rt ''list'' ''list_is_empty''), (''list_of_1'', rt ''list'' ''list_of_1''),
     (''int_to_singleton'', rt ''list'' ''list_of_1''), (''list_of_2'', rt ''list'' ''list_of_2''),
     (''list_of_3'', rt ''list'' ''list_of_3''), (''tuple_field'', rt ''tuple'' ''tuple_field''),
     (''ctor_field'', rt ''tuple'' ''ctor_field''), (''value_make'', rt ''tuple'' ''value_make''),
     (''value_0'', rt ''tuple'' ''value_0''), (''value_1'', rt ''tuple'' ''value_1''),
     (''value_2'', rt ''tuple'' ''value_2''), (''list_make'', rt ''list'' ''list_make''),
     (''handle_list_make'', rt ''tasks'' ''handle_list_make''), (''range'', rt ''iter'' ''range''),
     (''foreach'', rt ''iter'' ''foreach''), (''loop_count'', rt ''iter'' ''loop_count''),
     (''str_join'', rt ''str_ops'' ''str_join''), (''flat_map'', rt ''iter'' ''flat_map''),
     (''filter'', rt ''iter'' ''filter''), (''map'', rt ''iter'' ''map''), (''any'', rt ''iter'' ''any''),
     (''all'', rt ''iter'' ''all''), (''find_index'', rt ''iter'' ''find_index''),
     (''count'', rt ''iter'' ''count''), (''loop_while'', rt ''iter'' ''loop_while''),
     (''fold'', rt ''iter'' ''fold''), (''range_step'', rt ''iter'' ''range_step''),
     (''repeat'', rt ''iter'' ''repeat''), (''enumerate'', rt ''iter'' ''enumerate''),
     (''zip'', rt ''iter'' ''zip''), (''take'', rt ''iter'' ''take''), (''drop'', rt ''iter'' ''drop''),
     (''slice'', rt ''iter'' ''slice''), (''flatten'', rt ''iter'' ''flatten''),
     (''str_replace'', rt ''str_ops'' ''str_replace''), (''str_repeat'', rt ''str_ops'' ''str_repeat''),
     (''str_to_upper'', rt ''str_ops'' ''str_to_upper''), (''str_to_lower'', rt ''str_ops'' ''str_to_lower''),
     (''str_pad_left'', rt ''str_ops'' ''str_pad_left''), (''str_pad_right'', rt ''str_ops'' ''str_pad_right''),
     (''option_none'', rt ''option'' ''option_none_fn''), (''option_some'', rt ''option'' ''option_some''),
     (''option_is_none'', rt ''option'' ''option_is_none''),
     (''option_is_some'', rt ''option'' ''option_is_some''), (''option_unwrap'', rt ''option'' ''option_unwrap''),
     (''__eq__'', rt ''arith'' ''value_eq''), (''io_print'', rt ''io'' ''io_print''),
     (''io_println'', rt ''io'' ''io_println''), (''io_eprint'', rt ''io'' ''io_eprint''),
     (''io_read_line'', rt ''io'' ''io_read_line''), (''fs_read_text'', rt ''io'' ''fs_read_text''),
     (''fs_write_text'', rt ''io'' ''fs_write_text''), (''fs_append_text'', rt ''io'' ''fs_append_text''),
     (''fs_append_text_durable'', rt ''io'' ''fs_append_text_durable''),
     (''fs_file_exists'', rt ''io'' ''fs_file_exists''), (''fs_list_dir'', rt ''io'' ''fs_list_dir''),
     (''debug_trace'', rt ''io'' ''debug_trace''), (''fs_read_last_line'', rt ''io'' ''fs_read_last_line''),
     (''tty_raw_on'', rt ''tty'' ''tty_raw_on''), (''tty_raw_off'', rt ''tty'' ''tty_raw_off''),
     (''tty_read_key'', rt ''tty'' ''tty_read_key''), (''tty_rows'', rt ''tty'' ''tty_rows''),
     (''tty_cols'', rt ''tty'' ''tty_cols''), (''pty_open'', rt ''pty'' ''pty_open''),
     (''pty_read'', rt ''pty'' ''pty_read''), (''pty_write'', rt ''pty'' ''pty_write''),
     (''pty_resize'', rt ''pty'' ''pty_resize''), (''pty_status'', rt ''pty'' ''pty_status''),
     (''pty_close'', rt ''pty'' ''pty_close''), (''sqlite_ro_tsv'', rt ''sqlite_ro'' ''sqlite_ro_tsv''),
     (''proc_args'', rt ''process'' ''proc_args''), (''proc_exit'', rt ''process'' ''proc_exit''),
     (''proc_sleep'', rt ''process'' ''proc_sleep''), (''proc_run'', rt ''process'' ''proc_run''),
     (''sleep'', rt ''process'' ''sleep''), (''now_unix_nanos'', rt ''process'' ''now_unix_nanos''),
     (''sys_mem_available'', rt ''process'' ''sys_mem_available''), (''proc_rss'', rt ''process'' ''proc_rss''),
     (''argv'', rt ''process'' ''argv''), (''argv_get'', rt ''process'' ''argv_get''),
     (''argv_int'', rt ''process'' ''argv_int''), (''argv_count'', rt ''process'' ''argv_count''),
     (''argv_or'', rt ''process'' ''argv_or''), (''event_subscribe'', rt ''channels'' ''event_subscribe''),
     (''channel_send'', rt ''channels'' ''channel_send''), (''wait'', rt ''channels'' ''wait''),
     (''spawn'', rt ''tasks'' ''spawn''), (''join'', rt ''tasks'' ''join''),
     (''int_to_dec'', rt ''coerce'' ''int_to_dec''), (''dec_id'', rt ''coerce'' ''dec_id''),
     (''float_to_dec'', rt ''coerce'' ''float_to_dec''), (''int_to_float'', rt ''coerce'' ''int_to_float''),
     (''dec_to_float'', rt ''coerce'' ''dec_to_float'')]"

definition symbol_rows_3 :: "(string \<times> string) list" where
  "symbol_rows_3 =
    [(''float_id'', rt ''coerce'' ''float_id''), (''bridge_to_dec'', rt ''coerce'' ''bridge_to_dec''),
     (''bridge_to_float'', rt ''coerce'' ''bridge_to_float''),
     (''ir_write_bundle'', rt ''ir_constructors'' ''ir_write_bundle''),
     (''ir_read_bundle'', rt ''ir_constructors'' ''ir_read_bundle''),
     (''ir_bundle_view'', rt ''ir_constructors'' ''ir_bundle_view''),
     (''content_hash'', rt ''hash'' ''content_hash''), (''hash256_parse'', rt ''hash'' ''hash256_parse''),
     (''text_to_bytes'', rt ''bytes_io'' ''text_to_bytes''),
     (''fs_write_bytes'', rt ''bytes_io'' ''fs_write_bytes''),
     (''fs_write_raw'', rt ''bytes_io'' ''fs_write_raw''),
     (''slab_append_raw'', rt ''slablock'' ''slab_append_raw''),
     (''fs_read_bytes'', rt ''bytes_io'' ''fs_read_bytes''), (''fs_read_range'', rt ''seek'' ''fs_read_range''),
     (''mmapseg_open'', rt ''mmapseg'' ''mmapseg_open''), (''mmapseg_append'', rt ''mmapseg'' ''mmapseg_append''),
     (''mmapseg_msync'', rt ''mmapseg'' ''mmapseg_msync''), (''mmapseg_read'', rt ''mmapseg'' ''mmapseg_read''),
     (''mmapseg_frontier'', rt ''mmapseg'' ''mmapseg_frontier''),
     (''mmapseg_flush_file'', rt ''mmapseg'' ''mmapseg_flush_file''),
     (''bindidx_put'', rt ''bindidx'' ''bindidx_put''), (''bindidx_get'', rt ''bindidx'' ''bindidx_get''),
     (''contentidx_put'', rt ''contentidx'' ''contentidx_put''),
     (''contentidx_get'', rt ''contentidx'' ''contentidx_get''), (''qhm_put'', rt ''qhm'' ''qhm_put''),
     (''qhm_get'', rt ''qhm'' ''qhm_get''), (''qhm_flush'', rt ''qhm'' ''qhm_flush''),
     (''qhm_stats'', rt ''qhm'' ''qhm_stats''), (''gcidx_get'', rt ''gcidx'' ''gcidx_get''),
     (''logbuf_open'', rt ''logbuf'' ''logbuf_open''), (''logbuf_append'', rt ''logbuf'' ''logbuf_append''),
     (''logbuf_sync'', rt ''logbuf'' ''logbuf_sync''), (''logbuf_flush'', rt ''logbuf'' ''logbuf_flush''),
     (''wal_fast_batch_write'', rt ''logbuf'' ''wal_fast_batch_write''),
     (''logbuf_read'', rt ''logbuf'' ''logbuf_read''), (''logbuf_len'', rt ''logbuf'' ''logbuf_len''),
     (''bytes_hash'', rt ''bytes_io'' ''bytes_hash''), (''fs_mkdir_p'', rt ''bytes_io'' ''fs_mkdir_p''),
     (''bytes_to_text'', rt ''bytes_io'' ''bytes_to_text''),
     (''bytes_is_utf8'', rt ''bytes_io'' ''bytes_is_utf8''), (''pg_bytes_put'', rt ''pg_store'' ''pg_bytes_put''),
     (''pg_bytes_get'', rt ''pg_store'' ''pg_bytes_get''),
     (''pg_obj_block_put'', rt ''pg_store'' ''pg_obj_block_put''),
     (''pg_log_append'', rt ''pg_store'' ''pg_log_append''), (''pg_log_scan'', rt ''pg_store'' ''pg_log_scan''),
     (''pg_anchor_get'', rt ''pg_store'' ''pg_anchor_get''),
     (''pg_anchor_set'', rt ''pg_store'' ''pg_anchor_set''),
     (''index_build_batch'', rt ''indexer'' ''index_build_batch''),
     (''idxseg_lookup'', rt ''indexer'' ''idxseg_lookup''),
     (''index_rebuild_dir'', rt ''indexer'' ''index_rebuild_dir''), (''hotblk_get'', rt ''hotblk'' ''hotblk_get''),
     (''hotblk_set'', rt ''hotblk'' ''hotblk_set''),
     (''hotblk_active_block'', rt ''hotblk'' ''hotblk_active_block''),
     (''hotblk_timer_interval_ms'', rt ''hotblk'' ''hotblk_timer_interval_ms''),
     (''hotwrite_batch_run'', rt ''hotwrite_batch'' ''hotwrite_batch_run''),
     (''hotwrite_batch_run_c'', rt ''hotwrite_batch'' ''hotwrite_batch_run_c''),
     (''hotwrite_batch_run_c_durable'', rt ''hotwrite_batch'' ''hotwrite_batch_run_c_durable''),
     (''block_flush_write'', rt ''block_flush'' ''block_flush_write''),
     (''slab_open'', rt ''slablock'' ''slab_open''), (''slab_append'', rt ''slablock'' ''slab_append''),
     (''slab_tick'', rt ''slablock'' ''slab_tick''), (''slab_seal'', rt ''slablock'' ''slab_seal''),
     (''slab_stats'', rt ''slablock'' ''slab_stats''), (''slab_sealed'', rt ''slablock'' ''slab_sealed''),
     (''slab_shadow_submit'', rt ''slabshadow'' ''slab_shadow_submit''),
     (''slab_shadow_flush_once'', rt ''slabshadow'' ''slab_shadow_flush_once''),
     (''ts_mark'', rt ''tsmark'' ''ts_mark''), (''ts_markp'', rt ''tsmark'' ''ts_markp''),
     (''ts_mark_val'', rt ''tsmark'' ''ts_mark_val''), (''ts_flush'', rt ''tsmark'' ''ts_flush''),
     (''channel_depth'', rt ''channels'' ''channel_depth''), (''hotmem_write'', rt ''hotmem'' ''hotmem_write''),
     (''hotmem_reader_start'', rt ''hotmem'' ''hotmem_reader_start''),
     (''hotmem_read'', rt ''hotmem'' ''hotmem_read''), (''hotmem_epoch'', rt ''hotmem'' ''hotmem_epoch''),
     (''hotmem_missed'', rt ''hotmem'' ''hotmem_missed''), (''fs_prealloc'', rt ''prealloc'' ''fs_prealloc''),
     (''wal_write_seg'', rt ''prealloc'' ''wal_write_seg''), (''walidx_open'', rt ''walindex'' ''walidx_open''),
     (''walidx_insert'', rt ''walindex'' ''walidx_insert''), (''walidx_has'', rt ''walindex'' ''walidx_has''),
     (''walidx_get'', rt ''walindex'' ''walidx_get''), (''walidx_snapshot'', rt ''walindex'' ''walidx_snapshot''),
     (''walidx_rebuild'', rt ''walindex'' ''walidx_rebuild''),
     (''walidx_replay'', rt ''walindex'' ''walidx_replay''),
     (''walidx_res_get'', rt ''walindex'' ''walidx_res_get''),
     (''walidx_res_scope'', rt ''walindex'' ''walidx_res_scope'')]"

definition symbol_rows_4 :: "(string \<times> string) list" where
  "symbol_rows_4 =
    [(''pkidx_open'', rt ''pkindex'' ''pkidx_open''), (''pkidx_has'', rt ''pkindex'' ''pkidx_has''),
     (''pkidx_get'', rt ''pkindex'' ''pkidx_get''), (''pkidx_rebuild'', rt ''pkindex'' ''pkidx_rebuild''),
     (''contradicts_open'', rt ''contradicts'' ''contradicts_open''),
     (''contradicts_rebuild'', rt ''contradicts'' ''contradicts_rebuild''),
     (''contradicts_has'', rt ''contradicts'' ''contradicts_has''),
     (''contradicts_any'', rt ''contradicts'' ''contradicts_any''),
     (''contradicts_warm'', rt ''contradicts'' ''contradicts_warm''),
     (''contradicts_any_warm'', rt ''contradicts'' ''contradicts_any_warm''),
     (''oneshot_new'', rt ''oneshot'' ''oneshot_new''), (''oneshot_wait'', rt ''oneshot'' ''oneshot_wait''),
     (''oneshot_signal'', rt ''oneshot'' ''oneshot_signal''),
     (''oneshot_wait_timeout'', rt ''oneshot'' ''oneshot_wait_timeout''),
     (''slice4_ack_timeout_ms'', rt ''slice4'' ''slice4_ack_timeout_ms''),
     (''ack_register'', rt ''ack_registry'' ''ack_register''),
     (''ack_signal_block'', rt ''ack_registry'' ''ack_signal_block''),
     (''hotblk_pool_put'', rt ''hotblk_pool'' ''hotblk_pool_put''),
     (''hotblk_pool_take'', rt ''hotblk_pool'' ''hotblk_pool_take''),
     (''bchan_send'', rt ''channels'' ''bchan_send''), (''bchan_drain'', rt ''channels'' ''bchan_drain''),
     (''bchan_take'', rt ''channels'' ''bchan_take''), (''bchan_len'', rt ''channels'' ''bchan_len''),
     (''reclog_submit'', rt ''reclog'' ''reclog_submit''),
     (''reclog_flush_once'', rt ''reclog'' ''reclog_flush_once''),
     (''wal_shard_set'', rt ''walshard'' ''wal_shard_set''),
     (''wal_shard_get'', rt ''walshard'' ''wal_shard_get''),
     (''wal_shard_count'', rt ''walshard'' ''wal_shard_count''), (''slice4_mode'', rt ''slice4'' ''slice4_mode''),
     (''memcpy_hotpath_mode'', rt ''rawblk'' ''memcpy_hotpath_mode''),
     (''memcpy_canon_mode'', rt ''rawblk'' ''memcpy_canon_mode''),
     (''rawblk_frame'', rt ''rawblk'' ''rawblk_frame''),
     (''rawblk_recover_open'', rt ''rawblk'' ''rawblk_recover_open''),
     (''rawblk_recover_rebuild'', rt ''rawblk'' ''rawblk_recover_rebuild''),
     (''rawblk_recover_stats'', rt ''rawblk'' ''rawblk_recover_stats''),
     (''rawblk_recover_dump_pk'', rt ''rawblk'' ''rawblk_recover_dump_pk''),
     (''rawblk_recover_dump_hashes'', rt ''rawblk'' ''rawblk_recover_dump_hashes''),
     (''hotblk_dir_guard'', rt ''rawblk'' ''hotblk_dir_guard''), (''derive_stat'', rt ''rawblk'' ''derive_stat''),
     (''derive_stat_flush'', rt ''rawblk'' ''derive_stat_flush''),
     (''pgb_parse_shape'', rt ''pgbshape'' ''pgb_parse_shape''),
     (''pgb_bind_capture'', rt ''pgbshape'' ''pgb_bind_capture''),
     (''pgb_payload'', rt ''pgbshape'' ''pgb_payload''), (''pgb_record'', rt ''pgbshape'' ''pgb_record''),
     (''hotblk_recover_open'', rt ''hotblk_recover'' ''hotblk_recover_open''),
     (''hotblk_recover_rebuild'', rt ''hotblk_recover'' ''hotblk_recover_rebuild''),
     (''hotblk_recover_pk_get'', rt ''hotblk_recover'' ''hotblk_recover_pk_get''),
     (''hotblk_recover_has_hash'', rt ''hotblk_recover'' ''hotblk_recover_has_hash''),
     (''hotblk_recover_stats'', rt ''hotblk_recover'' ''hotblk_recover_stats''),
     (''hotblk_recover_dump_pk'', rt ''hotblk_recover'' ''hotblk_recover_dump_pk''),
     (''hotblk_recover_dump_hashes'', rt ''hotblk_recover'' ''hotblk_recover_dump_hashes''),
     (''adj_build'', rt ''adjacency'' ''adj_build''), (''adj_get'', rt ''adjacency'' ''adj_get''),
     (''adj_stats'', rt ''adjacency'' ''adj_stats''), (''frame_stream'', rt ''enumeration'' ''frame_stream''),
     (''frame_stats'', rt ''enumeration'' ''frame_stats''), (''str_cmp'', rt ''str_ops'' ''str_cmp''),
     (''ord'', rt ''str_ops'' ''ord''), (''set_add'', rt ''scratch'' ''set_add''),
     (''set_has'', rt ''scratch'' ''set_has''), (''set_len'', rt ''scratch'' ''set_len''),
     (''set_clear'', rt ''scratch'' ''set_clear''), (''map_put'', rt ''scratch'' ''map_put''),
     (''map_get'', rt ''scratch'' ''map_get''), (''map_len'', rt ''scratch'' ''map_len''),
     (''map_clear'', rt ''scratch'' ''map_clear''), (''hmap_new'', rt ''hmap'' ''hmap_new''),
     (''hmap_put'', rt ''hmap'' ''hmap_put''), (''hmap_has'', rt ''hmap'' ''hmap_has''),
     (''hmap_get'', rt ''hmap'' ''hmap_get''), (''hmap_freeze'', rt ''hmap'' ''hmap_freeze''),
     (''hmap_hash'', rt ''hmap'' ''hmap_hash''), (''u32v_new'', rt ''u32v'' ''u32v_new''),
     (''u32v_push'', rt ''u32v'' ''u32v_push''), (''u32v_get'', rt ''u32v'' ''u32v_get''),
     (''u32v_len'', rt ''u32v'' ''u32v_len''), (''u32v_sort3'', rt ''u32v'' ''u32v_sort3''),
     (''fieldidx_open'', rt ''fieldidx'' ''fieldidx_open''),
     (''fieldidx_insert'', rt ''fieldidx'' ''fieldidx_insert''),
     (''fieldidx_get'', rt ''fieldidx'' ''fieldidx_get''),
     (''fieldidx_snapshot'', rt ''fieldidx'' ''fieldidx_snapshot''),
     (''fieldidx_rebuild'', rt ''fieldidx'' ''fieldidx_rebuild''),
     (''fieldidx_replay'', rt ''fieldidx'' ''fieldidx_replay''),
     (''fieldidx_res_get'', rt ''fieldidx'' ''fieldidx_res_get''),
     (''fieldidx_res_scope'', rt ''fieldidx'' ''fieldidx_res_scope''),
     (''cursor_open'', rt ''cursor'' ''cursor_open''), (''cursor_append'', rt ''cursor'' ''cursor_append''),
     (''cursor_get'', rt ''cursor'' ''cursor_get''), (''cursor_len'', rt ''cursor'' ''cursor_len''),
     (''cursor_close'', rt ''cursor'' ''cursor_close''),
     (''groupby_cursor_enabled'', rt ''cursor'' ''groupby_cursor_enabled''),
     (''cursor_load'', rt ''cursor'' ''cursor_load''), (''cursor_line'', rt ''cursor'' ''cursor_line'')]"

definition symbol_rows_5 :: "(string \<times> string) list" where
  "symbol_rows_5 =
    [(''cursor_sort'', rt ''cursor'' ''cursor_sort''), (''nameptr_set'', rt ''nameptr'' ''nameptr_set''),
     (''nameptr_get'', rt ''nameptr'' ''nameptr_get''), (''chunk_file'', rt ''chunk'' ''chunk_file''),
     (''bytes_concat'', rt ''bytes_codec'' ''bytes_concat''), (''bytes_len'', rt ''bytes_codec'' ''bytes_len''),
     (''bytes_slice'', rt ''bytes_codec'' ''bytes_slice''), (''bytes_get'', rt ''bytes_codec'' ''bytes_get''),
     (''bytes_push'', rt ''bytes_codec'' ''bytes_push''),
     (''bytes_push_u32le'', rt ''bytes_codec'' ''bytes_push_u32le''),
     (''bytes_push_f32le'', rt ''bytes_codec'' ''bytes_push_f32le''),
     (''bytes_get_u32le'', rt ''bytes_codec'' ''bytes_get_u32le''),
     (''bytes_get_f32le'', rt ''bytes_codec'' ''bytes_get_f32le''),
     (''int16_be_encode'', rt ''bytes_codec'' ''int16_be_encode''),
     (''int32_be_encode'', rt ''bytes_codec'' ''int32_be_encode''), (''tcp_listen'', rt ''net'' ''tcp_listen''),
     (''tcp_listen_shared'', rt ''net'' ''tcp_listen_shared''), (''tcp_connect'', rt ''net'' ''tcp_connect''),
     (''tcp_accept'', rt ''net'' ''tcp_accept''), (''tcp_read'', rt ''net'' ''tcp_read''),
     (''tcp_set_read_timeout'', rt ''net'' ''tcp_set_read_timeout''), (''tcp_write'', rt ''net'' ''tcp_write''),
     (''tcp_close'', rt ''net'' ''tcp_close''), (''pg_emit_datarow1'', rt ''net'' ''pg_emit_datarow1''),
     (''pg_stream_rows'', rt ''net'' ''pg_stream_rows''),
     (''slab_to_wire_enabled'', rt ''net'' ''slab_to_wire_enabled''), (''fbank_new'', rt ''fbank'' ''fbank_new''),
     (''fbank_put'', rt ''fbank'' ''fbank_put''), (''fbank_holds'', rt ''fbank'' ''fbank_holds''),
     (''fbank_get'', rt ''fbank'' ''fbank_get''), (''fbank_ordinal'', rt ''fbank'' ''fbank_ordinal''),
     (''fbank_len'', rt ''fbank'' ''fbank_len''), (''fbank_used'', rt ''fbank'' ''fbank_used''),
     (''fbank_find'', rt ''fbank'' ''fbank_find''), (''fbank_intern_list'', rt ''fbank'' ''fbank_intern_list''),
     (''fbank_get_list'', rt ''fbank'' ''fbank_get_list''), (''fbank_pack'', rt ''fbank'' ''fbank_pack''),
     (''cell_new_raw'', rt ''rawmem'' ''cell_new_raw''), (''cell_load_raw'', rt ''rawmem'' ''cell_load_raw''),
     (''cell_cas_raw'', rt ''rawmem'' ''cell_cas_raw''), (''mem_reserve_raw'', rt ''rawmem'' ''mem_reserve_raw''),
     (''mem_write_raw'', rt ''rawmem'' ''mem_write_raw''), (''mem_read_raw'', rt ''rawmem'' ''mem_read_raw''),
     (''mem_free_raw'', rt ''rawmem'' ''mem_free_raw''), (''mem_copy_raw'', rt ''rawmem'' ''mem_copy_raw''),
     (''mem_write_int_raw'', rt ''rawmem'' ''mem_write_int_raw''),
     (''mem_read_int_raw'', rt ''rawmem'' ''mem_read_int_raw''), (''int_list_nil'', rt ''list'' ''list_nil''),
     (''text_list_nil'', rt ''list'' ''list_nil''), (''bool_list_nil'', rt ''list'' ''list_nil''),
     (''int_list_cons'', rt ''list'' ''list_cons''), (''text_list_cons'', rt ''list'' ''list_cons''),
     (''bool_list_cons'', rt ''list'' ''list_cons''), (''int_list_head'', rt ''list'' ''list_head''),
     (''text_list_head'', rt ''list'' ''list_head''), (''bool_list_head'', rt ''list'' ''list_head''),
     (''int_list_tail'', rt ''list'' ''list_tail''), (''text_list_tail'', rt ''list'' ''list_tail''),
     (''bool_list_tail'', rt ''list'' ''list_tail''), (''int_list_len'', rt ''list'' ''list_len''),
     (''bool_list_len'', rt ''list'' ''list_len''), (''int_list_is_empty'', rt ''list'' ''list_is_empty''),
     (''bool_list_is_empty'', rt ''list'' ''list_is_empty''), (''int_list_filter'', rt ''iter'' ''filter''),
     (''text_list_filter'', rt ''iter'' ''filter''), (''bool_list_filter'', rt ''iter'' ''filter''),
     (''int_list_fold_int'', rt ''iter'' ''fold''), (''int_list_fold_text'', rt ''iter'' ''fold''),
     (''int_list_fold_bool'', rt ''iter'' ''fold''), (''text_list_fold_int'', rt ''iter'' ''fold''),
     (''text_list_fold_text'', rt ''iter'' ''fold''), (''text_list_fold_bool'', rt ''iter'' ''fold''),
     (''bool_list_fold_int'', rt ''iter'' ''fold''), (''bool_list_fold_text'', rt ''iter'' ''fold''),
     (''bool_list_fold_bool'', rt ''iter'' ''fold''), (''int_list_map_int'', rt ''iter'' ''map''),
     (''int_list_map_text'', rt ''iter'' ''map''), (''int_list_map_bool'', rt ''iter'' ''map''),
     (''text_list_map_int'', rt ''iter'' ''map''), (''text_list_map_text'', rt ''iter'' ''map''),
     (''text_list_map2_text'', rt ''iter'' ''map2''), (''text_list_map3_text'', rt ''iter'' ''map3''),
     (''text_list_map_bool'', rt ''iter'' ''map''), (''bool_list_map_int'', rt ''iter'' ''map''),
     (''bool_list_map_text'', rt ''iter'' ''map''), (''bool_list_map_bool'', rt ''iter'' ''map''),
     (''value_list_to_int_list'', rt ''list'' ''value_list_to_int_list''),
     (''value_list_to_text_list'', rt ''list'' ''value_list_to_text_list''),
     (''value_list_to_bool_list'', rt ''list'' ''value_list_to_bool_list''),
     (''text_list_to_value_list'', rt ''list'' ''text_list_to_value_list''),
     (''int_list_to_value_list'', rt ''list'' ''int_list_to_value_list''),
     (''bool_list_to_value_list'', rt ''list'' ''bool_list_to_value_list''),
     (''float_list_nil'', rt ''list'' ''list_nil''), (''float_list_cons'', rt ''list'' ''list_cons''),
     (''float_list_head'', rt ''list'' ''list_head''), (''float_list_tail'', rt ''list'' ''list_tail''),
     (''float_list_len'', rt ''list'' ''list_len''), (''float_list_is_empty'', rt ''list'' ''list_is_empty''),
     (''float_list_nth'', rt ''list'' ''float_list_nth''), (''float_list_sum'', rt ''list'' ''float_list_sum''),
     (''float_list_filter'', rt ''iter'' ''filter''), (''float_list_fold_float'', rt ''iter'' ''fold''),
     (''float_list_fold_int'', rt ''iter'' ''fold''), (''float_list_fold_text'', rt ''iter'' ''fold''),
     (''float_list_fold_bool'', rt ''iter'' ''fold''), (''float_list_map_float'', rt ''iter'' ''map''),
     (''float_list_map_int'', rt ''iter'' ''map''), (''float_list_map_text'', rt ''iter'' ''map''),
     (''float_list_map_bool'', rt ''iter'' ''map''),
     (''value_list_to_float_list'', rt ''list'' ''value_list_to_float_list''),
     (''float_list_to_value_list'', rt ''list'' ''float_list_to_value_list''),
     (''value_to_float_list'', rt ''list'' ''value_to_float_list''), (''text_list_map_float'', rt ''iter'' ''map'')]"

definition symbol_rows_6 :: "(string \<times> string) list" where
  "symbol_rows_6 =
    [(''value_to_int'', rt ''list'' ''value_to_int''), (''value_to_text'', rt ''list'' ''value_to_text''),
     (''value_to_bytes'', rt ''list'' ''value_to_bytes''),
     (''value_to_text_list'', rt ''list'' ''value_to_text_list''),
     (''value_to_int_list'', rt ''list'' ''value_to_int_list''),
     (''text_list_pack'', rt ''list'' ''text_list_pack''),
     (''text_list_unpack'', rt ''list'' ''text_list_unpack''), (''value_to_bool'', rt ''list'' ''value_to_bool'')]"

definition symbol_rows :: "(string \<times> string) list" where
  "symbol_rows = symbol_rows_1 @ symbol_rows_2 @ symbol_rows_3 @ symbol_rows_4 @ symbol_rows_5 @ symbol_rows_6"

section \<open>Argument kinds and native argument types\<close>

datatype arg_kind = Data | FnRef

datatype native_arg_type = NInt | NText | NBytes | NBool | NValue

definition arg_kind_rows_1 :: "(string \<times> arg_kind list) list" where
  "arg_kind_rows_1 =
    [(''foreach'', [Data, FnRef]), (''flat_map'', [Data, FnRef]), (''filter'', [Data, FnRef]),
     (''map'', [Data, FnRef]), (''any'', [Data, FnRef]), (''all'', [Data, FnRef]), (''find_index'', [Data, FnRef]),
     (''count'', [Data, FnRef]), (''loop_count'', [Data, Data, FnRef]),
     (''loop_while'', [Data, FnRef, FnRef, Data]), (''fold'', [Data, Data, FnRef]),
     (''bridge_to_dec'', [Data, FnRef, FnRef, FnRef]), (''bridge_to_float'', [Data, FnRef, FnRef, FnRef]),
     (''wait'', [FnRef]), (''spawn'', [FnRef, Data]), (''int_list_filter'', [Data, FnRef]),
     (''text_list_filter'', [Data, FnRef]), (''bool_list_filter'', [Data, FnRef]),
     (''int_list_fold_int'', [Data, Data, FnRef]), (''int_list_fold_text'', [Data, Data, FnRef]),
     (''int_list_fold_bool'', [Data, Data, FnRef]), (''text_list_fold_int'', [Data, Data, FnRef]),
     (''text_list_fold_text'', [Data, Data, FnRef]), (''text_list_fold_bool'', [Data, Data, FnRef]),
     (''bool_list_fold_int'', [Data, Data, FnRef]), (''bool_list_fold_text'', [Data, Data, FnRef]),
     (''bool_list_fold_bool'', [Data, Data, FnRef]), (''int_list_map_int'', [Data, FnRef]),
     (''int_list_map_text'', [Data, FnRef]), (''int_list_map_bool'', [Data, FnRef]),
     (''text_list_map_int'', [Data, FnRef]), (''text_list_map_text'', [Data, FnRef]),
     (''text_list_map2_text'', [Data, Data, FnRef]), (''text_list_map3_text'', [Data, Data, Data, FnRef]),
     (''text_list_map_bool'', [Data, FnRef]), (''bool_list_map_int'', [Data, FnRef]),
     (''bool_list_map_text'', [Data, FnRef]), (''bool_list_map_bool'', [Data, FnRef]),
     (''float_list_filter'', [Data, FnRef]), (''float_list_map_float'', [Data, FnRef]),
     (''float_list_map_int'', [Data, FnRef]), (''float_list_map_text'', [Data, FnRef]),
     (''float_list_map_bool'', [Data, FnRef]), (''float_list_fold_float'', [Data, Data, FnRef]),
     (''float_list_fold_int'', [Data, Data, FnRef]), (''float_list_fold_text'', [Data, Data, FnRef]),
     (''float_list_fold_bool'', [Data, Data, FnRef]), (''text_list_map_float'', [Data, FnRef])]"

definition arg_kind_rows :: "(string \<times> arg_kind list) list" where
  "arg_kind_rows = arg_kind_rows_1"

definition native_rows_1 :: "(string \<times> native_arg_type list) list" where
  "native_rows_1 =
    [(''mem_copy_raw'', [NInt, NInt, NInt, NInt, NInt]), (''mem_write_int_raw'', [NInt, NInt, NInt]),
     (''mem_read_int_raw'', [NInt, NInt]), (''fs_write_raw'', [NText, NInt, NInt, NInt]),
     (''slab_append_raw'', [NInt, NInt, NInt, NInt]), (''argv_get'', [NInt]), (''bytes_len'', [NBytes]),
     (''fs_mkdir_p'', [NText]), (''fs_read_bytes'', [NText]), (''str_to_int'', [NText]), (''str_to_dec'', [NText]),
     (''str_to_float'', [NText]), (''int_to_str'', [NInt]), (''str_concat'', [NText, NText]),
     (''int_add'', [NInt, NInt]), (''int_sub'', [NInt, NInt]), (''int_mul'', [NInt, NInt]),
     (''int_shl'', [NInt, NInt]), (''int_shr'', [NInt, NInt]), (''int_bit_and'', [NInt, NInt]),
     (''int_bit_or'', [NInt, NInt]), (''int_bit_xor'', [NInt, NInt]), (''int_bit_not'', [NInt]),
     (''int_lt'', [NInt, NInt]), (''fbank_new'', [NInt, NInt]), (''fbank_put'', [NInt, NInt, NText]),
     (''fbank_holds'', [NInt, NInt]), (''fbank_get'', [NInt, NInt]), (''fbank_ordinal'', [NInt, NInt]),
     (''fbank_len'', [NInt]), (''fbank_used'', [NInt]), (''fbank_find'', [NInt, NText]),
     (''fbank_intern_list'', [NInt, NValue]), (''fbank_get_list'', [NInt, NValue]),
     (''fbank_pack'', [NInt, NInt, NInt]), (''cell_new_raw'', [NInt]), (''cell_cas_raw'', [NInt, NInt, NInt]),
     (''mem_reserve_raw'', [NInt]), (''mem_write_raw'', [NInt, NInt, NBytes]), (''bchan_send'', [NText, NValue]),
     (''bchan_take'', [NText]), (''tuple_field'', [NValue, NInt]), (''list_get'', [NValue, NInt]),
     (''float_list_nth'', [NValue, NInt]), (''list_append'', [NValue, NValue]),
     (''value_list_push'', [NValue, NValue]), (''list_set'', [NValue, NInt, NValue]),
     (''list_insert'', [NValue, NInt, NValue]), (''list_remove'', [NValue, NInt]), (''list_drop_last'', [NValue]),
     (''list_of_2'', [NValue, NValue]), (''list_of_3'', [NValue, NValue, NValue]),
     (''loop_count'', [NInt, NValue, NValue]), (''str_len'', [NText]), (''fail'', [NText]),
     (''str_char_at'', [NText, NInt]), (''str_char'', [NText, NInt]), (''str_char_code'', [NText, NInt]),
     (''str_slice'', [NText, NInt, NInt]), (''str_split'', [NText, NText]), (''text_list_unpack'', [NText]),
     (''str_starts_with'', [NText, NText]), (''str_ends_with'', [NText, NText]), (''str_trim'', [NText]),
     (''str_contains'', [NText, NText]), (''str_eq'', [NText, NText]), (''text_eq'', [NText, NText]),
     (''text_lt'', [NText, NText]), (''text_lte'', [NText, NText]), (''text_gt'', [NText, NText]),
     (''text_gte'', [NText, NText]), (''str_lt'', [NText, NText]), (''str_lte'', [NText, NText]),
     (''str_gt'', [NText, NText]), (''str_gte'', [NText, NText]), (''str_index_of'', [NText, NText]),
     (''str_find_from'', [NText, NText, NInt]), (''str_starts_with_at'', [NText, NText, NInt]),
     (''str_before'', [NText, NText]), (''str_after'', [NText, NText]), (''str_between'', [NText, NText, NText]),
     (''bool_to_str'', [NBool]), (''chr'', [NInt]), (''str_cmp'', [NText, NText]), (''ord'', [NText]),
     (''str_join'', [NValue, NText]), (''str_replace'', [NText, NText, NText]), (''str_repeat'', [NText, NInt]),
     (''str_to_upper'', [NText]), (''str_to_lower'', [NText]), (''str_pad_left'', [NText, NInt, NText]),
     (''str_pad_right'', [NText, NInt, NText]), (''list_cons'', [NValue, NValue]),
     (''list_get_at'', [NValue, NInt]), (''list_concat'', [NValue, NValue]),
     (''list_str_len_lte_if_some'', [NValue, NInt, NInt]), (''list_get_println_if_some'', [NValue, NInt]),
     (''ctor_field'', [NValue, NInt]), (''int_div'', [NInt, NInt]), (''int_div_checked'', [NInt, NInt]),
     (''int_mod'', [NInt, NInt]), (''value_eq'', [NValue, NValue]), (''__eq__'', [NValue, NValue]),
     (''int_abs'', [NInt]), (''int_min'', [NInt, NInt]), (''int_max'', [NInt, NInt]),
     (''int_clamp'', [NInt, NInt, NInt]), (''celsius_to_fahrenheit'', [NInt]), (''fahrenheit_to_celsius'', [NInt]),
     (''is_positive'', [NInt]), (''int_eq'', [NInt, NInt]), (''int_lte'', [NInt, NInt]),
     (''int_gt'', [NInt, NInt]), (''int_gte'', [NInt, NInt]), (''seq'', [NValue, NValue]),
     (''bool_and'', [NValue, NValue]), (''bool_or'', [NValue, NValue]), (''hash256_parse'', [NText]),
     (''bytes_concat'', [NBytes, NBytes]), (''bytes_slice'', [NBytes, NInt, NInt]),
     (''bytes_get'', [NBytes, NInt]), (''bytes_push'', [NBytes, NInt]), (''bytes_push_u32le'', [NBytes, NInt]),
     (''bytes_push_f32le'', [NBytes, NValue]), (''bytes_get_u32le'', [NBytes, NInt]),
     (''bytes_get_f32le'', [NBytes, NInt]), (''int16_be_encode'', [NInt]), (''int32_be_encode'', [NInt])]"

definition native_rows_2 :: "(string \<times> native_arg_type list) list" where
  "native_rows_2 =
    [(''text_to_bytes'', [NText]), (''fs_write_bytes'', [NText, NBytes]), (''bytes_hash'', [NBytes]),
     (''bytes_to_text'', [NBytes]), (''proc_sleep'', [NInt]), (''proc_run'', [NText, NValue]),
     (''bytes_is_utf8'', [NBytes]), (''sleep'', [NInt]), (''channel_send'', [NText, NValue]),
     (''channel_depth'', [NText]), (''event_subscribe'', [NText]), (''bchan_len'', [NText]),
     (''bchan_drain'', [NText, NInt, NInt]), (''ir_write_bundle'', [NValue, NText]), (''ir_read_bundle'', [NText]),
     (''fs_read_text'', [NText]), (''fs_read_last_line'', [NText]), (''fs_write_text'', [NText, NText]),
     (''fs_append_text'', [NText, NText]), (''fs_append_text_durable'', [NText, NText]),
     (''fs_file_exists'', [NText]), (''fs_list_dir'', [NText]), (''pg_emit_datarow1'', [NInt, NText]),
     (''pg_stream_rows'', [NInt, NText]), (''tcp_listen'', [NInt]), (''tcp_listen_shared'', [NInt]),
     (''tcp_connect'', [NText, NInt]), (''tcp_accept'', [NInt]), (''tcp_set_read_timeout'', [NInt, NInt]),
     (''tcp_read'', [NInt]), (''tcp_write'', [NInt, NBytes]), (''tcp_close'', [NInt]),
     (''pty_open'', [NText, NValue, NInt, NInt]), (''pty_read'', [NInt, NInt]), (''pty_write'', [NInt, NBytes]),
     (''pty_resize'', [NInt, NInt, NInt]), (''pty_status'', [NInt]), (''pty_close'', [NInt]),
     (''tty_raw_on'', [NInt]), (''cursor_append'', [NInt, NText]), (''cursor_get'', [NInt]),
     (''cursor_len'', [NInt]), (''cursor_close'', [NInt]), (''cursor_load'', [NText]),
     (''cursor_line'', [NInt, NInt]), (''cursor_sort'', [NText, NText]), (''set_add'', [NText, NText]),
     (''set_has'', [NText, NText]), (''set_len'', [NText]), (''set_clear'', [NText]), (''hmap_new'', [NValue]),
     (''hmap_put'', [NValue, NText, NText]), (''hmap_has'', [NValue, NText]), (''hmap_get'', [NValue, NText]),
     (''hmap_freeze'', [NValue]), (''hmap_hash'', [NValue]), (''map_put'', [NText, NText, NText]),
     (''map_get'', [NText, NText]), (''map_len'', [NText]), (''map_clear'', [NText]), (''u32v_new'', [NText]),
     (''u32v_push'', [NText, NInt]), (''u32v_get'', [NText, NInt]), (''u32v_len'', [NText]),
     (''u32v_sort3'', [NText, NInt, NInt, NInt]), (''contradicts_open'', [NText]),
     (''contradicts_rebuild'', [NInt, NText]), (''contradicts_has'', [NInt, NText, NText]),
     (''contradicts_any'', [NInt, NText]), (''contradicts_warm'', [NText]), (''contradicts_any_warm'', [NText]),
     (''hotmem_read'', [NInt]), (''qhm_put'', [NText, NBytes]), (''qhm_get'', [NText]), (''pkidx_open'', [NText]),
     (''pkidx_has'', [NInt, NText]), (''pkidx_get'', [NInt, NText]), (''pkidx_rebuild'', [NInt, NText]),
     (''pgb_parse_shape'', [NText]), (''pgb_bind_capture'', [NBytes]), (''pgb_record'', [NBytes]),
     (''oneshot_wait'', [NInt]), (''oneshot_wait_timeout'', [NInt, NInt]), (''oneshot_signal'', [NInt]),
     (''wal_shard_set'', [NText]), (''cell_load_raw'', [NInt]), (''mem_read_raw'', [NInt, NInt, NInt]),
     (''mem_free_raw'', [NInt, NInt]), (''walidx_open'', [NText]),
     (''walidx_insert'', [NInt, NText, NInt, NInt, NInt]), (''walidx_has'', [NInt, NText]),
     (''walidx_get'', [NInt, NText]), (''walidx_snapshot'', [NInt, NText]),
     (''walidx_rebuild'', [NInt, NText, NText]), (''walidx_replay'', [NInt, NText]),
     (''walidx_res_get'', [NText, NText, NText, NText]), (''walidx_res_scope'', [NText]),
     (''fieldidx_open'', [NText]), (''fieldidx_insert'', [NInt, NText, NText, NText]),
     (''fieldidx_get'', [NInt, NText, NText]), (''fieldidx_snapshot'', [NInt, NText]),
     (''fieldidx_rebuild'', [NInt, NText, NText]), (''fieldidx_replay'', [NInt, NText]),
     (''fieldidx_res_get'', [NText, NText, NText, NText, NText]), (''fieldidx_res_scope'', [NText]),
     (''logbuf_open'', [NText]), (''logbuf_append'', [NInt, NBytes]), (''logbuf_sync'', [NInt]),
     (''logbuf_flush'', [NInt]), (''logbuf_read'', [NInt, NInt, NInt]), (''logbuf_len'', [NInt]),
     (''slab_open'', [NText, NInt, NInt]), (''slab_append'', [NInt, NBytes]), (''slab_tick'', [NInt]),
     (''slab_seal'', [NInt]), (''slab_stats'', [NInt]), (''slab_sealed'', [NInt]),
     (''mmapseg_open'', [NText, NInt]), (''mmapseg_append'', [NInt, NBytes]), (''mmapseg_read'', [NInt, NInt]),
     (''mmapseg_msync'', [NInt]), (''mmapseg_frontier'', [NInt]), (''mmapseg_flush_file'', [NText]),
     (''idxseg_lookup'', [NText, NInt]), (''index_rebuild_dir'', [NText]),
     (''hotwrite_batch_run'', [NInt, NInt, NInt]), (''hotwrite_batch_run_c_durable'', [NText, NInt, NInt, NInt]),
     (''hotwrite_batch_run_c'', [NInt, NInt, NInt]), (''adj_build'', [NText]), (''adj_get'', [NText, NText]),
     (''slab_shadow_submit'', [NBytes, NText]), (''reclog_submit'', [NBytes, NText, NBytes]),
     (''fs_prealloc'', [NText, NInt]), (''wal_write_seg'', [NText, NInt]), (''nameptr_set'', [NText, NText]),
     (''nameptr_get'', [NText]), (''frame_stream'', [NText]), (''contentidx_put'', [NText, NBytes]),
     (''contentidx_get'', [NText])]"

definition native_rows_3 :: "(string \<times> native_arg_type list) list" where
  "native_rows_3 =
    [(''bindidx_put'', [NText, NText]), (''bindidx_get'', [NText]), (''ack_register'', [NText, NInt]),
     (''ack_signal_block'', [NText, NInt]), (''sqlite_ro_tsv'', [NText, NText, NText]),
     (''fs_read_range'', [NText, NInt, NInt]), (''gcidx_get'', [NText]), (''chunk_file'', [NText]),
     (''hotblk_recover_open'', [NText]), (''hotblk_recover_rebuild'', [NInt]),
     (''hotblk_recover_pk_get'', [NInt, NText]), (''hotblk_recover_has_hash'', [NInt, NText]),
     (''hotblk_recover_dump_pk'', [NInt]), (''hotblk_recover_dump_hashes'', [NInt]),
     (''hotblk_recover_stats'', [NInt]), (''hotblk_pool_put'', [NText, NInt, NInt]),
     (''hotblk_pool_take'', [NText]), (''hotblk_get'', [NInt]), (''hotblk_set'', [NInt, NInt]),
     (''pg_bytes_put'', [NText, NBytes]), (''pg_bytes_get'', [NText]), (''pg_obj_block_put'', [NBytes, NText]),
     (''pg_log_append'', [NText]), (''pg_anchor_set'', [NText]), (''hotblk_dir_guard'', [NText]),
     (''rawblk_recover_open'', [NText]), (''rawblk_recover_rebuild'', [NInt]), (''rawblk_recover_stats'', [NInt]),
     (''rawblk_recover_dump_pk'', [NInt]), (''rawblk_recover_dump_hashes'', [NInt]),
     (''int_list_cons'', [NValue, NValue]), (''text_list_cons'', [NValue, NValue]),
     (''bool_list_cons'', [NValue, NValue]), (''float_list_cons'', [NValue, NValue])]"

definition native_rows :: "(string \<times> native_arg_type list) list" where
  "native_rows = native_rows_1 @ native_rows_2 @ native_rows_3"

section \<open>Looking builtins up\<close>

definition table :: "(string \<times> 'v) list \<Rightarrow> rstring \<Rightarrow> 'v option" where
  "table rows n = map_of (rev (map (\<lambda>(m, v). (lit m, v)) rows)) n"

definition symbol_map :: "rstring \<Rightarrow> rstring option" where
  "symbol_map n = map_option lit (table symbol_rows n)"

definition fn_arg_kinds :: "rstring \<Rightarrow> arg_kind list option" where
  "fn_arg_kinds n = table arg_kind_rows n"

definition native_call_fn_arg_types :: "rstring \<Rightarrow> native_arg_type list option" where
  "native_call_fn_arg_types n = table native_rows n"

fun accessor :: "native_arg_type \<Rightarrow> rstring" where
  "accessor NInt = lit ''as_int''"
| "accessor NText = lit ''as_text''"
| "accessor NBytes = lit ''as_bytes''"
| "accessor NBool = lit ''as_bool''"
| "accessor NValue = lit ''clone''"

text \<open>
  A builtin's identity is the hash of its name. Where two names had the same hash the source's map would keep
  either of them; here it is the first.
\<close>

definition bridge_builtin_map :: "(bytes \<Rightarrow> hash256) \<Rightarrow> hash256 \<Rightarrow> rstring option" where
  "bridge_builtin_map sha idn = map_option (\<lambda>r. lit (snd r)) (find (\<lambda>r. sha (lit (fst r)) = idn) symbol_rows)"

text \<open>\<open>path.rsplit("::").next()\<close>: what follows the last double colon.\<close>

fun after_last_colons :: "rstring \<Rightarrow> rstring option" where
  "after_last_colons (a # b # r) =
     (case after_last_colons (b # r) of
        Some x \<Rightarrow> Some x
      | None \<Rightarrow> if a = 0x3a \<and> b = 0x3a then Some r else None)"
| "after_last_colons r = None"

definition last_segment :: "rstring \<Rightarrow> rstring" where
  "last_segment p = (case after_last_colons p of Some r \<Rightarrow> r | None \<Rightarrow> p)"

section \<open>The dispatch overlay\<close>

text \<open>The rows that \<open>--dispatch\<close> files add to the three tables for one build.\<close>

record dispatch_overlay =
  ov_symbols :: "(rstring \<times> rstring) list"
  ov_arg_kinds :: "(rstring \<times> arg_kind list) list"
  ov_native_args :: "(rstring \<times> native_arg_type list) list"

definition bridge_builtin_map_with_overlay :: "(bytes \<Rightarrow> hash256) \<Rightarrow> dispatch_overlay \<Rightarrow> hash256 \<Rightarrow> rstring option" where
  "bridge_builtin_map_with_overlay sha ov idn =
     (case find (\<lambda>r. sha (fst r) = idn) (ov_symbols ov) of
        Some r \<Rightarrow> Some (snd r)
      | None \<Rightarrow> bridge_builtin_map sha idn)"

definition symbol_map_with_overlay :: "dispatch_overlay \<Rightarrow> rstring \<Rightarrow> rstring option" where
  "symbol_map_with_overlay ov n =
     (case map_of (ov_symbols ov) n of Some p \<Rightarrow> Some p | None \<Rightarrow> symbol_map n)"

definition fn_arg_kinds_with_overlay :: "dispatch_overlay \<Rightarrow> rstring \<Rightarrow> arg_kind list option" where
  "fn_arg_kinds_with_overlay ov n =
     (case map_of (ov_arg_kinds ov) n of Some ks \<Rightarrow> Some ks | None \<Rightarrow> fn_arg_kinds n)"

definition native_call_fn_arg_types_with_overlay :: "dispatch_overlay \<Rightarrow> rstring \<Rightarrow> native_arg_type list option" where
  "native_call_fn_arg_types_with_overlay ov n =
     (case map_of (ov_native_args ov) n of Some ts \<Rightarrow> Some ts | None \<Rightarrow> native_call_fn_arg_types n)"

section \<open>Literals and segments\<close>

lemma table_map_of: "distinct (map fst rows) \<Longrightarrow> table rows (lit n) = map_of rows n"
proof -
  assume d: "distinct (map fst rows)"
  have "map_of (map (\<lambda>(m, v). (lit m, v)) rows) (lit n) = map_of rows n"
    by (induction rows) (auto simp: lit_inject)
  moreover have "distinct (map fst (map (\<lambda>(m, v). (lit m, v)) rows))"
    using d by (induction rows) (auto simp: lit_inject image_iff)
  then have "map_of (rev (map (\<lambda>(m, v). (lit m, v)) rows)) = map_of (map (\<lambda>(m, v). (lit m, v)) rows)"
    by (subst map_of_inject_set) (simp_all add: rev_map [symmetric] del: map_map)
  ultimately show ?thesis by (simp add: table_def)
qed

lemma after_last_colons_none: "0x3a \<notin> set f \<Longrightarrow> after_last_colons f = None"
  by (induction f rule: after_last_colons.induct) auto

lemma after_last_colons_append:
  assumes "0x3a \<notin> set f"
  shows "after_last_colons (xs @ 0x3a # 0x3a # f) = Some f"
proof (induction xs)
  case Nil
  have "after_last_colons (0x3a # f) = None"
    using assms by (cases f) (auto simp: after_last_colons_none)
  then show ?case by simp
next
  case (Cons x xs)
  then show ?case by (cases xs) simp_all
qed

lemma last_segment_rt: "CHR '':'' \<notin> set f \<Longrightarrow> last_segment (lit (rt m f)) = lit f"
proof -
  assume "CHR '':'' \<notin> set f"
  then have "of_char CHR '':'' \<notin> set (lit f)"
    by (auto simp only: lit_def of_char_u8_inject set_map image_iff)
  then have "0x3a \<notin> set (lit f)" by (simp add: of_char_def)
  moreover have "lit (rt m f) = lit (''axis_codegen_bridge::runtime::'' @ m) @ 0x3a # 0x3a # lit f"
    by (simp add: lit_def rt_def of_char_def)
  ultimately show ?thesis by (simp add: last_segment_def after_last_colons_append)
qed

end
