(* ===== verification/NameKey.thy ===== *)
theory NameKey
  imports Main
begin

text \<open>
  How the builtin tables are evaluated: a binary trie over a sixteen-bit key of a name, so that looking a
  name up in a table of several hundred rows is sixteen steps and one comparison. The theory shows that a
  table whose rows reach distinct keys has distinct names and that searching its trie is searching the
  table. Keys and tries are a device of the evaluation: no property mentions them. Every test has a function of its
  own (\<open>add_row\<close>, \<open>same_name\<close>, \<open>within_step\<close>) whose equations fire once the test is decided.
\<close>

section \<open>Keys and tries\<close>

fun bxor :: "bool \<Rightarrow> bool \<Rightarrow> bool" where
  "bxor True True = False"
| "bxor True False = True"
| "bxor False True = True"
| "bxor False False = False"

text \<open>One round of the mix: rotate by six, then fold the character's bits in.\<close>

fun name_mix :: "string \<Rightarrow> bool list \<Rightarrow> bool list" where
  "name_mix (Char a b c d e f g h # s) [s0, s1, s2, s3, s4, s5, s6, s7, s8, s9, s10, s11, s12, s13, s14, s15] =
     name_mix s [bxor s6 a, bxor s7 b, bxor s8 c, bxor s9 d, bxor s10 e, bxor s11 f, bxor s12 g, bxor s13 h,
       s14, s15, s0, s1, s2, s3, s4, s5]"
| "name_mix [] st = st"
| "name_mix s st = st"

definition name_key :: "string \<Rightarrow> bool list" where
  "name_key s = name_mix s [False, False, False, False, False, False, False, False,
     False, False, False, False, False, False, False, False]"

datatype 'v trie = Tip | Branch "'v option" "'v trie" "'v trie"

fun tget :: "bool list \<Rightarrow> 'v trie \<Rightarrow> 'v option" where
  "tget bs Tip = None"
| "tget [] (Branch v l r) = v"
| "tget (False # bs) (Branch v l r) = tget bs l"
| "tget (True # bs) (Branch v l r) = tget bs r"

fun tput :: "bool list \<Rightarrow> 'v \<Rightarrow> 'v trie \<Rightarrow> 'v trie" where
  "tput [] x Tip = Branch (Some x) Tip Tip"
| "tput [] x (Branch v l r) = Branch (Some x) l r"
| "tput (False # bs) x Tip = Branch None (tput bs x Tip) Tip"
| "tput (True # bs) x Tip = Branch None Tip (tput bs x Tip)"
| "tput (False # bs) x (Branch v l r) = Branch v (tput bs x l) r"
| "tput (True # bs) x (Branch v l r) = Branch v l (tput bs x r)"

lemma tget_nonempty: "tget (b # bs) (Branch v l r) = tget bs (if b then r else l)"
  by (cases b) simp_all

lemma tget_tput: "tget cs (tput bs x t) = (if cs = bs then Some x else tget cs t)"
proof (induction bs x t arbitrary: cs rule: tput.induct)
  case (1 x) show ?case by (cases cs) (auto simp: tget_nonempty)
next
  case (2 x v l r) show ?case by (cases cs) (auto simp: tget_nonempty)
next
  case (3 bs x) then show ?case by (cases cs) (auto simp: tget_nonempty)
next
  case (4 bs x) then show ?case by (cases cs) (auto simp: tget_nonempty)
next
  case (5 bs x v l r) then show ?case by (cases cs) (auto simp: tget_nonempty)
next
  case (6 bs x v l r) then show ?case by (cases cs) (auto simp: tget_nonempty)
qed

section \<open>Tables by key\<close>

text \<open>The trie of a table, \<open>None\<close> when two rows reach the same key.\<close>

fun add_row :: "'r option \<Rightarrow> bool list \<Rightarrow> 'r \<Rightarrow> 'r trie \<Rightarrow> 'r trie option" where
  "add_row None k r t = Some (tput k r t)"
| "add_row (Some r') k r t = None"

fun add_rows :: "(string \<times> 'v) list \<Rightarrow> (string \<times> 'v) trie option \<Rightarrow> (string \<times> 'v) trie option" where
  "add_rows rows None = None"
| "add_rows [] (Some t) = Some t"
| "add_rows ((n, v) # rows) (Some t) = add_rows rows (add_row (tget (name_key n) t) (name_key n) (n, v) t)"

fun same_name :: "bool \<Rightarrow> 'v \<Rightarrow> 'v option" where
  "same_name True v = Some v"
| "same_name False v = None"

fun row_hit :: "string \<Rightarrow> (string \<times> 'v) option \<Rightarrow> 'v option" where
  "row_hit n None = None"
| "row_hit n (Some (m, v)) = same_name (m = n) v"

definition row_get :: "string \<Rightarrow> (string \<times> 'v) trie \<Rightarrow> 'v option" where
  "row_get n t = row_hit n (tget (name_key n) t)"

lemma row_hit_Some: "row_hit n x = Some v \<longleftrightarrow> x = Some (n, v)"
proof (cases x)
  case (Some r) then show ?thesis by (cases r; cases "fst r = n") auto
qed simp

lemma add_rows_spec:
  assumes "add_rows rows (Some t) = Some t'"
  shows "distinct (map fst rows) \<and> (\<forall>r\<in>set rows. tget (name_key (fst r)) t = None)
     \<and> (\<forall>k r. tget k t' = Some r \<longleftrightarrow> (r \<in> set rows \<and> name_key (fst r) = k) \<or> tget k t = Some r)"
  using assms
proof (induction rows arbitrary: t)
  case (Cons r rows)
  obtain n v where r: "r = (n, v)" by (cases r)
  have new: "tget (name_key n) t = None"
    using Cons.prems r by (cases "tget (name_key n) t") auto
  with Cons.prems r have rest: "add_rows rows (Some (tput (name_key n) r t)) = Some t'" by simp
  note ih = Cons.IH [OF rest]
  have other: "name_key (fst s) \<noteq> name_key n \<and> tget (name_key (fst s)) t = None" if "s \<in> set rows" for s
  proof -
    from ih that have "tget (name_key (fst s)) (tput (name_key n) r t) = None" by blast
    then show ?thesis by (simp add: tget_tput split: if_splits)
  qed
  have "n \<notin> fst ` set rows" using other by force
  with ih other new r show ?case by (auto simp: tget_tput split: if_splits)
qed simp

lemma row_get_map_of:
  assumes "add_rows rows (Some Tip) = Some t"
  shows "row_get n t = map_of rows n"
proof -
  note spec = add_rows_spec [OF assms]
  have "row_get n t = Some v \<longleftrightarrow> map_of rows n = Some v" for v
    using spec by (auto simp: row_get_def row_hit_Some map_of_eq_Some_iff)
  then show ?thesis by (metis not_None_eq)
qed

fun within_step :: "'v option \<Rightarrow> bool \<Rightarrow> bool" where
  "within_step None b = False"
| "within_step (Some v) b = b"

fun names_within :: "(string \<times> 'v) trie \<Rightarrow> string list \<Rightarrow> bool" where
  "names_within t [] \<longleftrightarrow> True"
| "names_within t (n # ns) \<longleftrightarrow> within_step (row_get n t) (names_within t ns)"

lemma names_within_subset:
  assumes "names_within t ns" and "add_rows S (Some Tip) = Some t"
  shows "set ns \<subseteq> fst ` set S"
proof -
  have "set ns \<subseteq> {n. row_get n t \<noteq> None}"
    using assms(1) by (induction t ns rule: names_within.induct) (auto elim: within_step.elims)
  then show ?thesis
    by (auto simp: row_get_map_of [OF assms(2)] map_of_eq_None_iff)
qed

text \<open>The equations that evaluate keys, tries and searches under \<open>simp only\<close>.\<close>

lemmas key_eval = name_key_def name_mix.simps(1, 2) bxor.simps tget.simps tput.simps
  add_row.simps add_rows.simps append.simps

lemmas find_eval = key_eval row_get_def row_hit.simps same_name.simps within_step.simps names_within.simps
  list.inject list.distinct char.inject simp_thms

end
