(* ===== verification/TableRules.thy ===== *)
theory TableRules
  imports BuiltinTables NameKey
begin

text \<open>
  What holds of the emitter's builtin tables as they are written: no row is overridden by another one, every row of
  the calling-convention tables is about a builtin, and the two ways the emitter names a builtin (by its
  registered name and by the last segment of its path) agree on its native calling convention.
\<close>

section \<open>Evaluation\<close>

lemmas symbol_defs = symbol_rows_def symbol_rows_1_def symbol_rows_2_def symbol_rows_3_def symbol_rows_4_def
  symbol_rows_5_def symbol_rows_6_def
lemmas kind_defs = arg_kind_rows_def arg_kind_rows_1_def
lemmas native_defs = native_rows_def native_rows_1_def native_rows_2_def native_rows_3_def

fun built :: "'r trie option \<Rightarrow> bool" where
  "built None = False"
| "built (Some t) = True"

lemma built_distinct: "built (add_rows rows (Some Tip)) \<Longrightarrow> distinct (map fst rows)"
  by (cases "add_rows rows (Some Tip)") (auto dest: add_rows_spec)

lemma conventions_within:
  "names_within (the (add_rows symbol_rows (Some Tip))) (map fst arg_kind_rows @ map fst native_rows)"
  by (simp only: symbol_defs kind_defs native_defs find_eval option.sel list.map fst_conv)

lemma symbols_built: "built (add_rows symbol_rows (Some Tip))"
  by (simp only: symbol_defs key_eval built.simps)

lemma arg_kinds_built: "built (add_rows arg_kind_rows (Some Tip))"
  by (simp only: kind_defs key_eval built.simps)

lemma natives_built: "built (add_rows native_rows (Some Tip))"
  by (simp only: native_defs key_eval built.simps)

text \<open>
  The rows whose registered name and whose path's last segment lead to different rows of a table must be among the
  names in \<open>ex\<close>.
\<close>

fun no_colon :: "string \<Rightarrow> bool" where
  "no_colon [] \<longleftrightarrow> True"
| "no_colon (Char a b c d e f g h # s) \<longleftrightarrow>
     (a \<or> \<not> b \<or> c \<or> \<not> d \<or> \<not> e \<or> \<not> f \<or> g \<or> h) \<and> no_colon s"

lemma no_colon_set: "no_colon s \<Longrightarrow> CHR '':'' \<notin> set s"
  by (induction s rule: no_colon.induct) auto

fun routes_agree :: "(rstring \<Rightarrow> 'v option) \<Rightarrow> string list \<Rightarrow> (string \<times> string) list \<Rightarrow> bool" where
  "routes_agree tab ex [] \<longleftrightarrow> True"
| "routes_agree tab ex ((n, p) # rows) \<longleftrightarrow>
     (tab (last_segment (lit p)) = tab (lit n) \<or> n \<in> set ex) \<and> routes_agree tab ex rows"

fun routes_checked :: "(string \<times> 'v) trie \<Rightarrow> string list \<Rightarrow> (string \<times> string) list \<Rightarrow> bool" where
  "routes_checked t ex [] \<longleftrightarrow> True"
| "routes_checked t ex ((n, p) # rows) \<longleftrightarrow>
     (\<exists>m f. p = rt m f \<and> no_colon f \<and> (row_get f t = row_get n t \<or> n \<in> set ex)) \<and> routes_checked t ex rows"

lemma routes_checked_rt:
  assumes "no_colon f"
  shows "routes_checked t ex ((n, rt m f) # rows) \<longleftrightarrow>
    (row_get f t = row_get n t \<or> n \<in> set ex) \<and> routes_checked t ex rows"
proof -
  have "g = f" if "no_colon g" "rt m f = rt k g" for k g
    using last_segment_rt [OF no_colon_set [OF assms], of m] last_segment_rt [OF no_colon_set [OF that(1)], of k] that(2)
    by (simp add: lit_inject)
  with assms show ?thesis by auto
qed

lemma routes_checked_agree:
  assumes "add_rows rows (Some Tip) = Some t" and "routes_checked t ex syms"
  shows "routes_agree (table rows) ex syms"
proof -
  have "distinct (map fst rows)" using add_rows_spec [OF assms(1)] by blast
  note get = table_map_of [OF this] row_get_map_of [OF assms(1)]
  show ?thesis using assms(2)
    by (induction syms) (auto simp: get last_segment_rt no_colon_set)
qed

lemmas route_eval = routes_checked_rt routes_checked.simps(1) no_colon.simps option.inject option.distinct
  option.sel list.set insert_iff empty_iff native_arg_type.distinct

lemma native_routes:
  "routes_checked (the (add_rows native_rows (Some Tip))) [] symbol_rows"
  by (simp only: symbol_defs native_defs find_eval route_eval)

lemma kind_routes:
  "routes_checked (the (add_rows arg_kind_rows (Some Tip))) [''text_list_map2_text'', ''text_list_map3_text''] symbol_rows"
  by (simp only: symbol_defs kind_defs find_eval route_eval)

lemma builtE: "built x \<Longrightarrow> x = Some (the x)"
  by (cases x) auto

section \<open>The tables\<close>

lemma rows_kept: "distinct (map fst rows) \<Longrightarrow> list_all (\<lambda>(n, v). table rows (lit n) = Some v) rows"
  by (auto simp: list_all_iff table_map_of)

text \<open>
  No row of the three builtin tables overrides another one: looking up the name of any row, in any of them,
  returns exactly what that row inserted.
\<close>

theorem builtin_rows_all_effective:
  "list_all (\<lambda>(n, p). symbol_map (lit n) = Some (lit p)) symbol_rows \<and>
   list_all (\<lambda>(n, ks). fn_arg_kinds (lit n) = Some ks) arg_kind_rows \<and>
   list_all (\<lambda>(n, ts). native_call_fn_arg_types (lit n) = Some ts) native_rows"
  using rows_kept [OF built_distinct [OF symbols_built]] rows_kept [OF built_distinct [OF arg_kinds_built]]
    rows_kept [OF built_distinct [OF natives_built]]
  by (auto simp: list_all_iff symbol_map_def fn_arg_kinds_def native_call_fn_arg_types_def)

lemma in_symbol_map: "n \<in> fst ` set symbol_rows \<Longrightarrow> symbol_map (lit n) \<noteq> None"
  using built_distinct [OF symbols_built]
  by (auto simp: symbol_map_def table_map_of map_of_eq_None_iff)

text \<open>
  The calling-convention tables are about builtins only: every function with a callee slot and every
  function called natively has an implementation in the symbol map.
\<close>

lemma convention_rows_have_builtins:
  "list_all (\<lambda>(n, ks). symbol_map (lit n) \<noteq> None) arg_kind_rows \<and>
   list_all (\<lambda>(n, ts). symbol_map (lit n) \<noteq> None) native_rows"
proof -
  have sub: "fst ` set arg_kind_rows \<subseteq> fst ` set symbol_rows" "fst ` set native_rows \<subseteq> fst ` set symbol_rows"
    using names_within_subset [OF conventions_within builtE [OF symbols_built]] by simp_all
  have "symbol_map (lit (fst r)) \<noteq> None" if "r \<in> set arg_kind_rows" for r
    using sub(1) that by (intro in_symbol_map) blast
  moreover have "symbol_map (lit (fst r)) \<noteq> None" if "r \<in> set native_rows" for r
    using sub(2) that by (intro in_symbol_map) blast
  ultimately show ?thesis by (simp add: list_all_iff split_beta)
qed

text \<open>
  C18. The emitter looks a builtin's native calling convention up by its registered name when it is called and by
  the last segment of its path when it is passed as a callee: the two agree for every builtin. For the table
  of higher-order functions they agree but for two names.
\<close>

theorem native_convention_routes_agree:
  "routes_agree native_call_fn_arg_types [] symbol_rows \<and>
   routes_agree fn_arg_kinds [''text_list_map2_text'', ''text_list_map3_text''] symbol_rows"
  using routes_checked_agree [OF builtE [OF natives_built] native_routes]
    routes_checked_agree [OF builtE [OF arg_kinds_built] kind_routes]
  by (simp add: native_call_fn_arg_types_def [abs_def] fn_arg_kinds_def [abs_def])

end
