(* ===== verification/Emit.thy ===== *)
theory Emit
  imports BuiltinTables Payload BlockRules Decimal
begin

text \<open>
  The emitter of \<open>src/src/emit/rust_05.rs\<close>, from a verified bundle to the statements of the Rust function:
  the classification of pool entries, the moves on last use, the type gates and the one-pass emission inside the
  blocks of the IR. The source builds Rust text; here a call is first a \<open>node_code\<close> and a line an \<open>item\<close>, and
  \<open>code_text\<close> and \<open>item_text\<close> print them, so that statements about the generated program need not parse text.
  Third-party code and the Unicode tables behind Rust's \<open>Debug\<close> of a string are parameters (\<open>externals\<close>).
\<close>

section \<open>Text\<close>

definition nl :: rstring where
  "nl = [0x0a]"

definition int_text :: "64 word \<Rightarrow> rstring" where
  "int_text w = (if sint w < 0 then lit ''-'' @ nat_text (nat (- sint w)) else nat_text (nat (sint w)))"

definition bool_text :: "bool \<Rightarrow> rstring" where
  "bool_text b = (if b then lit ''true'' else lit ''false'')"

fun join :: "rstring \<Rightarrow> rstring list \<Rightarrow> rstring" where
  "join sep [] = []"
| "join sep [s] = s"
| "join sep (s # ss) = s @ sep @ join sep ss"

definition pad :: "nat \<Rightarrow> rstring" where
  "pad depth = concat (replicate depth (lit ''    ''))"

section \<open>Type hashes and parameters\<close>

definition bool_type_hash :: "(bytes \<Rightarrow> hash256) \<Rightarrow> hash256" where
  "bool_type_hash sha = primitive_type_hash sha 1"
definition int_type_hash :: "(bytes \<Rightarrow> hash256) \<Rightarrow> hash256" where
  "int_type_hash sha = primitive_type_hash sha 2"
definition float_type_hash :: "(bytes \<Rightarrow> hash256) \<Rightarrow> hash256" where
  "float_type_hash sha = primitive_type_hash sha 3"
definition text_type_hash :: "(bytes \<Rightarrow> hash256) \<Rightarrow> hash256" where
  "text_type_hash sha = primitive_type_hash sha 5"
definition dec_type_hash :: "(bytes \<Rightarrow> hash256) \<Rightarrow> hash256" where
  "dec_type_hash sha = primitive_type_hash sha 7"
definition fn_type_hash :: "(bytes \<Rightarrow> hash256) \<Rightarrow> hash256" where
  "fn_type_hash sha = primitive_type_hash sha 8"
definition param_type_hash :: "(bytes \<Rightarrow> hash256) \<Rightarrow> hash256" where
  "param_type_hash sha = primitive_type_hash sha 9"

text \<open>
  What the emitter uses of code outside the repository: SHA-256, the bytes of a decimal after
  \<open>rust_decimal\<close> has read and written them again, the \<open>Debug\<close> form of a string, and which code points
  beyond ASCII are alphanumeric.
\<close>

record externals =
  x_sha :: "bytes \<Rightarrow> hash256"
  x_dec :: "bytes \<Rightarrow> bytes"
  x_dbg :: "rstring \<Rightarrow> rstring"
  x_alnum :: "code_point \<Rightarrow> bool"

record emit_env =
  builtin :: "hash256 \<Rightarrow> rstring option"
  registry :: "hash256 \<Rightarrow> rstring option"
  name_to_path :: "rstring \<Rightarrow> rstring option"
  xbundle :: "hash256 \<Rightarrow> rstring option"
  arg_kind_table :: "rstring \<Rightarrow> arg_kind list option"
  native_call_table :: "rstring \<Rightarrow> native_arg_type list option"
  pure_det :: "hash256 \<Rightarrow> bool"

datatype target_error =
    NoProvider rstring hash256
  | UnresolvedXbundle rstring hash256
  | UnknownGate hash256

datatype emit_error =
    ZeroDefHash
  | PayloadRefused payload_error
  | SlotTooBig u64
  | FnPayloadLength nat
  | HofNotACallee rstring
  | NoImplementation rstring hash256
  | UnknownFnIdentity hash256
  | UnknownPoolType hash256
  | UnresolvedCall hash256
  | ArgKindCount rstring nat nat
  | NativeCount rstring nat nat
  | ExpectsFnGotData rstring nat u32
  | ExpectsFnGotParam rstring nat u32
  | ExpectsFnGotNode rstring nat u32
  | PoolIndexRange rstring nat u32
  | FnAsData rstring u32
  | AtPool nat emit_error
  | AtNode nat emit_error
  | UnresolvedTargets "target_error list"
  | ChannelNameRefused payload_error
  | UndeclaredChannel rstring
  | BlocksRefused block_error
  | EmitPanic string

section \<open>Pool entries\<close>

datatype pool_kind = PData rstring | PFnRef rstring | PParam u32

definition fn_ref_kind :: "emit_env \<Rightarrow> rstring \<Rightarrow> rstring \<Rightarrow> emit_error + pool_kind" where
  "fn_ref_kind env name path =
     (if arg_kind_table env name \<noteq> None then Inl (HofNotACallee name)
      else if native_call_table env name \<noteq> None then Inr (PFnRef (name @ lit ''_vfn''))
      else Inr (PFnRef path))"

definition classify_fn :: "emit_env \<Rightarrow> bytes \<Rightarrow> emit_error + pool_kind" where
  "classify_fn env pl =
     (if length pl \<noteq> 32 then Inl (FnPayloadLength (length pl))
      else case builtin env pl of
        Some path \<Rightarrow> fn_ref_kind env (last_segment path) path
      | None \<Rightarrow>
          (case xbundle env pl of
             Some s \<Rightarrow> Inr (PFnRef (s @ lit ''_xfn''))
           | None \<Rightarrow>
               (case registry env pl of
                  Some name \<Rightarrow>
                    (case name_to_path env name of
                       Some path \<Rightarrow> fn_ref_kind env name path
                     | None \<Rightarrow> Inl (NoImplementation name pl))
                | None \<Rightarrow> Inl (UnknownFnIdentity pl))))"

definition payloadE :: "payload_error + 'a \<Rightarrow> emit_error + 'a" where
  "payloadE m = (case m of Inl e \<Rightarrow> Inl (PayloadRefused e) | Inr x \<Rightarrow> Inr x)"

definition classify_pool_entry :: "externals \<Rightarrow> emit_env \<Rightarrow> pool_entry \<Rightarrow> emit_error + pool_kind" where
  "classify_pool_entry ext env e =
     (let dh = def_hash e; pl = payload e; sha = x_sha ext in
      if dh = replicate 32 0 then Inl ZeroDefHash
      else if dh = unit_type_hash sha then Inr (PData (lit ''Value::Unit''))
      else if dh = bool_type_hash sha then
        bindE (payloadE (decode_bool_payload pl)) (\<lambda>v.
          Inr (PData (lit ''Value::Bool('' @ bool_text v @ lit '')'')))
      else if dh = int_type_hash sha then
        bindE (payloadE (decode_int_payload pl)) (\<lambda>v.
          Inr (PData (lit ''Value::Int('' @ int_text v @ lit '')'')))
      else if dh = text_type_hash sha then
        bindE (payloadE (decode_text_payload pl)) (\<lambda>s.
          Inr (PData (lit ''Value::Str(axis_codegen_bridge::runtime::value::intern_str('' @ x_dbg ext s @ lit ''))'')))
      else if dh = float_type_hash sha then
        bindE (payloadE (decode_float_payload pl)) (\<lambda>v.
          Inr (PData (lit ''Value::Float(f64::from_bits('' @ nat_text (unat v) @ lit ''u64))'')))
      else if dh = dec_type_hash sha then
        (if length pl \<noteq> 16 then Inl (PayloadRefused (BadLength (length pl)))
         else Inr (PData (lit ''Value::Dec(axis_codegen_bridge::runtime::value::Decimal::deserialize(['' @
           join (lit '', '') (map (\<lambda>b. nat_text (unat b) @ lit ''u8'') (x_dec ext pl)) @ lit '']))'')))
      else if dh = param_type_hash sha then
        bindE (payloadE (decode_unsigned_varint pl)) (\<lambda>slot.
          if 2 ^ 32 \<le> unat slot then Inl (SlotTooBig slot) else Inr (PParam (ucast slot)))
      else if dh = fn_type_hash sha then classify_fn env pl
      else Inl (UnknownPoolType dh))"

section \<open>Moves on last use\<close>

fun ref_expr :: "node_ref \<Rightarrow> rstring" where
  "ref_expr (Node i) = lit ''node_'' @ nat_text (unat i)"
| "ref_expr (Pool i) = lit ''pool_'' @ nat_text (unat i)"

fun ref_key :: "node_ref \<Rightarrow> bool \<times> u32" where
  "ref_key (Node i) = (False, i)"
| "ref_key (Pool i) = (True, i)"

definition RESULT_USE :: nat where
  "RESULT_USE = 2 ^ 32 - 1"

type_synonym move_set = "((bool \<times> u32) \<times> nat) list"

text \<open>Every use, as (value, node); the result is used at \<open>RESULT_USE\<close>.\<close>

definition use_list :: "core_bundle \<Rightarrow> ((bool \<times> u32) \<times> nat) list" where
  "use_list B =
     concat (map (\<lambda>i. map (\<lambda>r. (ref_key r, as_u32 i)) (uses (nodes B ! i))) [0..<length (nodes B)])
     @ [(ref_key (result B), RESULT_USE)]"

definition uses_at :: "core_bundle \<Rightarrow> bool \<times> u32 \<Rightarrow> nat list" where
  "uses_at B key = map snd (filter (\<lambda>p. fst p = key) (use_list B))"

definition moves_last :: "nat list \<Rightarrow> nat list \<Rightarrow> bool" where
  "moves_last tops at =
     (let m = foldr max at 0 in
      length at = 1 \<or>
      (m \<noteq> RESULT_USE \<and> length (filter (\<lambda>n. n = m) at) = 1 \<and> list_all (\<lambda>n. n \<in> set tops) at))"

definition last_uses :: "core_bundle \<Rightarrow> nat list \<Rightarrow> move_set" where
  "last_uses B tops =
     map (\<lambda>key. (key, foldr max (uses_at B key) 0))
       (filter (\<lambda>key. moves_last tops (uses_at B key)) (remdups (map fst (use_list B))))"

definition top_level :: "core_bundle \<Rightarrow> blocks \<Rightarrow> nat list" where
  "top_level B bl =
     map as_u32 (filter (\<lambda>i. home bl ! i = None \<and>
       (case nodes B ! i of CCall _ _ _ \<Rightarrow> True | CDeterminate \<Rightarrow> True | CIf _ _ _ \<Rightarrow> True | _ \<Rightarrow> False))
       [0..<length (nodes B)])"

text \<open>How an argument or a block's value is written: moved, cloned, read through an accessor, or a bare path.\<close>

datatype operand =
    Moved node_ref
  | Cloned node_ref
  | Access node_ref native_arg_type
  | IntoBytes node_ref
  | Callee rstring

fun operand_text :: "operand \<Rightarrow> rstring" where
  "operand_text (Moved r) = ref_expr r"
| "operand_text (Cloned r) = ref_expr r @ lit ''.clone()''"
| "operand_text (Access r t) = ref_expr r @ lit ''.'' @ accessor t @ lit ''()''"
| "operand_text (IntoBytes r) = ref_expr r @ lit ''.into_bytes()''"
| "operand_text (Callee p) = p"

definition ref_take :: "node_ref \<Rightarrow> nat \<Rightarrow> move_set \<Rightarrow> operand" where
  "ref_take r at moves = (if (ref_key r, at) \<in> set moves then Moved r else Cloned r)"

section \<open>Calls\<close>

definition is_fn_ref :: "pool_kind list \<Rightarrow> node_ref \<Rightarrow> bool" where
  "is_fn_ref kinds r =
     (case r of Pool p \<Rightarrow> unat p < length kinds \<and> (case kinds ! unat p of PFnRef _ \<Rightarrow> True | _ \<Rightarrow> False)
      | Node _ \<Rightarrow> False)"

definition pool_index :: "node_ref \<Rightarrow> u32" where
  "pool_index r = (case r of Pool p \<Rightarrow> p | Node _ \<Rightarrow> 0)"

definition gate_data_ref :: "node_ref \<Rightarrow> rstring \<Rightarrow> pool_kind list \<Rightarrow> emit_error + unit" where
  "gate_data_ref r label kinds = (if is_fn_ref kinds r then Inl (FnAsData label (pool_index r)) else Inr ())"

text \<open>A call is pure and deterministic when its target and every callee it is given are.\<close>

definition call_is_pure_det :: "(bytes \<Rightarrow> hash256) \<Rightarrow> hash256 \<Rightarrow> node_ref list \<Rightarrow> pool_entry list
    \<Rightarrow> (hash256 \<Rightarrow> bool) \<Rightarrow> bool" where
  "call_is_pure_det sha idn as cpool pd \<longleftrightarrow> pd idn \<and>
     list_all (\<lambda>a. case a of Node _ \<Rightarrow> True
       | Pool p \<Rightarrow>
           if unat p < length cpool \<and> def_hash (cpool ! unat p) = fn_type_hash sha
           then length (payload (cpool ! unat p)) = 32 \<and> pd (payload (cpool ! unat p))
           else True) as"

definition resolve_target :: "emit_env \<Rightarrow> hash256 \<Rightarrow> rstring \<Rightarrow> emit_error + rstring \<times> rstring \<times> bool" where
  "resolve_target env idn tname =
     (case builtin env idn of
        Some p \<Rightarrow> Inr (tname, p, False)
      | None \<Rightarrow>
          (case registry env idn of
             Some n \<Rightarrow>
               (case name_to_path env n of
                  Some p \<Rightarrow> Inr (n, p, False)
                | None \<Rightarrow>
                    (case xbundle env idn of
                       Some s \<Rightarrow> Inr (n, s, True)
                     | None \<Rightarrow> Inl (NoImplementation n idn)))
           | None \<Rightarrow>
               (case xbundle env idn of
                  Some s \<Rightarrow> Inr (tname, s, True)
                | None \<Rightarrow> Inl (UnresolvedCall idn))))"

definition fn_operand :: "rstring \<Rightarrow> nat \<Rightarrow> pool_kind list \<Rightarrow> node_ref \<Rightarrow> emit_error + operand" where
  "fn_operand name i kinds arg =
     (case arg of
        Pool p \<Rightarrow>
          if length kinds \<le> unat p then Inl (PoolIndexRange name i p)
          else (case kinds ! unat p of
            PFnRef path \<Rightarrow> Inr (Callee path)
          | PData _ \<Rightarrow> Inl (ExpectsFnGotData name i p)
          | PParam _ \<Rightarrow> Inl (ExpectsFnGotParam name i p))
      | Node j \<Rightarrow> Inl (ExpectsFnGotNode name i j))"

definition data_operand :: "rstring \<Rightarrow> nat \<Rightarrow> move_set \<Rightarrow> native_arg_type option \<Rightarrow> pool_kind list \<Rightarrow> node_ref
    \<Rightarrow> emit_error + operand" where
  "data_operand name at moves nt kinds arg =
     (if is_fn_ref kinds arg then Inl (FnAsData name (pool_index arg))
      else Inr (case nt of
          Some NValue \<Rightarrow> ref_take arg at moves
        | Some NBytes \<Rightarrow> if (ref_key arg, at) \<in> set moves then IntoBytes arg else Access arg NBytes
        | Some t \<Rightarrow> Access arg t
        | None \<Rightarrow> ref_take arg at moves))"

definition native_at :: "native_arg_type list option \<Rightarrow> nat \<Rightarrow> native_arg_type option" where
  "native_at types i = (case types of None \<Rightarrow> None | Some ts \<Rightarrow> if i < length ts then Some (ts ! i) else None)"

fun arg_operands :: "rstring \<Rightarrow> nat \<Rightarrow> move_set \<Rightarrow> native_arg_type list option \<Rightarrow> pool_kind list
    \<Rightarrow> nat \<Rightarrow> arg_kind list \<Rightarrow> node_ref list \<Rightarrow> emit_error + operand list" where
  "arg_operands name at moves types kinds i (FnRef # ks) (a # as) =
     bindE (fn_operand name i kinds a) (\<lambda>x.
     bindE (arg_operands name at moves types kinds (Suc i) ks as) (\<lambda>xs. Inr (x # xs)))"
| "arg_operands name at moves types kinds i (Data # ks) (a # as) =
     bindE (data_operand name at moves (native_at types i) kinds a) (\<lambda>x.
     bindE (arg_operands name at moves types kinds (Suc i) ks as) (\<lambda>xs. Inr (x # xs)))"
| "arg_operands name at moves types kinds i ks [] = Inr []"
| "arg_operands name at moves types kinds i [] (a # as) = Inl (EmitPanic ''index out of bounds'')"

datatype node_code =
    Discharge
  | Call (cc_name: rstring) (cc_path: rstring) (cc_extern: bool) (cc_native: bool) (cc_operands: "operand list")
      (cc_guards: "node_ref list") (cc_effectful: bool)

definition count_gate :: "emit_error \<Rightarrow> 'k list option \<Rightarrow> nat \<Rightarrow> emit_error + unit" where
  "count_gate e declared n = (case declared of Some ks \<Rightarrow> if length ks \<noteq> n then Inl e else Inr () | None \<Rightarrow> Inr ())"

definition call_code :: "externals \<Rightarrow> emit_env \<Rightarrow> pool_entry list \<Rightarrow> pool_kind list \<Rightarrow> move_set \<Rightarrow> nat
    \<Rightarrow> hash256 \<Rightarrow> node_ref list \<Rightarrow> rstring \<Rightarrow> emit_error + node_code" where
  "call_code ext env cpool kinds moves at idn as tname =
     bindE (resolve_target env idn tname) (\<lambda>(name, path, is_extern).
       let declared = arg_kind_table env name; types = native_call_table env name; n = length as in
       bindE (count_gate (ArgKindCount name (length (the declared)) n) declared n) (\<lambda>_.
       let ks = (case declared of Some ks \<Rightarrow> ks | None \<Rightarrow> replicate n Data) in
       bindE (count_gate (NativeCount name (length (the types)) n) types n) (\<lambda>_.
       bindE (arg_operands name at moves types kinds 0 ks as) (\<lambda>xs.
         Inr (Call name path is_extern (FnRef \<in> set ks \<or> types \<noteq> None) xs
           (map fst (filter (\<lambda>p. snd p = Data) (zip as ks)))
           (\<not> call_is_pure_det (x_sha ext) idn as cpool (pure_det env)))))))"

definition node_code_of :: "externals \<Rightarrow> emit_env \<Rightarrow> pool_entry list \<Rightarrow> pool_kind list \<Rightarrow> move_set \<Rightarrow> nat
    \<Rightarrow> node \<Rightarrow> emit_error + node_code" where
  "node_code_of ext env cpool kinds moves at nd =
     (case nd of
        CCall idn as tname \<Rightarrow> call_code ext env cpool kinds moves at idn as tname
      | CDeterminate \<Rightarrow> Inr Discharge
      | _ \<Rightarrow> Inl (EmitPanic ''emit_blocks emits CIf, CBlock and CEnd itself''))"

definition call_body :: "rstring \<Rightarrow> bool \<Rightarrow> operand list \<Rightarrow> rstring" where
  "call_body path native xs =
     (let es = map operand_text xs; args = join (lit '', '') es in
      if native then path @ lit ''('' @ args @ lit '')''
      else if length es = 0 then path @ lit ''(Value::Unit)''
      else if length es = 1 then path @ lit ''('' @ hd es @ lit '')''
      else path @ lit ''(Value::Tuple(vec!['' @ args @ lit '']))'')"

fun code_text :: "externals \<Rightarrow> node_code \<Rightarrow> rstring" where
  "code_text ext Discharge = lit ''Value::Unit''"
| "code_text ext (Call name path is_extern native xs guards eff) =
     (let body = call_body path native xs in
      if is_extern then lit ''unsafe { '' @ body @ lit '' }''
      else lit ''{ let __pre = axis_codegen_bridge::runtime::fault::guard_pre('' @ bool_text eff @ lit '', &['' @
        join (lit '', '') (map (\<lambda>r. lit ''&'' @ ref_expr r) guards) @
        lit '']); match __pre { Some(v) => v, None => axis_codegen_bridge::runtime::fault::guard_run('' @
        x_dbg ext name @ lit '', '' @ bool_text eff @ lit '', || '' @ body @ lit '') } }'')"

definition emit_node :: "externals \<Rightarrow> emit_env \<Rightarrow> pool_entry list \<Rightarrow> pool_kind list \<Rightarrow> move_set \<Rightarrow> nat
    \<Rightarrow> node \<Rightarrow> emit_error + rstring" where
  "emit_node ext env cpool kinds moves at nd =
     bindE (node_code_of ext env cpool kinds moves at nd) (\<lambda>code. Inr (code_text ext code))"

section \<open>Blocks\<close>

datatype closing = CloseElse | CloseUnit | CloseEnd

datatype item =
    OpenIf nat nat node_ref
  | OpenBlock nat nat
  | OpenElse
  | Close nat operand closing
  | Bind nat nat node_code

fun closing_text :: "closing \<Rightarrow> rstring" where
  "closing_text CloseElse = lit ''} else {''"
| "closing_text CloseUnit = lit ''} else { Value::Unit };''"
| "closing_text CloseEnd = lit ''};''"

fun item_text :: "externals \<Rightarrow> item \<Rightarrow> rstring" where
  "item_text ext (OpenIf depth k c) =
     pad depth @ lit ''let node_'' @ nat_text k @
     lit '': Value = if axis_codegen_bridge::runtime::fault::is_unknown(&'' @ ref_expr c @
     lit '') || axis_codegen_bridge::runtime::fault::is_err(&'' @ ref_expr c @ lit '') { '' @ ref_expr c @
     lit ''.clone() } else if axis_codegen_bridge::runtime::value::truthy(&'' @ ref_expr c @ lit '') {'' @ nl"
| "item_text ext (OpenBlock depth e) = pad depth @ lit ''let node_'' @ nat_text e @ lit '': Value = {'' @ nl"
| "item_text ext OpenElse = []"
| "item_text ext (Close depth v cl) =
     pad depth @ lit ''    '' @ operand_text v @ nl @ pad depth @ closing_text cl @ nl"
| "item_text ext (Bind depth i code) =
     pad depth @ lit ''let node_'' @ nat_text i @ lit '': Value = '' @ code_text ext code @ lit '';'' @ nl"

definition open_item :: "core_bundle \<Rightarrow> blocks \<Rightarrow> pool_kind list \<Rightarrow> nat \<Rightarrow> nat \<Rightarrow> emit_error + item" where
  "open_item B bl kinds depth i =
     (case partner bl ! i of
        None \<Rightarrow> Inl (EmitPanic ''a verified block'')
      | Some e \<Rightarrow>
          (case arm_sel bl ! e of
             Some (k, Then) \<Rightarrow>
               (case nodes B ! k of
                  CIf c t el \<Rightarrow> bindE (gate_data_ref c (lit ''CIf cond'') kinds) (\<lambda>_. Inr (OpenIf depth k c))
                | _ \<Rightarrow> Inl (EmitPanic ''an arm's CIf is a CIf''))
           | Some (k, Else) \<Rightarrow> Inr OpenElse
           | None \<Rightarrow> Inr (OpenBlock depth e)))"

definition closing_of :: "core_bundle \<Rightarrow> blocks \<Rightarrow> nat \<Rightarrow> closing" where
  "closing_of B bl i =
     (case arm_sel bl ! i of
        Some (k, Then) \<Rightarrow> (case nodes B ! k of CIf c t (Node e) \<Rightarrow> CloseElse | _ \<Rightarrow> CloseUnit)
      | _ \<Rightarrow> CloseEnd)"

definition emit_step :: "externals \<Rightarrow> emit_env \<Rightarrow> core_bundle \<Rightarrow> blocks \<Rightarrow> pool_kind list \<Rightarrow> move_set \<Rightarrow> nat \<Rightarrow> nat
    \<Rightarrow> node \<Rightarrow> emit_error + item list \<times> nat" where
  "emit_step ext env B bl kinds moves depth i nd =
     (case nd of
        CBlock \<Rightarrow> bindE (open_item B bl kinds depth i) (\<lambda>x. Inr ([x], Suc depth))
      | CEnd v \<Rightarrow>
          bindE (gate_data_ref v (lit ''CEnd value'') kinds) (\<lambda>_.
            if depth = 0 then Inl (EmitPanic ''subtract with overflow'')
            else Inr ([Close (depth - 1) (ref_take v (as_u32 i) moves) (closing_of B bl i)], depth - 1))
      | CIf _ _ _ \<Rightarrow> Inr ([], depth)
      | _ \<Rightarrow>
          (case node_code_of ext env (constant_pool B) kinds moves (as_u32 i) nd of
             Inl e \<Rightarrow> Inl (AtNode i e)
           | Inr code \<Rightarrow> Inr ([Bind depth i code], depth)))"

fun emit_items :: "externals \<Rightarrow> emit_env \<Rightarrow> core_bundle \<Rightarrow> blocks \<Rightarrow> pool_kind list \<Rightarrow> move_set \<Rightarrow> nat \<Rightarrow> nat
    \<Rightarrow> node list \<Rightarrow> emit_error + item list" where
  "emit_items ext env B bl kinds moves depth i [] = Inr []"
| "emit_items ext env B bl kinds moves depth i (nd # ns) =
     bindE (emit_step ext env B bl kinds moves depth i nd) (\<lambda>(xs, depth').
     bindE (emit_items ext env B bl kinds moves depth' (Suc i) ns) (\<lambda>ys. Inr (xs @ ys)))"

definition emit_blocks :: "externals \<Rightarrow> emit_env \<Rightarrow> core_bundle \<Rightarrow> blocks \<Rightarrow> pool_kind list \<Rightarrow> move_set
    \<Rightarrow> emit_error + rstring" where
  "emit_blocks ext env B bl kinds moves =
     bindE (emit_items ext env B bl kinds moves 1 0 (nodes B)) (\<lambda>xs. Inr (concat (map (item_text ext) xs)))"

end
