(* ===== verification/EmitLib.thy ===== *)
theory EmitLib
  imports Emit
begin

text \<open>
  The whole generated file (\<open>emit_rust_lib_from_bundle_with_dispatch\<close> of \<open>src/src/emit/rust_05.rs\<close>): the checks
  before any code is generated, the external declarations and adapters, the parameters, the pool and the body. A
  \<open>rust_unit\<close> holds the parts, \<open>unit_text\<close> prints them.
\<close>

section \<open>Names\<close>

definition ascii_digit :: "code_point \<Rightarrow> bool" where
  "ascii_digit c \<longleftrightarrow> 48 \<le> c \<and> c \<le> 57"

definition is_alphanumeric :: "externals \<Rightarrow> code_point \<Rightarrow> bool" where
  "is_alphanumeric ext c \<longleftrightarrow>
     (if c < 128 then ascii_digit c \<or> (65 \<le> c \<and> c \<le> 90) \<or> (97 \<le> c \<and> c \<le> 122) else x_alnum ext c)"

definition sanitise :: "externals \<Rightarrow> rstring \<Rightarrow> rstring" where
  "sanitise ext name =
     (let s = map (\<lambda>c. if is_alphanumeric ext c \<or> c = 95 then c else 95) (chars name);
          s = (if s \<noteq> [] \<and> ascii_digit (hd s) then 95 # s else s) in
      if s = [] then lit ''_bundle'' else utf8_encode s)"

section \<open>Checks before emission\<close>

definition target_error :: "externals \<Rightarrow> emit_env \<Rightarrow> node \<Rightarrow> target_error option" where
  "target_error ext env nd =
     (case nd of
        CCall idn as tname \<Rightarrow>
          if builtin env idn \<noteq> None then None
          else (case registry env idn of
            Some n \<Rightarrow>
              if name_to_path env n = None \<and> xbundle env idn = None then Some (NoProvider n idn) else None
          | None \<Rightarrow>
              if xbundle env idn \<noteq> None then None
              else if tname \<noteq> [] \<and> x_sha ext tname = idn then Some (UnresolvedXbundle tname idn)
              else Some (UnknownGate idn))
      | _ \<Rightarrow> None)"

definition target_errors :: "externals \<Rightarrow> emit_env \<Rightarrow> node list \<Rightarrow> target_error list" where
  "target_errors ext env ns = concat (map (\<lambda>nd. case target_error ext env nd of None \<Rightarrow> [] | Some e \<Rightarrow> [e]) ns)"

definition channel_check :: "externals \<Rightarrow> core_bundle \<Rightarrow> rstring list \<Rightarrow> node \<Rightarrow> emit_error + unit" where
  "channel_check ext B channels nd =
     (case nd of
        CCall idn as tname \<Rightarrow>
          if idn \<noteq> x_sha ext (lit ''channel_send'') then Inr ()
          else (case as of
            Pool p # _ \<Rightarrow>
              if unat p < length (constant_pool B) \<and>
                 def_hash (constant_pool B ! unat p) = text_type_hash (x_sha ext)
              then (case decode_text_payload (payload (constant_pool B ! unat p)) of
                  Inl e \<Rightarrow> Inl (ChannelNameRefused e)
                | Inr cname \<Rightarrow> if cname \<in> set channels then Inr () else Inl (UndeclaredChannel cname))
              else Inr ()
          | _ \<Rightarrow> Inr ())
      | _ \<Rightarrow> Inr ())"

fun channel_checks :: "externals \<Rightarrow> core_bundle \<Rightarrow> rstring list \<Rightarrow> node list \<Rightarrow> emit_error + unit" where
  "channel_checks ext B channels [] = Inr ()"
| "channel_checks ext B channels (nd # ns) =
     bindE (channel_check ext B channels nd) (\<lambda>_. channel_checks ext B channels ns)"

section \<open>External symbols and adapters\<close>

text \<open>The identities already declared are threaded through both scans; the function's own identity starts in them.\<close>

fun extern_calls :: "emit_env \<Rightarrow> node list \<Rightarrow> hash256 list \<times> rstring list \<Rightarrow> hash256 list \<times> rstring list" where
  "extern_calls env [] st = st"
| "extern_calls env (nd # ns) (seen, syms) =
     extern_calls env ns
       (case nd of
          CCall idn as tname \<Rightarrow>
            (case xbundle env idn of
               Some s \<Rightarrow> if idn \<in> set seen then (seen, syms) else (idn # seen, syms @ [s])
             | None \<Rightarrow> (seen, syms))
        | _ \<Rightarrow> (seen, syms))"

definition is_fn_entry :: "externals \<Rightarrow> pool_entry \<Rightarrow> bool" where
  "is_fn_entry ext e \<longleftrightarrow> def_hash e = fn_type_hash (x_sha ext) \<and> length (payload e) = 32"

fun extern_refs :: "externals \<Rightarrow> emit_env \<Rightarrow> pool_entry list \<Rightarrow> hash256 list \<times> rstring list
    \<Rightarrow> hash256 list \<times> rstring list \<Rightarrow> rstring list \<times> rstring list" where
  "extern_refs ext env [] (seen, syms) (seen_x, xsyms) = (syms, xsyms)"
| "extern_refs ext env (e # es) (seen, syms) (seen_x, xsyms) =
     (let idn = payload e in
      case (if is_fn_entry ext e then xbundle env idn else None) of
        None \<Rightarrow> extern_refs ext env es (seen, syms) (seen_x, xsyms)
      | Some s \<Rightarrow>
          extern_refs ext env es
            (if idn \<in> set seen then (seen, syms) else (idn # seen, syms @ [s]))
            (if idn \<in> set seen_x then (seen_x, xsyms) else (idn # seen_x, xsyms @ [s])))"

definition vfn_of :: "emit_env \<Rightarrow> hash256 \<Rightarrow> (rstring \<times> rstring) option" where
  "vfn_of env idn =
     (case builtin env idn of
        Some path \<Rightarrow>
          (let name = last_segment path in
           if native_call_table env name \<noteq> None then Some (name, path) else None)
      | None \<Rightarrow>
          (case registry env idn of
             Some name \<Rightarrow>
               (case name_to_path env name of
                  Some path \<Rightarrow> if native_call_table env name \<noteq> None then Some (name, path) else None
                | None \<Rightarrow> None)
           | None \<Rightarrow> None))"

fun vfn_scan :: "externals \<Rightarrow> emit_env \<Rightarrow> pool_entry list \<Rightarrow> hash256 list \<Rightarrow> (rstring \<times> rstring) list" where
  "vfn_scan ext env [] seen = []"
| "vfn_scan ext env (e # es) seen =
     (if \<not> is_fn_entry ext e \<or> payload e \<in> set seen then vfn_scan ext env es seen
      else (case vfn_of env (payload e) of None \<Rightarrow> [] | Some v \<Rightarrow> [v]) @ vfn_scan ext env es (payload e # seen))"

section \<open>Pool and parameters\<close>

fun classify_pool :: "externals \<Rightarrow> emit_env \<Rightarrow> nat \<Rightarrow> pool_entry list \<Rightarrow> emit_error + pool_kind list" where
  "classify_pool ext env i [] = Inr []"
| "classify_pool ext env i (e # es) =
     (case classify_pool_entry ext env e of
        Inl x \<Rightarrow> Inl (AtPool i x)
      | Inr k \<Rightarrow> bindE (classify_pool ext env (Suc i) es) (\<lambda>ks. Inr (k # ks)))"

definition param_slots :: "pool_kind list \<Rightarrow> nat list" where
  "param_slots kinds = concat (map (\<lambda>k. case k of PParam i \<Rightarrow> [unat i] | _ \<Rightarrow> []) kinds)"

text \<open>The arity: one more than the highest slot. The addition is on \<open>u32\<close> and overflows for the last slot.\<close>

definition param_count :: "pool_kind list \<Rightarrow> emit_error + nat" where
  "param_count kinds =
     (if 2 ^ 32 - 1 \<in> set (param_slots kinds) then Inl (EmitPanic ''attempt to add with overflow'')
      else Inr (foldr max (map Suc (param_slots kinds)) 0))"

record rust_unit =
  ru_crates :: "rstring list"
  ru_externs :: "rstring list"
  ru_xfns :: "rstring list"
  ru_vfns :: "(rstring \<times> rstring) list"
  ru_name :: rstring
  ru_params :: nat
  ru_kinds :: "pool_kind list"
  ru_items :: "item list"
  ru_nodes :: nat
  ru_result :: node_ref
  ru_identity :: hash256

definition make_env :: "externals \<Rightarrow> dispatch_overlay \<Rightarrow> (hash256 \<Rightarrow> rstring option) \<Rightarrow> (hash256 \<Rightarrow> rstring option)
    \<Rightarrow> (hash256 \<Rightarrow> bool) \<Rightarrow> emit_env" where
  "make_env ext ov reg xb pd =
     \<lparr>builtin = bridge_builtin_map_with_overlay (x_sha ext) ov, registry = reg,
      name_to_path = symbol_map_with_overlay ov, xbundle = xb,
      arg_kind_table = fn_arg_kinds_with_overlay ov,
      native_call_table = native_call_fn_arg_types_with_overlay ov, pure_det = pd\<rparr>"

definition blocksE :: "block_error + 'a \<Rightarrow> emit_error + 'a" where
  "blocksE m = (case m of Inl e \<Rightarrow> Inl (BlocksRefused e) | Inr x \<Rightarrow> Inr x)"

definition emit_unit :: "externals \<Rightarrow> emit_env \<Rightarrow> core_bundle \<Rightarrow> rstring \<Rightarrow> rstring list \<Rightarrow> rstring list
    \<Rightarrow> emit_error + rust_unit" where
  "emit_unit ext env B fn_name channels crates =
     (let errors = target_errors ext env (nodes B) in
      if errors \<noteq> [] then Inl (UnresolvedTargets errors)
      else bindE (channel_checks ext B channels (nodes B)) (\<lambda>_.
        let self = x_sha ext fn_name;
            calls = extern_calls env (nodes B) ([self], []);
            (externs, xfns) = extern_refs ext env (constant_pool B) calls ([], []);
            vfns = vfn_scan ext env (constant_pool B) [] in
        bindE (classify_pool ext env 0 (constant_pool B)) (\<lambda>kinds.
        bindE (param_count kinds) (\<lambda>params.
        bindE (blocksE (verify_blocks (x_sha ext) B)) (\<lambda>bl.
        bindE (emit_items ext env B bl kinds (last_uses B (top_level B bl)) 1 0 (nodes B)) (\<lambda>items.
        bindE (gate_data_ref (result B) (lit ''result'') kinds) (\<lambda>_.
          Inr \<lparr>ru_crates = crates, ru_externs = externs, ru_xfns = xfns, ru_vfns = vfns,
            ru_name = sanitise ext fn_name, ru_params = params, ru_kinds = kinds, ru_items = items,
            ru_nodes = length (nodes B), ru_result = result B, ru_identity = self\<rparr>))))))) "

section \<open>The text of the file\<close>

definition dq :: rstring where
  "dq = [0x22]"

definition preamble_text :: "rstring list \<Rightarrow> rstring" where
  "preamble_text crates =
     lit ''extern crate axis_codegen_bridge;'' @ nl @
     concat (map (\<lambda>c. lit ''#[allow(unused_extern_crates)] extern crate '' @ c @ lit '';'' @ nl) crates) @
     lit ''#[allow(unused_imports)]'' @ nl @
     lit ''use axis_codegen_bridge::runtime::value::{Value, truthy, intern_str, init_runtime};'' @ nl @ nl"

definition externs_text :: "rstring list \<Rightarrow> rstring" where
  "externs_text syms =
     (if syms = [] then []
      else lit ''#[allow(improper_ctypes)]'' @ nl @ lit ''extern '' @ dq @ lit ''C-unwind'' @ dq @ lit '' {'' @ nl @
        concat (map (\<lambda>s. lit ''    fn '' @ s @ lit ''(args: Value) -> Value;'' @ nl) syms) @ lit ''}'' @ nl @ nl)"

definition xfns_text :: "rstring list \<Rightarrow> rstring" where
  "xfns_text syms =
     (if syms = [] then []
      else concat (map (\<lambda>s. lit ''fn '' @ s @ lit ''_xfn(args: Value) -> Value { unsafe { '' @ s @ lit ''(args) } }'' @ nl) syms)
        @ nl)"

definition vfn_body :: "rstring \<Rightarrow> rstring \<Rightarrow> native_arg_type list \<Rightarrow> rstring" where
  "vfn_body name path types =
     (if length types = 1 then path @ lit ''(v.'' @ accessor (hd types) @ lit ''())''
      else lit ''match v { Value::Tuple(es) if es.len() == '' @ nat_text (length types) @ lit '' => '' @ path @ lit ''('' @
        join (lit '', '') (map (\<lambda>(i, t). lit ''es['' @ nat_text i @ lit ''].'' @ accessor t @ lit ''()'')
          (enumerate 0 types)) @
        lit ''), other => panic!('' @ dq @ name @ lit ''_vfn: expected a '' @ nat_text (length types) @
        lit ''-tuple, got {:?}'' @ dq @ lit '', other) }'')"

definition vfns_text :: "emit_env \<Rightarrow> (rstring \<times> rstring) list \<Rightarrow> rstring" where
  "vfns_text env vfns =
     (if vfns = [] then []
      else concat (map (\<lambda>(name, path). lit ''fn '' @ name @ lit ''_vfn(v: Value) -> Value { '' @
          vfn_body name path (the (native_call_table env name)) @ lit '' }'' @ nl) vfns) @ nl)"

definition params_text :: "rstring \<Rightarrow> nat \<Rightarrow> rstring" where
  "params_text safe n =
     (if n = 0 then []
      else if n = 1 then lit ''    let __param_0: Value = args;'' @ nl
      else lit ''    #[allow(unused_mut)] let mut __params_vec: Vec<Value> = match args {'' @ nl @
        lit ''        Value::Tuple(es) if es.len() == '' @ nat_text n @ lit '' => es,'' @ nl @
        lit ''        other => panic!('' @ dq @ safe @ lit '': expected Value::Tuple of '' @ nat_text n @
        lit '' args, got {:?}'' @ dq @ lit '', other),'' @ nl @ lit ''    };'' @ nl @
        concat (map (\<lambda>i. lit ''    let __param_'' @ nat_text i @
          lit '': Value = std::mem::replace(&mut __params_vec['' @ nat_text i @ lit ''], Value::Unit);'' @ nl) [0..<n]))"

definition param_take :: "pool_kind list \<Rightarrow> nat \<Rightarrow> rstring" where
  "param_take kinds slot =
     (if length (filter (\<lambda>s. s = slot) (param_slots kinds)) = 1 then [] else lit ''.clone()'')"

definition pool_text :: "pool_kind list \<Rightarrow> rstring" where
  "pool_text kinds =
     concat (map (\<lambda>(i, k). case k of
         PData e \<Rightarrow> lit ''    let pool_'' @ nat_text i @ lit '': Value = '' @ e @ lit '';'' @ nl
       | PParam slot \<Rightarrow> lit ''    let pool_'' @ nat_text i @ lit '': Value = __param_'' @ nat_text (unat slot) @
           param_take kinds (unat slot) @ lit '';'' @ nl
       | PFnRef _ \<Rightarrow> []) (enumerate 0 kinds))"

definition export_text :: "rstring \<Rightarrow> rstring \<Rightarrow> rstring" where
  "export_text s safe =
     lit ''#[no_mangle]'' @ nl @ lit ''pub extern '' @ dq @ lit ''C-unwind'' @ dq @ lit '' fn '' @ s @
     lit ''(args: Value) -> Value {'' @ nl @ lit ''    '' @ safe @ lit ''(args)'' @ nl @ lit ''}'' @ nl"

definition unit_text :: "externals \<Rightarrow> emit_env \<Rightarrow> rust_unit \<Rightarrow> rstring" where
  "unit_text ext env u =
     preamble_text (ru_crates u) @ externs_text (ru_externs u) @ xfns_text (ru_xfns u) @ vfns_text env (ru_vfns u) @
     lit ''#[allow(non_snake_case)]'' @ nl @ lit ''pub extern '' @ dq @ lit ''C-unwind'' @ dq @ lit '' fn '' @ ru_name u @
     lit ''(args: Value) -> Value {'' @ nl @ lit ''    init_runtime();'' @ nl @
     params_text (ru_name u) (ru_params u) @ pool_text (ru_kinds u) @
     (if ru_params u = 0 \<and> (ru_kinds u \<noteq> [] \<or> ru_nodes u \<noteq> 0) then lit ''    let _ = &args;'' @ nl else []) @
     concat (map (item_text ext) (ru_items u)) @
     lit ''    '' @ ref_expr (ru_result u) @ nl @ lit ''}'' @ nl @ nl @
     export_text (lit ''ax_fn_'' @ hash256_to_hex (ru_identity u)) (ru_name u) @ nl @
     export_text (lit ''_ax_exe_'' @ ru_name u) (ru_name u)"

definition emit_rust_lib_from_bundle_with_dispatch :: "externals \<Rightarrow> core_bundle \<Rightarrow> rstring
    \<Rightarrow> (hash256 \<Rightarrow> rstring option) \<Rightarrow> (hash256 \<Rightarrow> rstring option) \<Rightarrow> rstring list \<Rightarrow> (hash256 \<Rightarrow> bool)
    \<Rightarrow> dispatch_overlay \<Rightarrow> rstring list \<Rightarrow> emit_error + rstring" where
  "emit_rust_lib_from_bundle_with_dispatch ext B fn_name reg xb channels pd ov crates =
     (let env = make_env ext ov reg xb pd in
      bindE (emit_unit ext env B fn_name channels crates) (\<lambda>u. Inr (unit_text ext env u)))"

definition no_overlay :: dispatch_overlay where
  "no_overlay = \<lparr>ov_symbols = [], ov_arg_kinds = [], ov_native_args = []\<rparr>"

definition emit_rust_lib_from_bundle :: "externals \<Rightarrow> core_bundle \<Rightarrow> rstring
    \<Rightarrow> (hash256 \<Rightarrow> rstring option) \<Rightarrow> (hash256 \<Rightarrow> rstring option) \<Rightarrow> rstring list \<Rightarrow> (hash256 \<Rightarrow> bool)
    \<Rightarrow> emit_error + rstring" where
  "emit_rust_lib_from_bundle ext B fn_name reg xb channels pd =
     emit_rust_lib_from_bundle_with_dispatch ext B fn_name reg xb channels pd no_overlay []"

end
