(* ===== verification/Moves.thy ===== *)
theory Moves
  imports EmitLib CoreIr
begin

text \<open>
  Moves on last use (\<open>last_uses\<close>): a value that the emitter moves at a node is used by no later node, is not the
  bundle's result and appears once among that node's operands. The generated names of values are distinct.
\<close>

section \<open>The uses of a value\<close>

lemma ref_key_inject [simp]: "ref_key r = ref_key s \<longleftrightarrow> r = s"
  by (cases r; cases s) auto

lemma uses_at_node:
  "map snd (filter (\<lambda>p. fst p = ref_key r) (map (\<lambda>s. (ref_key s, n)) rs)) = replicate (count_list rs r) n"
  by (induction rs) auto

lemma uses_at_eq:
  "uses_at B (ref_key r) =
     concat (map (\<lambda>i. replicate (count_list (uses (nodes B ! i)) r) (as_u32 i)) [0..<length (nodes B)])
     @ (if result B = r then [RESULT_USE] else [])"
proof -
  have "map snd (filter (\<lambda>p. fst p = ref_key r)
      (concat (map (\<lambda>i. map (\<lambda>s. (ref_key s, as_u32 i)) (uses (nodes B ! i))) is)))
    = concat (map (\<lambda>i. replicate (count_list (uses (nodes B ! i)) r) (as_u32 i)) is)" for "is"
    by (induction "is") (simp_all add: uses_at_node)
  then show ?thesis by (auto simp: uses_at_def use_list_def)
qed

lemma foldr_max_ge: "(x :: nat) \<in> set xs \<Longrightarrow> x \<le> foldr max xs 0"
  by (induction xs) auto

lemma filter_replicate_eq: "length (filter (\<lambda>x. x = n) (replicate k n)) = k"
  by (induction k) auto

lemma count_in_uses:
  assumes "j < length (nodes B)" "length (nodes B) < 2 ^ 32"
  shows "count_list (uses (nodes B ! j)) r \<le> length (filter (\<lambda>n. n = j) (uses_at B (ref_key r)))"
proof -
  have "j \<in> set is \<Longrightarrow> length (replicate (count_list (uses (nodes B ! j)) r) j) \<le>
      length (filter (\<lambda>n. n = j) (concat (map (\<lambda>i. replicate (count_list (uses (nodes B ! i)) r) (as_u32 i)) is)))" for "is"
    by (induction "is") (use assms in \<open>auto simp: as_u32_def filter_replicate_eq\<close>)
  from this [of "[0..<length (nodes B)]"] assms show ?thesis by (simp add: uses_at_eq)
qed

lemma in_uses_at:
  assumes "u < length (nodes B)" "r \<in> set (uses (nodes B ! u))" "length (nodes B) < 2 ^ 32"
  shows "u \<in> set (uses_at B (ref_key r))"
proof -
  have "count_list (uses (nodes B ! u)) r \<noteq> 0" using assms(2) by (simp add: count_list_0_iff)
  moreover have "as_u32 u = u" using assms by (simp add: as_u32_def)
  ultimately show ?thesis using assms(1) by (auto simp: uses_at_eq intro!: bexI [of _ u])
qed

section \<open>A moved value is not used again\<close>

lemma last_uses_mem:
  "(key, j) \<in> set (last_uses B tops) \<Longrightarrow> j = foldr max (uses_at B key) 0 \<and> moves_last tops (uses_at B key)"
  by (auto simp: last_uses_def)

lemma moved_once:
  assumes m: "(ref_key r, j) \<in> set (last_uses B tops)" and j: "j < length (nodes B)"
    and n: "length (nodes B) < 2 ^ 32" and r: "r \<in> set (uses (nodes B ! j))"
  shows "count_list (uses (nodes B ! j)) r = 1"
    and "u < length (nodes B) \<Longrightarrow> r \<in> set (uses (nodes B ! u)) \<Longrightarrow> u \<le> j"
    and "result B \<noteq> r"
proof -
  let ?at = "uses_at B (ref_key r)"
  have j_max: "j = foldr max ?at 0" and ml: "moves_last tops ?at" using last_uses_mem [OF m] by auto
  have "length (filter (\<lambda>n. n = j) ?at) \<le> 1"
  proof (cases "length ?at = 1")
    case True
    then show ?thesis using length_filter_le [of "\<lambda>n. n = j" ?at] by simp
  next
    case False
    with ml j_max show ?thesis by (simp add: moves_last_def Let_def)
  qed
  moreover have "count_list (uses (nodes B ! j)) r \<noteq> 0" using r by (simp add: count_list_0_iff)
  ultimately show "count_list (uses (nodes B ! j)) r = 1" using count_in_uses [OF j n, of r] by linarith
  show "u \<le> j" if "u < length (nodes B)" "r \<in> set (uses (nodes B ! u))"
    using foldr_max_ge [OF in_uses_at [OF that n]] j_max by simp
  show "result B \<noteq> r"
  proof
    assume res: "result B = r"
    then have mem: "RESULT_USE \<in> set ?at" by (simp add: uses_at_eq)
    have jm: "j \<in> set ?at" using in_uses_at [OF j r n] .
    have ne: "j \<noteq> RESULT_USE" using j n by (simp add: RESULT_USE_def)
    have "length ?at \<noteq> 1"
    proof
      assume "length ?at = 1"
      then obtain x where "?at = [x]" by (auto simp: length_Suc_conv)
      with mem jm ne show False by simp
    qed
    with ml j_max have "j \<noteq> RESULT_USE" by (auto simp: moves_last_def Let_def)
    moreover have "RESULT_USE \<le> j" using foldr_max_ge [OF mem] j_max by simp
    ultimately show False using j n by (simp add: RESULT_USE_def)
  qed
qed

section \<open>Names\<close>

lemma ref_expr_inject: "ref_expr r = ref_expr s \<longleftrightarrow> r = s"
  by (cases r; cases s) (auto simp: nat_text_inject lit_def unat_arith_simps(3))

end
