(* ===== verification/Ownership.thy ===== *)
theory Ownership
  imports Moves
begin

text \<open>
  Rust's rules for the generated function body, as a checker over its items: a variable is used only inside the scope
  that declares it and before it is moved, on every path; a value moved in one arm of an \<open>if\<close> is gone after it.
  The emitter's output for an accepted bundle passes the checker, so that the generated code is not refused for an
  unbound or moved variable.
\<close>

section \<open>The checker\<close>

text \<open>
  The checker keeps the variables that may be used. Entering an \<open>if\<close> saves them; the second arm starts from
  the saved ones, and what the first arm moved is subtracted at the end.
\<close>

datatype frame = IfFrame nat bool "node_ref set" "node_ref set" | BlockFrame nat "node_ref set"

fun take_operand :: "operand \<Rightarrow> node_ref set \<Rightarrow> node_ref set option" where
  "take_operand (Moved r) A = (if r \<in> A then Some (A - {r}) else None)"
| "take_operand (IntoBytes r) A = (if r \<in> A then Some (A - {r}) else None)"
| "take_operand (Cloned r) A = (if r \<in> A then Some A else None)"
| "take_operand (Access r t) A = (if r \<in> A then Some A else None)"
| "take_operand (Callee p) A = Some A"

fun take_operands :: "operand list \<Rightarrow> node_ref set \<Rightarrow> node_ref set option" where
  "take_operands [] A = Some A"
| "take_operands (x # xs) A = Option.bind (take_operand x A) (take_operands xs)"

fun own_code :: "node_code \<Rightarrow> node_ref set \<Rightarrow> node_ref set option" where
  "own_code Discharge A = Some A"
| "own_code (Call name path is_extern native xs guards eff) A =
     (if is_extern \<or> set guards \<subseteq> A then take_operands xs A else None)"

definition node_var :: "nat \<Rightarrow> node_ref" where
  "node_var i = Node (of_nat i)"

fun close_frame :: "closing \<Rightarrow> frame \<Rightarrow> node_ref set \<Rightarrow> (frame list \<times> node_ref set) option" where
  "close_frame CloseElse (IfFrame k False S G) A = Some ([IfFrame k True S (S - A)], S)"
| "close_frame CloseUnit (IfFrame k False S G) A = Some ([], insert (node_var k) (S \<inter> A))"
| "close_frame CloseEnd (IfFrame k True S G) A = Some ([], insert (node_var k) ((S - G) \<inter> A))"
| "close_frame CloseEnd (BlockFrame e S) A = Some ([], insert (node_var e) (S \<inter> A))"
| "close_frame cl f A = None"

fun own_item :: "item \<Rightarrow> frame list \<times> node_ref set \<Rightarrow> (frame list \<times> node_ref set) option" where
  "own_item (OpenIf d k c) (fs, A) = (if c \<in> A then Some (IfFrame k False A {} # fs, A) else None)"
| "own_item (OpenBlock d e) (fs, A) = Some (BlockFrame e A # fs, A)"
| "own_item OpenElse (fs, A) = (case fs of IfFrame k True S G # _ \<Rightarrow> Some (fs, A) | _ \<Rightarrow> None)"
| "own_item (Close d v cl) (f # fs, A) =
     Option.bind (take_operand v A) (\<lambda>A'. map_option (\<lambda>(gs, A''). (gs @ fs, A'')) (close_frame cl f A'))"
| "own_item (Close d v cl) ([], A) = None"
| "own_item (Bind d i code) (fs, A) = map_option (\<lambda>A'. (fs, insert (node_var i) A')) (own_code code A)"

fun own_items :: "item list \<Rightarrow> frame list \<times> node_ref set \<Rightarrow> (frame list \<times> node_ref set) option" where
  "own_items [] st = Some st"
| "own_items (x # xs) st = Option.bind (own_item x st) (own_items xs)"

text \<open>The variables the pool declares: every entry but the callees.\<close>

definition pool_vars :: "pool_kind list \<Rightarrow> node_ref set" where
  "pool_vars kinds = {Pool p | p. unat p < length kinds \<and> \<not> is_fn_ref kinds (Pool p)}"

definition body_owned :: "pool_kind list \<Rightarrow> item list \<Rightarrow> node_ref \<Rightarrow> bool" where
  "body_owned kinds items res \<longleftrightarrow>
     (case own_items items ([], pool_vars kinds) of Some ([], A) \<Rightarrow> res \<in> A | _ \<Rightarrow> False)"

lemma own_items_append: "own_items (xs @ ys) st = Option.bind (own_items xs st) (own_items ys)"
  by (induction xs arbitrary: st) (auto split: bind_splits)

section \<open>Operands\<close>

fun op_refs :: "operand \<Rightarrow> node_ref list" where
  "op_refs (Moved r) = [r]"
| "op_refs (Cloned r) = [r]"
| "op_refs (Access r t) = [r]"
| "op_refs (IntoBytes r) = [r]"
| "op_refs (Callee p) = []"

fun op_moved :: "operand \<Rightarrow> node_ref set" where
  "op_moved (Moved r) = {r}"
| "op_moved (IntoBytes r) = {r}"
| "op_moved _ = {}"

lemma op_moved_refs: "op_moved x \<subseteq> set (op_refs x)"
  by (cases x) auto

lemma take_operand_ok: "set (op_refs x) \<subseteq> A \<Longrightarrow> take_operand x A = Some (A - op_moved x)"
  by (cases x) auto

lemma take_operands_ok:
  assumes "set (concat (map op_refs xs)) \<subseteq> A"
    and "\<And>x r. x \<in> set xs \<Longrightarrow> r \<in> op_moved x \<Longrightarrow> count_list (concat (map op_refs xs)) r = 1"
  shows "take_operands xs A = Some (A - \<Union>(op_moved ` set xs))"
  using assms
proof (induction xs arbitrary: A)
  case (Cons x xs)
  have in_A: "set (concat (map op_refs xs)) \<subseteq> A" using Cons.prems(1) by simp
  have x: "take_operand x A = Some (A - op_moved x)" using Cons.prems(1) by (intro take_operand_ok) auto
  have later: "r \<notin> set (concat (map op_refs xs))" if "r \<in> op_moved x" for r
  proof -
    have "count_list (op_refs x @ concat (map op_refs xs)) r = 1" using Cons.prems(2) [of x r] that by simp
    moreover have "count_list (op_refs x) r \<noteq> 0" using that op_moved_refs [of x] by (auto simp: count_list_0_iff)
    ultimately have "count_list (concat (map op_refs xs)) r = 0" by (simp add: count_list_append)
    then show ?thesis by (simp only: count_list_0_iff) simp
  qed
  have "take_operands xs (A - op_moved x) = Some (A - op_moved x - \<Union>(op_moved ` set xs))"
  proof (rule Cons.IH)
    show "set (concat (map op_refs xs)) \<subseteq> A - op_moved x" using in_A later by blast
    fix y r assume y: "y \<in> set xs" "r \<in> op_moved y"
    then have "count_list (op_refs x @ concat (map op_refs xs)) r = 1" using Cons.prems(2) [of y r] by simp
    moreover have "r \<in> set (concat (map op_refs xs))" using y op_moved_refs [of y] by auto
    then have "count_list (concat (map op_refs xs)) r \<noteq> 0" by (simp only: count_list_0_iff) simp
    ultimately show "count_list (concat (map op_refs xs)) r = 1" by (simp add: count_list_append)
  qed
  with x show ?case by (auto simp: Diff_eq)
qed simp

text \<open>What the operands of a call are: one per data argument, moved only where the move set says so.\<close>

lemma arg_operands_refs:
  assumes "arg_operands name at moves types kinds i ks as = Inr xs" "length ks = length as"
  shows "concat (map op_refs xs) = map fst (filter (\<lambda>p. snd p = Data) (zip as ks)) \<and>
    (\<forall>x\<in>set xs. \<forall>r\<in>set (op_refs x). \<not> is_fn_ref kinds r) \<and>
    (\<forall>x\<in>set xs. \<forall>r\<in>op_moved x. (ref_key r, at) \<in> set moves)"
  using assms
proof (induction name at moves types kinds i ks as arbitrary: xs rule: arg_operands.induct)
  case (1 name at moves types kinds i ks a as)
  then obtain y ys where y: "fn_operand name i kinds a = Inr y"
    "arg_operands name at moves types kinds (Suc i) ks as = Inr ys" "xs = y # ys" by auto
  then obtain p where "y = Callee p"
    by (auto simp: fn_operand_def split: node_ref.splits if_splits pool_kind.splits)
  with y "1.IH" [OF y(2)] "1.prems" show ?case by simp
next
  case (2 name at moves types kinds i ks a as)
  then obtain y ys where y: "data_operand name at moves (native_at types i) kinds a = Inr y"
    "arg_operands name at moves types kinds (Suc i) ks as = Inr ys" "xs = y # ys" by auto
  then have "op_refs y = [a] \<and> \<not> is_fn_ref kinds a \<and> (\<forall>r\<in>op_moved y. (ref_key r, at) \<in> set moves)"
    by (auto simp: data_operand_def ref_take_def split: if_splits option.splits native_arg_type.splits)
  with y "2.IH" [OF y(2)] "2.prems" show ?case by auto
qed auto

lemma count_filter_zip:
  "length ks = length as \<Longrightarrow> count_list (map fst (filter P (zip as ks))) r \<le> count_list as r"
  by (induction ks as rule: list_induct2) auto

lemma call_code_refs:
  assumes "call_code ext env cpool kinds moves at idn as tname = Inr code"
  obtains name path ex nat xs ks eff where
    "code = Call name path ex nat xs (map fst (filter (\<lambda>p. snd p = Data) (zip as ks))) eff"
    "length ks = length as" "arg_operands name at moves (native_call_table env name) kinds 0 ks as = Inr xs"
proof -
  from assms obtain name path ex where r: "resolve_target env idn tname = Inr (name, path, ex)"
    by (auto simp: call_code_def)
  let ?ks = "case arg_kind_table env name of Some ks \<Rightarrow> ks | None \<Rightarrow> replicate (length as) Data"
  have "length ?ks = length as"
    using assms r by (auto simp: call_code_def Let_def count_gate_def split: option.splits if_splits)
  moreover from assms r obtain xs where
    "arg_operands name at moves (native_call_table env name) kinds 0 ?ks as = Inr xs"
    "code = Call name path ex (FnRef \<in> set ?ks \<or> native_call_table env name \<noteq> None) xs
       (map fst (filter (\<lambda>p. snd p = Data) (zip as ?ks))) (\<not> call_is_pure_det (x_sha ext) idn as cpool (pure_det env))"
    by (auto simp: call_code_def Let_def)
  ultimately show thesis using that by blast
qed

end
