(* ===== verification/EmitScopes.thy ===== *)
theory EmitScopes
  imports Ownership
begin

text \<open>
  The invariant behind the ownership check: at every node, the variables the checker may use contain every value
  that is visible there and has not been moved before, and its frames are the open blocks of the IR.
\<close>

section \<open>Arms of an accepted bundle\<close>

lemma partner_matched:
  assumes "blocks_of sha B bl" "matched (nodes B) b e"
  shows "partner bl ! b = Some e" "partner bl ! e = Some b" "arm_of_block bl b = arm_sel bl ! e"
proof -
  have "e < length (nodes B)" "b < length (nodes B)"
    using assms(2) matched_less [OF assms(2)] by (auto simp: matched_def)
  then show "partner bl ! b = Some e" "partner bl ! e = Some b"
    using assms unfolding blocks_of_def by blast+
  then show "arm_of_block bl b = arm_sel bl ! e" by (simp add: arm_of_block_def)
qed

lemma block_matched:
  assumes "blocks_of sha B bl" "b < length (nodes B)" "nodes B ! b = CBlock"
  obtains e where "matched (nodes B) b e"
proof -
  from assms obtain e where "partner bl ! b = Some e" unfolding blocks_of_def by blast
  with assms have "matched (nodes B) b e \<or> matched (nodes B) e b" unfolding blocks_of_def by blast
  with assms(3) have "matched (nodes B) b e" by (auto simp: matched_def is_cend_def)
  then show thesis by (rule that)
qed

lemma end_matched:
  assumes "blocks_of sha B bl" "e < length (nodes B)" "is_cend (nodes B ! e)"
  obtains b where "matched (nodes B) b e" "open_stack (nodes B) e = b # open_stack (nodes B) b"
proof -
  from assms obtain b st where st: "open_stack (nodes B) e = b # st"
    by (cases "open_stack (nodes B) e") (auto simp: blocks_of_def)
  then have "st = open_stack (nodes B) b" using open_stack_below [of "nodes B" e "[]"] by simp
  with st assms show thesis by (intro that [of b]) (auto simp: matched_def)
qed

lemma open_stack_after:
  assumes "matched ns b e"
  shows "open_stack ns (Suc e) = open_stack ns b"
proof -
  have "open_stack ns e = [] @ b # tl (open_stack ns e)" "\<exists>v. ns ! e = CEnd v"
    using assms by (auto simp: matched_def is_cend_def split: node.splits)
  with open_stack_below [of ns e "[]" b] show ?thesis by auto
qed

lemma arm_end:
  assumes "blocks_of sha B bl" "e < length (nodes B)" "arm_sel bl ! e = Some (k, w)"
  obtains c t el where "k < length (nodes B)" "nodes B ! k = CIf c t el" "arm_ref w (nodes B ! k) = Some (Node (of_nat e))"
proof -
  from assms have "k < length (nodes B) \<and> (\<exists>j'. arm_ref w (nodes B ! k) = Some (Node j') \<and> unat j' = e)"
    unfolding blocks_of_def arms_inv_def by blast
  then obtain j' where j: "k < length (nodes B)" "arm_ref w (nodes B ! k) = Some (Node j')" "unat j' = e" by blast
  then have "j' = of_nat e" by auto
  moreover from j(2) obtain c t el where "nodes B ! k = CIf c t el"
    by (auto simp: arm_ref_def split: node.splits)
  ultimately show thesis using that j by blast
qed

lemma cif_shape:
  assumes "blocks_of sha B bl" "k < length (nodes B)" "nodes B ! k = CIf c t el"
  shows "\<exists>t'. t = Node t' \<and> arm_sel bl ! unat t' = Some (k, Then) \<and>
    ((\<exists>e'. el = Node e' \<and> two_armed (nodes B) k (unat t') (unat e') \<and> arm_sel bl ! unat e' = Some (k, Else)) \<or>
     ((\<exists>p. el = Pool p) \<and> one_armed (nodes B) k (unat t')))"
proof -
  have "unit_else sha B el \<Longrightarrow> \<exists>p. el = Pool p" by (auto simp: unit_else_def split: node_ref.splits)
  moreover from assms obtain t' where "t = Node t'" "arm_sel bl ! unat t' = Some (k, Then)"
    "(\<exists>e'. el = Node e' \<and> two_armed (nodes B) k (unat t') (unat e') \<and> arm_sel bl ! unat e' = Some (k, Else)) \<or>
     (unit_else sha B el \<and> one_armed (nodes B) k (unat t'))"
    unfolding blocks_of_def arms_inv_def by blast
  ultimately show ?thesis by blast
qed

text \<open>The three positions an arm's end can be in.\<close>

lemma then_end:
  assumes bo: "blocks_of sha B bl" and e: "e < length (nodes B)" "arm_sel bl ! e = Some (k, Then)"
  obtains (two) c t e' where "k < length (nodes B)" "nodes B ! k = CIf c t (Node e')" "two_armed (nodes B) k e (unat e')"
      "arm_sel bl ! unat e' = Some (k, Else)" "matched (nodes B) (Suc e) (unat e')"
  | (one) c t p where "k = Suc e" "k < length (nodes B)" "nodes B ! k = CIf c t (Pool p)"
proof -
  from arm_end [OF bo e] obtain c t el where
    k: "k < length (nodes B)" "nodes B ! k = CIf c t el" and "t = Node (of_nat e)"
    by (auto simp: arm_ref_def)
  moreover have "unat (of_nat e :: u32) = e"
    using arm_end [OF bo e] bo e unfolding blocks_of_def arms_inv_def by (metis (no_types, lifting) node_ref.inject(1) option.inject)
  moreover obtain t' where "t = Node t'" and
    s: "(\<exists>e'. el = Node e' \<and> two_armed (nodes B) k (unat t') (unat e') \<and> arm_sel bl ! unat e' = Some (k, Else)) \<or>
     ((\<exists>p. el = Pool p) \<and> one_armed (nodes B) k (unat t'))"
    using cif_shape [OF bo k] by blast
  ultimately have "unat t' = e" by simp
  from s show thesis
  proof
    assume "\<exists>e'. el = Node e' \<and> two_armed (nodes B) k (unat t') (unat e') \<and> arm_sel bl ! unat e' = Some (k, Else)"
    then obtain e' where e': "el = Node e'" "two_armed (nodes B) k e (unat e')" "arm_sel bl ! unat e' = Some (k, Else)"
      using \<open>unat t' = e\<close> by blast
    then have "matched (nodes B) (Suc e) (unat e')" using k(1) by (auto simp: two_armed_def matched_def)
    with e' k show thesis using two by blast
  next
    assume "(\<exists>p. el = Pool p) \<and> one_armed (nodes B) k (unat t')"
    then obtain p where "el = Pool p" "k = Suc e" using \<open>unat t' = e\<close> by (auto simp: one_armed_def)
    with k show thesis using one by blast
  qed
qed

lemma else_end:
  assumes bo: "blocks_of sha B bl" and e: "e < length (nodes B)" "arm_sel bl ! e = Some (k, Else)"
  obtains c t t' where "k = Suc e" "k < length (nodes B)" "nodes B ! k = CIf c t (Node (of_nat e))"
    "two_armed (nodes B) k t' e" "arm_sel bl ! t' = Some (k, Then)"
proof -
  from arm_end [OF bo e] obtain c t el where
    k: "k < length (nodes B)" "nodes B ! k = CIf c t el" and el: "el = Node (of_nat e)"
    by (auto simp: arm_ref_def)
  have "unat (of_nat e :: u32) = e"
    using arm_end [OF bo e] bo e unfolding blocks_of_def arms_inv_def by (metis (no_types, lifting) node_ref.inject(1) option.inject)
  moreover obtain t' :: u32 where
    "two_armed (nodes B) k (unat t') (unat (of_nat e :: u32))" "arm_sel bl ! unat t' = Some (k, Then)"
    using cif_shape [OF bo k] el by auto
  ultimately show thesis using that k el by (auto simp: two_armed_def)
qed

lemma cif_after_arm:
  assumes bo: "blocks_of sha B bl" and k: "k < length (nodes B)" "nodes B ! k = CIf c t el"
  obtains e w where "k = Suc e" "is_cend (nodes B ! e)" "arm_sel bl ! e = Some (k, w)"
proof -
  obtain t' :: u32 where t': "arm_sel bl ! unat t' = Some (k, Then)"
    "(\<exists>e'. el = Node e' \<and> two_armed (nodes B) k (unat t') (unat e') \<and> arm_sel bl ! unat e' = Some (k, Else)) \<or>
     ((\<exists>p. el = Pool p) \<and> one_armed (nodes B) k (unat t'))"
    using cif_shape [OF bo k] by blast
  then show thesis
    by (elim disjE exE conjE) (auto simp: two_armed_def one_armed_def intro!: that [of "k - 1"])
qed

section \<open>Visible, moved, open\<close>

definition bound :: "core_bundle \<Rightarrow> blocks \<Rightarrow> nat \<Rightarrow> bool" where
  "bound B bl j \<longleftrightarrow> nodes B ! j \<noteq> CBlock \<and> (is_cend (nodes B ! j) \<longrightarrow> arm_sel bl ! j = None)"

definition visible :: "core_bundle \<Rightarrow> blocks \<Rightarrow> pool_kind list \<Rightarrow> nat \<Rightarrow> node_ref set" where
  "visible B bl kinds i = pool_vars kinds \<union>
     {Node j | j. unat j < i \<and> bound B bl (unat j) \<and> set (scope (nodes B) (unat j)) \<subseteq> set (open_stack (nodes B) i)}"

definition moved_before :: "core_bundle \<Rightarrow> move_set \<Rightarrow> nat \<Rightarrow> node_ref set" where
  "moved_before B moves i = {r. \<exists>j < i. (ref_key r, j) \<in> set moves \<and> r \<in> set (uses (nodes B ! j))}"

definition ready :: "(bytes \<Rightarrow> hash256) \<Rightarrow> core_bundle \<Rightarrow> blocks \<Rightarrow> pool_kind list \<Rightarrow> move_set \<Rightarrow> bool" where
  "ready sha B bl kinds moves \<longleftrightarrow>
     blocks_of sha B bl \<and> length (nodes B) < 2 ^ 32 \<and> (\<exists>tops. moves = last_uses B tops) \<and>
     (\<forall>i < length (nodes B). list_all (ref_ok (length kinds) i) (uses (nodes B ! i))) \<and>
     ref_ok (length kinds) (length (nodes B)) (result B)"

lemma moved_before_mono: "i \<le> j \<Longrightarrow> moved_before B moves i \<subseteq> moved_before B moves j"
  by (auto simp: moved_before_def intro: less_le_trans)

lemma node_var_eq:
  assumes "j < 2 ^ 32"
  shows "Node w = node_var j \<longleftrightarrow> unat w = j"
proof
  assume "Node w = node_var j"
  then have "unat w = unat (of_nat j :: u32)" by (simp add: node_var_def)
  with assms show "unat w = j" by (simp only: unat_of_nat) simp
qed (auto simp: node_var_def)

lemma scope_less: "b \<in> set (scope ns j) \<Longrightarrow> b < j"
  using scope_subset_open [of ns j] open_stack_less [of b ns j] by blast

text \<open>A value used at node \<open>u\<close> is visible there and has not been moved.\<close>

lemma used_visible:
  assumes "ready sha B bl kinds moves" "u < length (nodes B)" "r \<in> set (uses (nodes B ! u))" "\<not> is_fn_ref kinds r"
  shows "r \<in> visible B bl kinds u"
proof (cases r)
  case (Node j)
  from assms have "use_scoped B bl u r" "ref_ok (length kinds) u r"
    by (auto simp: ready_def blocks_of_def list_all_iff)
  with Node show ?thesis by (auto simp: visible_def use_scoped_def bound_def Let_def)
next
  case (Pool p)
  from assms have "ref_ok (length kinds) u r" by (simp add: ready_def list_all_iff)
  with Pool have "unat p < length kinds" by simp
  with Pool assms(4) show ?thesis by (auto simp: visible_def pool_vars_def)
qed

lemma used_not_moved:
  assumes "ready sha B bl kinds moves" "u < length (nodes B)" "r \<in> set (uses (nodes B ! u))" "i \<le> u"
  shows "r \<notin> moved_before B moves i"
proof
  assume "r \<in> moved_before B moves i"
  then obtain j where j: "j < i" "(ref_key r, j) \<in> set moves" "r \<in> set (uses (nodes B ! j))"
    by (auto simp: moved_before_def)
  from assms(1) obtain tops where "moves = last_uses B tops" "length (nodes B) < 2 ^ 32" by (auto simp: ready_def)
  with moved_once(2) [of r j B tops u] j assms have "u \<le> j" by simp
  with j(1) assms(4) show False by simp
qed

lemma result_visible:
  assumes "ready sha B bl kinds moves" "\<not> is_fn_ref kinds (result B)"
  shows "result B \<in> visible B bl kinds (length (nodes B)) - moved_before B moves (length (nodes B))"
proof -
  from assms have sc: "use_scoped B bl (length (nodes B)) (result B)" "ref_ok (length kinds) (length (nodes B)) (result B)"
    by (auto simp: ready_def blocks_of_def)
  have "result B \<in> visible B bl kinds (length (nodes B))"
    using sc assms(2) by (cases "result B") (auto simp: visible_def pool_vars_def use_scoped_def bound_def Let_def)
  moreover have "result B \<notin> moved_before B moves (length (nodes B))"
    using assms(1) by (auto simp: moved_before_def ready_def dest: moved_once(3))
  ultimately show ?thesis by blast
qed

text \<open>How visibility changes from one node to the next.\<close>

lemma visible_same:
  assumes "open_stack (nodes B) (Suc i) = open_stack (nodes B) i" "i < 2 ^ 32"
  shows "visible B bl kinds (Suc i) \<subseteq> insert (node_var i) (visible B bl kinds i)"
  using assms by (auto simp: visible_def node_var_eq less_Suc_eq)

lemma visible_open:
  assumes "nodes B ! i = CBlock"
  shows "visible B bl kinds (Suc i) \<subseteq> visible B bl kinds i"
proof
  fix r assume r: "r \<in> visible B bl kinds (Suc i)"
  show "r \<in> visible B bl kinds i"
  proof (cases "r \<in> pool_vars kinds")
    case False
    with r obtain j where j: "r = Node j" "unat j < Suc i" "bound B bl (unat j)"
      "set (scope (nodes B) (unat j)) \<subseteq> insert i (set (open_stack (nodes B) i))"
      by (auto simp: visible_def assms)
    have "unat j \<noteq> i" using j(3) assms by (auto simp: bound_def)
    moreover have "i \<notin> set (scope (nodes B) (unat j))" using scope_less [of i "nodes B" "unat j"] j(2) by auto
    ultimately show ?thesis using j by (auto simp: visible_def)
  qed (simp add: visible_def)
qed

lemma visible_close:
  assumes "matched (nodes B) b e" "r \<in> visible B bl kinds (Suc e)" "e < 2 ^ 32"
    and "r = node_var e \<Longrightarrow> \<not> bound B bl e"
  shows "r \<in> visible B bl kinds b \<inter> visible B bl kinds e"
proof (cases "r \<in> pool_vars kinds")
  case False
  note st = open_stack_after [OF assms(1)]
  have os: "set (open_stack (nodes B) b) \<subseteq> set (open_stack (nodes B) e)"
  proof -
    have "b \<in> set (open_stack (nodes B) e)" using assms(1) by (auto simp: matched_def)
    then obtain pre where "open_stack (nodes B) e = pre @ b # open_stack (nodes B) b"
      using open_stack_suffix by blast
    then show ?thesis by (metis Un_upper2 set_append set_subset_Cons subset_trans)
  qed
  from False assms(2) obtain j where j: "r = Node j" "unat j < Suc e" "bound B bl (unat j)"
    "set (scope (nodes B) (unat j)) \<subseteq> set (open_stack (nodes B) b)" by (auto simp: visible_def st simp del: open_stack.simps)
  have "unat j \<noteq> e" using j assms(3,4) by (auto simp: node_var_eq)
  moreover have "unat j \<noteq> b" using j(3) matched_less [OF assms(1)] by (auto simp: bound_def)
  moreover have "\<not> (b < unat j \<and> unat j < e)"
    using scope_interval [OF assms(1), of "unat j"] j(4) open_stack_less [of b "nodes B" b] by blast
  ultimately have "unat j < b" "unat j < e" using j(2) matched_less [OF assms(1)] by auto
  with j os show ?thesis by (auto simp: visible_def)
qed (auto simp: visible_def)

end
