(* ===== verification/EmitRules.thy ===== *)
theory EmitRules
  imports EmitScopes
begin

text \<open>
  What the emitter guarantees of the code it generates for an accepted bundle: ownership and scoping, that callees are
  never data and always declared, and that emission after the checks fails for named reasons only.
\<close>

section \<open>The invariant of the ownership check\<close>

definition usable :: "core_bundle \<Rightarrow> blocks \<Rightarrow> pool_kind list \<Rightarrow> move_set \<Rightarrow> nat \<Rightarrow> node_ref set" where
  "usable B bl kinds moves i = visible B bl kinds i - moved_before B moves i"

fun frame_ok :: "core_bundle \<Rightarrow> blocks \<Rightarrow> pool_kind list \<Rightarrow> move_set \<Rightarrow> frame \<Rightarrow> nat \<Rightarrow> bool" where
  "frame_ok B bl kinds moves (BlockFrame e S) b \<longleftrightarrow>
     partner bl ! b = Some e \<and> arm_of_block bl b = None \<and> usable B bl kinds moves b \<subseteq> S"
| "frame_ok B bl kinds moves (IfFrame k snd_arm S G) b \<longleftrightarrow>
     arm_of_block bl b = Some (k, if snd_arm then Else else Then) \<and> usable B bl kinds moves b \<subseteq> S - G"

text \<open>Between the two arms of a \<open>CIf\<close> the frame of the second one is already there.\<close>

definition pending :: "core_bundle \<Rightarrow> blocks \<Rightarrow> nat \<Rightarrow> nat list" where
  "pending B bl i =
     (if i < length (nodes B) \<and> nodes B ! i = CBlock \<and> (\<exists>k. arm_of_block bl i = Some (k, Else)) then [i] else [])"

definition own_inv :: "core_bundle \<Rightarrow> blocks \<Rightarrow> pool_kind list \<Rightarrow> move_set \<Rightarrow> nat \<Rightarrow> frame list \<times> node_ref set \<Rightarrow> bool" where
  "own_inv B bl kinds moves i st \<longleftrightarrow>
     list_all2 (frame_ok B bl kinds moves) (fst st) (pending B bl i @ open_stack (nodes B) i) \<and>
     usable B bl kinds moves i \<subseteq> snd st \<and>
     (i < length (nodes B) \<longrightarrow> (\<exists>c t e. nodes B ! i = CIf c t e) \<longrightarrow> node_var i \<in> snd st)"

lemma pending_after_end:
  assumes bo: "blocks_of sha B bl" and p: "pending B bl (Suc i) \<noteq> []"
  shows "i < length (nodes B) \<and> is_cend (nodes B ! i) \<and> (\<exists>k. arm_sel bl ! i = Some (k, Then))"
proof -
  from p obtain k where k: "Suc i < length (nodes B)" "nodes B ! Suc i = CBlock" "arm_of_block bl (Suc i) = Some (k, Else)"
    by (auto simp: pending_def split: if_splits)
  from block_matched [OF bo k(1,2)] obtain e where e: "matched (nodes B) (Suc i) e" .
  then have "e < length (nodes B)" "arm_sel bl ! e = Some (k, Else)"
    using k(3) partner_matched(3) [OF bo e] by (auto simp: matched_def)
  from else_end [OF bo this] obtain t' where t: "two_armed (nodes B) k t' e" "arm_sel bl ! t' = Some (k, Then)" by metis
  then have "t' = i" using e by (auto simp: two_armed_def matched_def)
  with t k(1) show ?thesis by (auto simp: two_armed_def)
qed

lemma no_cif_after:
  assumes "blocks_of sha B bl" "\<not> is_cend (nodes B ! i)" "Suc i < length (nodes B)"
  shows "\<not> (\<exists>c t e. nodes B ! Suc i = CIf c t e)"
  using assms cif_after_arm [of sha B bl "Suc i"] by (metis old.nat.inject)

text \<open>A node that neither opens nor closes a block.\<close>

lemma own_inv_same:
  assumes bo: "blocks_of sha B bl" and i: "i < length (nodes B)" "i < 2 ^ 32"
    and nd: "nodes B ! i \<noteq> CBlock" "\<not> is_cend (nodes B ! i)"
    and inv: "own_inv B bl kinds moves i (fs, A)"
    and A': "usable B bl kinds moves i - moved_before B moves (Suc i) \<subseteq> A'" "node_var i \<in> A'"
  shows "own_inv B bl kinds moves (Suc i) (fs, A')"
proof -
  have os: "open_stack (nodes B) (Suc i) = open_stack (nodes B) i"
    using nd by (auto simp: is_cend_def split: node.splits)
  have "pending B bl i = []" using nd by (simp add: pending_def)
  moreover have "pending B bl (Suc i) = []" using pending_after_end [OF bo] nd by blast
  moreover have "usable B bl kinds moves (Suc i) \<subseteq> A'"
    using visible_same [OF os i(2), of bl kinds] moved_before_mono [of i "Suc i" B moves] A'
    by (auto simp: usable_def)
  ultimately show ?thesis using inv no_cif_after [OF bo nd(2)]
    by (auto simp: own_inv_def os simp del: open_stack.simps)
qed

lemma call_owned:
  assumes rd: "ready sha B bl kinds moves" and i: "i < length (nodes B)" and nd: "nodes B ! i = CCall idn as tname"
    and code: "call_code ext env (constant_pool B) kinds moves i idn as tname = Inr code"
    and A: "usable B bl kinds moves i \<subseteq> A"
  shows "\<exists>A'. own_code code A = Some A' \<and> A - moved_before B moves (Suc i) \<subseteq> A'"
proof -
  have uses: "uses (nodes B ! i) = as" by (simp add: nd uses_def)
  from call_code_refs [OF code] obtain name path ex nat xs ks eff where
    c: "code = Call name path ex nat xs (map fst (filter (\<lambda>p. snd p = Data) (zip as ks))) eff"
    and ks: "length ks = length as" and xs: "arg_operands name i moves (native_call_table env name) kinds 0 ks as = Inr xs" .
  note R = arg_operands_refs [OF xs ks]
  let ?data = "map fst (filter (\<lambda>p. snd p = Data) (zip as ks))"
  have sub: "set ?data \<subseteq> A"
  proof
    fix r assume r: "r \<in> set ?data"
    with R have "r \<in> set (concat (map op_refs xs))" by simp
    then obtain x where "x \<in> set xs" "r \<in> set (op_refs x)" by auto
    with R have "\<not> is_fn_ref kinds r" by blast
    moreover have "r \<in> set as" using r by (auto dest: set_zip_leftD)
    ultimately have "r \<in> usable B bl kinds moves i"
      using used_visible [OF rd i] used_not_moved [OF rd i, of r i] uses by (auto simp: usable_def)
    with A show "r \<in> A" by blast
  qed
  have once: "count_list (concat (map op_refs xs)) r = 1" if "x \<in> set xs" "r \<in> op_moved x" for x r
  proof -
    have m: "(ref_key r, i) \<in> set moves" using R that by blast
    have "r \<in> set (concat (map op_refs xs))" using that op_moved_refs [of x] by auto
    then have ne: "count_list (concat (map op_refs xs)) r \<noteq> 0" by (simp only: count_list_0_iff) simp
    have "r \<in> set ?data" using R \<open>r \<in> set (concat (map op_refs xs))\<close> by simp
    then have "r \<in> set as" by (auto dest: set_zip_leftD)
    with rd m i uses have "count_list as r = 1" using moved_once(1) [of r i B] by (auto simp: ready_def)
    moreover have "count_list (concat (map op_refs xs)) r \<le> count_list as r"
      using R count_filter_zip [OF ks, of "\<lambda>p. snd p = Data" r] by simp
    ultimately show ?thesis using ne by linarith
  qed
  have "take_operands xs A = Some (A - \<Union>(op_moved ` set xs))"
    using R sub by (intro take_operands_ok once) simp_all
  moreover have "\<Union>(op_moved ` set xs) \<subseteq> moved_before B moves (Suc i)"
  proof
    fix r assume "r \<in> \<Union>(op_moved ` set xs)"
    then obtain x where x: "x \<in> set xs" "r \<in> op_moved x" by blast
    then have "r \<in> set (concat (map op_refs xs))" using op_moved_refs [of x] by auto
    then have "r \<in> set ?data" using R by simp
    then have "r \<in> set (uses (nodes B ! i))" by (auto simp: uses dest: set_zip_leftD)
    with R x show "r \<in> moved_before B moves (Suc i)" unfolding moved_before_def by blast
  qed
  ultimately show ?thesis using c sub by auto
qed

text \<open>Opening a block.\<close>

lemma no_pending_after_block:
  "blocks_of sha B bl \<Longrightarrow> nodes B ! i = CBlock \<Longrightarrow> pending B bl (Suc i) = []"
  using pending_after_end [of sha B bl i] by (auto simp: is_cend_def)

lemma own_inv_open:
  assumes bo: "blocks_of sha B bl" and nd: "nodes B ! i = CBlock"
    and fs: "list_all2 (frame_ok B bl kinds moves) fs (i # open_stack (nodes B) i)" and A: "usable B bl kinds moves i \<subseteq> A"
  shows "own_inv B bl kinds moves (Suc i) (fs, A)"
proof -
  have "usable B bl kinds moves (Suc i) \<subseteq> A"
    using visible_open [OF nd, of bl kinds] moved_before_mono [of i "Suc i" B moves] A by (auto simp: usable_def)
  moreover have "\<not> is_cend (nodes B ! i)" using nd by (simp add: is_cend_def)
  ultimately show ?thesis
    using fs nd no_pending_after_block [OF bo nd] no_cif_after [OF bo] by (auto simp: own_inv_def)
qed

text \<open>The condition of a \<open>CIf\<close> is written before its first arm: it is usable there already.\<close>

lemma cond_usable:
  assumes rd: "ready sha B bl kinds moves" and b: "matched (nodes B) b e" and e: "arm_sel bl ! e = Some (k, Then)"
    and k: "nodes B ! k = CIf c t el" and g: "\<not> is_fn_ref kinds c"
  shows "c \<in> usable B bl kinds moves b"
proof -
  have bo: "blocks_of sha B bl" and n: "length (nodes B) < 2 ^ 32" using rd by (simp_all add: ready_def)
  have el: "e < length (nodes B)" using b by (simp add: matched_def)
  have ebo: "\<not> bound B bl e" using b e by (simp add: bound_def matched_def)
  have use: "c \<in> set (uses (nodes B ! k))" by (simp add: k uses_def)
  have e_close: "r \<in> visible B bl kinds (Suc e) \<Longrightarrow> r \<in> visible B bl kinds b" for r
    using visible_close [OF b, of r bl kinds] el n ebo by auto
  have "k < length (nodes B) \<and> b < k \<and> c \<in> visible B bl kinds b"
  proof (cases rule: then_end [OF bo el e])
    case (1 c' t' e')
    have e'n: "unat e' < length (nodes B)" using "1"(5) by (simp add: matched_def)
    have "\<not> bound B bl (unat e')" using "1"(4,5) by (simp add: bound_def matched_def)
    moreover have ks: "k = Suc (unat e')" using "1"(3) by (auto simp: two_armed_def)
    moreover have "c \<in> visible B bl kinds k" using used_visible [OF rd "1"(1) use g] .
    ultimately have "c \<in> visible B bl kinds (Suc e)"
      using visible_close [OF "1"(5), of c bl kinds] e'n n by auto
    then show ?thesis using e_close "1"(1) ks matched_less [OF b] matched_less [OF "1"(5)] by auto
  next
    case (2 c' t' p)
    then show ?thesis using used_visible [OF rd "2"(2) use g] e_close matched_less [OF b] by auto
  qed
  then show ?thesis using used_not_moved [OF rd _ use, of b] by (auto simp: usable_def)
qed

lemma open_owned:
  assumes rd: "ready sha B bl kinds moves" and i: "i < length (nodes B)" and nd: "nodes B ! i = CBlock"
    and it: "open_item B bl kinds depth i = Inr x" and inv: "own_inv B bl kinds moves i (fs, A)"
  shows "\<exists>st. own_item x (fs, A) = Some st \<and> own_inv B bl kinds moves (Suc i) st"
proof -
  have bo: "blocks_of sha B bl" using rd by (simp add: ready_def)
  from block_matched [OF bo i nd] obtain e where e: "matched (nodes B) i e" .
  note P = partner_matched [OF bo e]
  have A: "usable B bl kinds moves i \<subseteq> A" using inv by (simp add: own_inv_def)
  show ?thesis
  proof (cases "arm_sel bl ! e")
    case None
    with it P have x: "x = OpenBlock depth e" by (simp add: open_item_def)
    have "list_all2 (frame_ok B bl kinds moves) (BlockFrame e A # fs) (i # open_stack (nodes B) i)"
      using inv None P A by (auto simp: own_inv_def pending_def)
    from own_inv_open [OF bo nd this A] show ?thesis by (simp add: x)
  next
    case (Some kw)
    obtain k w where kw: "kw = (k, w)" by (cases kw)
    show ?thesis
    proof (cases w)
      case Then
      with it P Some kw obtain c t el where c: "nodes B ! k = CIf c t el" "x = OpenIf depth k c" "\<not> is_fn_ref kinds c"
        by (auto simp: open_item_def gate_data_ref_def split: node.splits if_splits)
      have "list_all2 (frame_ok B bl kinds moves) (IfFrame k False A {} # fs) (i # open_stack (nodes B) i)"
        using inv Some kw Then P A by (auto simp: own_inv_def pending_def)
      from own_inv_open [OF bo nd this A] show ?thesis
        using cond_usable [OF rd e _ c(1,3)] Some kw Then A by (auto simp: c(2))
    next
      case Else
      with it P Some kw have x: "x = OpenElse" by (simp add: open_item_def)
      have fs: "list_all2 (frame_ok B bl kinds moves) fs (i # open_stack (nodes B) i)"
        using inv Some kw Else P i nd by (auto simp: own_inv_def pending_def)
      then obtain S G fs' where "fs = IfFrame k True S G # fs'"
        using Some kw Else P by (auto simp: list_all2_Cons2 elim!: frame_ok.elims split: if_splits)
      with own_inv_open [OF bo nd fs A] show ?thesis by (simp add: x)
    qed
  qed
qed

text \<open>Closing a block.\<close>

lemma end_operand_owned:
  assumes rd: "ready sha B bl kinds moves" and i: "i < length (nodes B)" and nd: "nodes B ! i = CEnd v"
    and g: "\<not> is_fn_ref kinds v" and A: "usable B bl kinds moves i \<subseteq> A"
  shows "\<exists>A'. take_operand (ref_take v i moves) A = Some A' \<and> visible B bl kinds i - moved_before B moves (Suc i) \<subseteq> A'"
proof -
  have use: "v \<in> set (uses (nodes B ! i))" by (simp add: nd uses_def)
  have "v \<in> A" using used_visible [OF rd i use g] used_not_moved [OF rd i use, of i] A by (auto simp: usable_def)
  then have t: "take_operand (ref_take v i moves) A = Some (A - op_moved (ref_take v i moves))"
    by (intro take_operand_ok) (simp add: ref_take_def)
  have "op_moved (ref_take v i moves) \<subseteq> moved_before B moves (Suc i)"
    using use by (auto simp: ref_take_def moved_before_def)
  with t A show ?thesis using moved_before_mono [of i "Suc i" B moves] by (auto simp: usable_def)
qed

lemma close_owned:
  assumes rd: "ready sha B bl kinds moves" and i: "i < length (nodes B)" and nd: "nodes B ! i = CEnd v"
    and A1: "visible B bl kinds i - moved_before B moves (Suc i) \<subseteq> A1"
    and fs: "list_all2 (frame_ok B bl kinds moves) fs (open_stack (nodes B) i)"
  shows "\<exists>f fs' gs A'. fs = f # fs' \<and> close_frame (closing_of B bl i) f A1 = Some (gs, A') \<and>
    own_inv B bl kinds moves (Suc i) (gs @ fs', A')"
proof -
  have bo: "blocks_of sha B bl" and n: "length (nodes B) < 2 ^ 32" using rd by (simp_all add: ready_def)
  have ce: "is_cend (nodes B ! i)" by (simp add: nd is_cend_def)
  from end_matched [OF bo i ce] obtain b where b: "matched (nodes B) b i" "open_stack (nodes B) i = b # open_stack (nodes B) b" .
  note P = partner_matched [OF bo b(1)]
  note os = open_stack_after [OF b(1)]
  from fs b(2) obtain f fs' where f: "fs = f # fs'" "frame_ok B bl kinds moves f b"
    "list_all2 (frame_ok B bl kinds moves) fs' (open_stack (nodes B) b)" by (auto simp: list_all2_Cons2)
  have low: "usable B bl kinds moves (Suc i) - (if bound B bl i then {node_var i} else {}) \<subseteq>
      usable B bl kinds moves b \<inter> A1"
    using visible_close [OF b(1), of _ bl kinds] A1 i n matched_less [OF b(1)] moved_before_mono [of b "Suc i" B moves]
    by (auto simp: usable_def split: if_splits)
  have cif: "(\<exists>c t e. nodes B ! Suc i = CIf c t e) \<Longrightarrow> Suc i < length (nodes B) \<Longrightarrow> \<exists>w. arm_sel bl ! i = Some (Suc i, w)"
    using cif_after_arm [OF bo, of "Suc i"] by (metis old.nat.inject)
  show ?thesis
  proof (cases "arm_sel bl ! i")
    case None
    with P f(2) obtain S where S: "f = BlockFrame i S" "usable B bl kinds moves b \<subseteq> S"
      by (cases "(B, bl, kinds, moves, f, b)" rule: frame_ok.cases) auto
    have "pending B bl (Suc i) = []" using pending_after_end [OF bo] None by fastforce
    then have "own_inv B bl kinds moves (Suc i) (fs', insert (node_var i) (S \<inter> A1))"
      using low S f(3) cif None by (auto simp: own_inv_def os split: if_splits simp del: open_stack.simps)
    moreover have "closing_of B bl i = CloseEnd" using None by (simp add: closing_of_def)
    ultimately show ?thesis using f(1) S(1) by auto
  next
    case (Some kw)
    obtain k w where kw: "kw = (k, w)" by (cases kw)
    have nb: "\<not> bound B bl i" using Some ce by (simp add: bound_def)
    show ?thesis
    proof (cases w)
      case Else
      with P f(2) Some kw obtain S G where S: "f = IfFrame k True S G" "usable B bl kinds moves b \<subseteq> S - G"
        by (cases "(B, bl, kinds, moves, f, b)" rule: frame_ok.cases) (auto split: if_splits)
      from else_end [OF bo i] Some kw Else have k: "k = Suc i" by metis
      have "pending B bl (Suc i) = []" using pending_after_end [OF bo, of i] Some kw Else by fastforce
      then have "own_inv B bl kinds moves (Suc i) (fs', insert (node_var k) ((S - G) \<inter> A1))"
        using low S f(3) nb k by (auto simp: own_inv_def os simp del: open_stack.simps)
      moreover have "closing_of B bl i = CloseEnd" using Some kw Else by (simp add: closing_of_def)
      ultimately show ?thesis using f(1) S(1) by auto
    next
      case Then
      with P f(2) Some kw obtain S G where S: "f = IfFrame k False S G" "usable B bl kinds moves b \<subseteq> S - G"
        by (cases "(B, bl, kinds, moves, f, b)" rule: frame_ok.cases) (auto split: if_splits)
      from Some kw Then have ai: "arm_sel bl ! i = Some (k, Then)" by simp
      show ?thesis
      proof (cases rule: then_end [OF bo i ai])
        case (1 c t e')
        have blk: "nodes B ! Suc i = CBlock" "Suc i < length (nodes B)" and arm: "arm_of_block bl (Suc i) = Some (k, Else)"
          using matched_less [OF "1"(5)] partner_matched(3) [OF bo "1"(5)] "1"(4,5) by (auto simp: matched_def)
        then have pend: "pending B bl (Suc i) = [Suc i]" by (simp add: pending_def)
        have lowS: "usable B bl kinds moves (Suc i) \<subseteq> S - (S - A1)" using low S nb by auto
        with arm have "frame_ok B bl kinds moves (IfFrame k True S (S - A1)) (Suc i)" by simp
        with pend lowS f(3) blk have "own_inv B bl kinds moves (Suc i) (IfFrame k True S (S - A1) # fs', S)"
          by (auto simp: own_inv_def os simp del: open_stack.simps)
        moreover have "closing_of B bl i = CloseElse" using ai "1"(2) by (simp add: closing_of_def)
        ultimately show ?thesis using f(1) S(1) by auto
      next
        case (2 c t p)
        have "pending B bl (Suc i) = []" using "2" by (simp add: pending_def)
        then have "own_inv B bl kinds moves (Suc i) (fs', insert (node_var k) (S \<inter> A1))"
          using low S f(3) nb "2"(1) by (auto simp: own_inv_def os simp del: open_stack.simps)
        moreover have "closing_of B bl i = CloseUnit" using ai "2"(3) by (simp add: closing_of_def)
        ultimately show ?thesis using f(1) S(1) by auto
      qed
    qed
  qed
qed

section \<open>Ownership of the generated body\<close>

lemma emit_step_owned:
  assumes rd: "ready sha B bl kinds moves" and i: "i < length (nodes B)"
    and step: "emit_step ext env B bl kinds moves depth i (nodes B ! i) = Inr (xs, depth')"
    and inv: "own_inv B bl kinds moves i st"
  shows "\<exists>st'. own_items xs st = Some st' \<and> own_inv B bl kinds moves (Suc i) st'"
proof -
  obtain fs A where st: "st = (fs, A)" by (cases st)
  have bo: "blocks_of sha B bl" and n: "length (nodes B) < 2 ^ 32" using rd by (simp_all add: ready_def)
  have i32: "i < 2 ^ 32" "as_u32 i = i" using i n by (simp_all add: as_u32_def)
  have A: "usable B bl kinds moves i \<subseteq> A" using inv st by (simp add: own_inv_def)
  show ?thesis
  proof (cases "nodes B ! i")
    case (CCall idn as tname)
    then obtain code where code: "call_code ext env (constant_pool B) kinds moves i idn as tname = Inr code"
      "xs = [Bind depth i code]"
      using step i32 by (auto simp: emit_step_def node_code_of_def split: sum.splits)
    from call_owned [OF rd i CCall code(1) A] obtain A' where
      A': "own_code code A = Some A'" "A - moved_before B moves (Suc i) \<subseteq> A'" by blast
    have "own_inv B bl kinds moves (Suc i) (fs, insert (node_var i) A')"
      by (rule own_inv_same [OF bo i i32(1) _ _ inv [unfolded st]]) (use A A' CCall in \<open>auto simp: is_cend_def\<close>)
    with A' code st show ?thesis by simp
  next
    case CDeterminate
    then have "xs = [Bind depth i Discharge]" using step by (auto simp: emit_step_def node_code_of_def)
    moreover have "own_inv B bl kinds moves (Suc i) (fs, insert (node_var i) A)"
      by (rule own_inv_same [OF bo i i32(1) _ _ inv [unfolded st]]) (use A CDeterminate in \<open>auto simp: is_cend_def\<close>)
    ultimately show ?thesis using st by simp
  next
    case (CIf c t e)
    then have "xs = []" using step by (simp add: emit_step_def)
    moreover have "own_inv B bl kinds moves (Suc i) (fs, A)"
      by (rule own_inv_same [OF bo i i32(1) _ _ inv [unfolded st]])
        (use A CIf inv st i in \<open>auto simp: is_cend_def own_inv_def\<close>)
    ultimately show ?thesis using st by simp
  next
    case CBlock
    then obtain x where x: "open_item B bl kinds depth i = Inr x" "xs = [x]" using step by (auto simp: emit_step_def)
    from open_owned [OF rd i CBlock x(1) inv [unfolded st]] show ?thesis by (auto simp: x(2) st)
  next
    case (CEnd v)
    then have x: "\<not> is_fn_ref kinds v" "xs = [Close (depth - 1) (ref_take v i moves) (closing_of B bl i)]"
      using step i32 by (auto simp: emit_step_def gate_data_ref_def split: if_splits)
    from end_operand_owned [OF rd i CEnd x(1) A] obtain A1 where
      A1: "take_operand (ref_take v i moves) A = Some A1" "visible B bl kinds i - moved_before B moves (Suc i) \<subseteq> A1" by blast
    have "list_all2 (frame_ok B bl kinds moves) fs (open_stack (nodes B) i)"
      using inv st CEnd by (auto simp: own_inv_def pending_def)
    from close_owned [OF rd i CEnd A1(2) this] show ?thesis using A1(1) x(2) st by auto
  qed
qed

lemma emit_items_owned:
  assumes rd: "ready sha B bl kinds moves"
    and "emit_items ext env B bl kinds moves depth i ns = Inr xs" "i + length ns = length (nodes B)"
    and "ns = drop i (nodes B)" "own_inv B bl kinds moves i st"
  shows "\<exists>st'. own_items xs st = Some st' \<and> own_inv B bl kinds moves (length (nodes B)) st'"
  using assms(2-)
proof (induction ns arbitrary: depth i xs st)
  case (Cons nd ns)
  have i: "i < length (nodes B)" using Cons.prems(2) by simp
  with Cons.prems(3) have nd: "nd = nodes B ! i" and ns: "ns = drop (Suc i) (nodes B)"
    by (simp_all add: Cons_nth_drop_Suc [symmetric])
  from Cons.prems(1) obtain ys zs depth' where
    step: "emit_step ext env B bl kinds moves depth i nd = Inr (ys, depth')"
    and rest: "emit_items ext env B bl kinds moves depth' (Suc i) ns = Inr zs" and xs: "xs = ys @ zs" by auto
  from emit_step_owned [OF rd i step [unfolded nd] Cons.prems(4)] obtain st1 where
    st1: "own_items ys st = Some st1" "own_inv B bl kinds moves (Suc i) st1" by blast
  from Cons.IH [OF rest _ ns st1(2)] Cons.prems(2) obtain st2 where
    "own_items zs st1 = Some st2" "own_inv B bl kinds moves (length (nodes B)) st2" by auto
  with st1 show ?case by (simp add: xs own_items_append)
qed simp

lemma classify_pool_length: "classify_pool ext env i es = Inr ks \<Longrightarrow> length ks = length es"
  by (induction es arbitrary: i ks) (auto split: sum.splits)

lemma emit_unit_InrD:
  assumes "emit_unit ext env B fn_name channels crates = Inr u"
  obtains bl where "target_errors ext env (nodes B) = []" "classify_pool ext env 0 (constant_pool B) = Inr (ru_kinds u)"
    "verify_blocks (x_sha ext) B = Inr bl" "param_count (ru_kinds u) = Inr (ru_params u)"
    "emit_items ext env B bl (ru_kinds u) (last_uses B (top_level B bl)) 1 0 (nodes B) = Inr (ru_items u)"
    "\<not> is_fn_ref (ru_kinds u) (result B)" "ru_result u = result B"
    "ru_vfns u = vfn_scan ext env (constant_pool B) []"
    "(ru_externs u, ru_xfns u) =
       extern_refs ext env (constant_pool B) (extern_calls env (nodes B) ([x_sha ext fn_name], [])) ([], [])"
  using assms
  by (auto simp: emit_unit_def Let_def gate_data_ref_def blocksE_def split: if_splits prod.splits sum.splits)

lemma bundle_ok_ready:
  assumes "bundle_ok B" "length (nodes B) < 2 ^ 32" "verify_blocks sha B = Inr bl" "length kinds = length (constant_pool B)"
  shows "ready sha B bl kinds (last_uses B tops)"
proof -
  have "list_all (ref_ok (length (constant_pool B)) i) (uses (nodes B ! i))" if "i < length (nodes B)" for i
  proof -
    have "node_ok (length (constant_pool B)) i (nodes B ! i)" using assms(1) that by (simp add: bundle_ok_def)
    then show ?thesis by (cases "nodes B ! i") (auto simp: uses_def)
  qed
  then show ?thesis using assms verify_blocks_sound [OF assms(3)] by (auto simp: ready_def bundle_ok_def)
qed

lemma unit_body_owned:
  assumes "bundle_ok B" "length (nodes B) < 2 ^ 32" "emit_unit ext env B fn_name channels crates = Inr u"
  shows "body_owned (ru_kinds u) (ru_items u) (ru_result u)"
proof -
  from emit_unit_InrD [OF assms(3)] obtain bl where
    u: "classify_pool ext env 0 (constant_pool B) = Inr (ru_kinds u)" "verify_blocks (x_sha ext) B = Inr bl"
      "emit_items ext env B bl (ru_kinds u) (last_uses B (top_level B bl)) 1 0 (nodes B) = Inr (ru_items u)"
      "\<not> is_fn_ref (ru_kinds u) (result B)" "ru_result u = result B" by metis
  let ?moves = "last_uses B (top_level B bl)"
  have rd: "ready (x_sha ext) B bl (ru_kinds u) ?moves"
    using bundle_ok_ready [OF assms(1,2) u(2) classify_pool_length [OF u(1)]] .
  then have bo: "blocks_of (x_sha ext) B bl" by (simp add: ready_def)
  have p0: "pending B bl 0 = []"
  proof (rule ccontr)
    assume "pending B bl 0 \<noteq> []"
    then obtain k where k: "0 < length (nodes B)" "nodes B ! 0 = CBlock" "arm_of_block bl 0 = Some (k, Else)"
      by (auto simp: pending_def split: if_splits)
    from block_matched [OF bo k(1,2)] obtain e where e: "matched (nodes B) 0 e" .
    then have "e < length (nodes B)" "arm_sel bl ! e = Some (k, Else)"
      using k(3) partner_matched(3) [OF bo e] by (auto simp: matched_def)
    from else_end [OF bo this] obtain t' where "two_armed (nodes B) k t' e" by metis
    with e show False by (auto simp: two_armed_def matched_def)
  qed
  have c0: "\<not> (0 < length (nodes B) \<and> (\<exists>c t e. nodes B ! 0 = CIf c t e))"
    using cif_after_arm [OF bo, of 0] by blast
  have "own_inv B bl (ru_kinds u) ?moves 0 ([], pool_vars (ru_kinds u))"
    using p0 c0 by (auto simp: own_inv_def usable_def visible_def)
  from emit_items_owned [OF rd u(3) _ _ this] obtain fs A where
    o: "own_items (ru_items u) ([], pool_vars (ru_kinds u)) = Some (fs, A)"
    "own_inv B bl (ru_kinds u) ?moves (length (nodes B)) (fs, A)" by auto
  then have "fs = []" "usable B bl (ru_kinds u) ?moves (length (nodes B)) \<subseteq> A"
    using bo by (auto simp: own_inv_def pending_def blocks_of_def)
  with o(1) result_visible [OF rd u(4)] u(5) show ?thesis by (auto simp: body_owned_def usable_def)
qed

end
