(* ===== verification/EmitErrors.thy ===== *)
theory EmitErrors
  imports EmitRules
begin

text \<open>
  How emission can fail, which symbols the generated code relies on, and the properties of the emitter.
\<close>

section \<open>Refusals\<close>

text \<open>What remains to go wrong at a call whose target resolves: the type gates on its arguments.\<close>

fun call_refusal :: "emit_error \<Rightarrow> bool" where
  "call_refusal (ArgKindCount _ _ _) = True"
| "call_refusal (NativeCount _ _ _) = True"
| "call_refusal (ExpectsFnGotData _ _ _) = True"
| "call_refusal (ExpectsFnGotParam _ _ _) = True"
| "call_refusal (ExpectsFnGotNode _ _ _) = True"
| "call_refusal (FnAsData _ _) = True"
| "call_refusal _ = False"

fun body_refusal :: "emit_error \<Rightarrow> bool" where
  "body_refusal (AtNode i e) = call_refusal e"
| "body_refusal (FnAsData _ _) = True"
| "body_refusal _ = False"

lemma arg_operands_refusal:
  assumes "arg_operands name at moves types kinds i ks as = Inl e" "length ks = length as"
    "list_all (ref_ok (length kinds) j) as"
  shows "call_refusal e"
  using assms
  by (induction name at moves types kinds i ks as rule: arg_operands.induct)
    (auto simp: bindE_eq_Inl fn_operand_def data_operand_def split: node_ref.splits if_splits pool_kind.splits)

lemma count_gate_Inl: "count_gate e d n = Inl x \<Longrightarrow> x = e"
  by (auto simp: count_gate_def split: option.splits if_splits)

lemma count_gate_Some: "count_gate e (Some ks) n = Inr x \<Longrightarrow> length ks = n"
  by (auto simp: count_gate_def split: if_splits)

lemma target_resolves:
  assumes "target_error ext env (CCall idn as tname) = None"
  shows "\<exists>r. resolve_target env idn tname = Inr r"
  using assms by (auto simp: target_error_def resolve_target_def split: option.splits if_splits)

lemma call_code_refusal:
  assumes t: "target_error ext env (CCall idn as tname) = None"
    and e: "call_code ext env cpool kinds moves at idn as tname = Inl e" and as: "list_all (ref_ok (length kinds) j) as"
  shows "call_refusal e"
proof -
  from target_resolves [OF t] obtain name path ex where r: "resolve_target env idn tname = Inr (name, path, ex)" by auto
  let ?ks = "case arg_kind_table env name of Some ks \<Rightarrow> ks | None \<Rightarrow> replicate (length as) Data"
  from e r consider
      "count_gate (ArgKindCount name (length (the (arg_kind_table env name))) (length as)) (arg_kind_table env name) (length as) = Inl e"
    | "count_gate (NativeCount name (length (the (native_call_table env name))) (length as)) (native_call_table env name) (length as) = Inl e"
    | x where "count_gate (ArgKindCount name (length (the (arg_kind_table env name))) (length as)) (arg_kind_table env name) (length as) = Inr x"
      "arg_operands name at moves (native_call_table env name) kinds 0 ?ks as = Inl e"
    by (auto simp: call_code_def Let_def bindE_eq_Inl)
  then show ?thesis
  proof cases
    case 3
    then have "length ?ks = length as" using count_gate_Some by (auto split: option.splits)
    from arg_operands_refusal [OF 3(2) this as] show ?thesis .
  qed (auto dest: count_gate_Inl)
qed

lemma open_item_refusal:
  assumes rd: "ready sha B bl kinds moves" and i: "i < length (nodes B)" "nodes B ! i = CBlock"
    and e: "open_item B bl kinds depth i = Inl x"
  shows "body_refusal x"
proof -
  have bo: "blocks_of sha B bl" using rd by (simp add: ready_def)
  from block_matched [OF bo i] obtain e where m: "matched (nodes B) i e" .
  then have el: "e < length (nodes B)" by (simp add: matched_def)
  note P = partner_matched [OF bo m]
  have cif: "\<exists>c t el. nodes B ! k = CIf c t el" if "arm_sel bl ! e = Some (k, w)" for k w
    using arm_end [OF bo el that] by blast
  show ?thesis
    using e P(1) cif
    by (auto simp: open_item_def bindE_eq_Inl gate_data_ref_def split: option.splits prod.splits arm.splits node.splits if_splits)
qed

lemma emit_step_refusal:
  assumes rd: "ready sha B bl kinds moves" and i: "i < length (nodes B)" and d: "0 < depth"
    and t: "target_error ext env (nodes B ! i) = None"
    and e: "emit_step ext env B bl kinds moves depth i (nodes B ! i) = Inl x"
  shows "body_refusal x"
proof (cases "nodes B ! i")
  case (CCall idn as tname)
  have "list_all (ref_ok (length kinds) i) as" using rd i CCall by (auto simp: ready_def uses_def)
  then show ?thesis using e t CCall call_code_refusal [of ext env idn as tname]
    by (auto simp: emit_step_def node_code_of_def split: sum.splits)
next
  case CBlock
  then show ?thesis using e open_item_refusal [OF rd i CBlock] by (auto simp: emit_step_def bindE_eq_Inl)
qed (use e d in \<open>auto simp: emit_step_def node_code_of_def bindE_eq_Inl gate_data_ref_def split: if_splits\<close>)

text \<open>The depth of the generated text is the nesting of the blocks.\<close>

lemma emit_step_depth:
  assumes bo: "blocks_of sha B bl" and i: "i < length (nodes B)"
    and d: "depth = Suc (length (open_stack (nodes B) i))"
    and e: "emit_step ext env B bl kinds moves depth i (nodes B ! i) = Inr (xs, depth')"
  shows "depth' = Suc (length (open_stack (nodes B) (Suc i)))"
proof (cases "nodes B ! i")
  case (CEnd v)
  then have "is_cend (nodes B ! i)" by (simp add: is_cend_def)
  from end_matched [OF bo i this] obtain b where "open_stack (nodes B) i = b # open_stack (nodes B) b" by metis
  then show ?thesis using CEnd d e by (auto simp: emit_step_def)
qed (use d e in \<open>auto simp: emit_step_def split: sum.splits\<close>)

lemma emit_items_refusal:
  assumes rd: "ready sha B bl kinds moves" and t: "target_errors ext env (nodes B) = []"
    and "emit_items ext env B bl kinds moves depth i ns = Inl x" "i + length ns = length (nodes B)"
    and "ns = drop i (nodes B)" "depth = Suc (length (open_stack (nodes B) i))"
  shows "body_refusal x"
  using assms(3-)
proof (induction ns arbitrary: depth i)
  case (Cons nd ns)
  have bo: "blocks_of sha B bl" using rd by (simp add: ready_def)
  have i: "i < length (nodes B)" using Cons.prems(2) by simp
  with Cons.prems(3) have nd: "nd = nodes B ! i" and ns: "ns = drop (Suc i) (nodes B)"
    by (simp_all add: Cons_nth_drop_Suc [symmetric])
  have "target_error ext env (nodes B ! i) = None"
    using t nth_mem [OF i] by (auto simp: target_errors_def split: option.splits)
  then have now: "emit_step ext env B bl kinds moves depth i nd = Inl x \<Longrightarrow> body_refusal x"
    using emit_step_refusal [OF rd i, of depth ext env x] Cons.prems(4) nd by simp
  have later: "body_refusal x" if "emit_step ext env B bl kinds moves depth i nd = Inr (ys, depth')"
    "emit_items ext env B bl kinds moves depth' (Suc i) ns = Inl x" for ys depth'
    using emit_step_depth [OF bo i Cons.prems(4)] that nd by (intro Cons.IH [OF that(2) _ ns]) (use Cons.prems(2) in auto)
  from Cons.prems(1) show ?case using now later by (auto simp: bindE_eq_Inl)
qed simp

section \<open>Symbols\<close>

text \<open>
  The symbol of every identity seen is declared, the function's own excepted: its export is in the same file.
\<close>

definition declared :: "emit_env \<Rightarrow> hash256 \<Rightarrow> hash256 list \<times> rstring list \<Rightarrow> bool" where
  "declared env self st \<longleftrightarrow>
     (\<forall>idn s. idn \<in> set (fst st) \<longrightarrow> xbundle env idn = Some s \<longrightarrow> idn = self \<or> s \<in> set (snd st))"

lemma declared_step:
  assumes "declared env self (seen, syms)" "xbundle env idn = Some s"
  shows "declared env self (if idn \<in> set seen then (seen, syms) else (idn # seen, syms @ [s]))"
  using assms by (auto simp: declared_def)

lemma extern_calls_declared:
  assumes "declared env self st"
  shows "declared env self (extern_calls env ns st) \<and> set (fst st) \<subseteq> set (fst (extern_calls env ns st)) \<and>
    (\<forall>idn as tname. CCall idn as tname \<in> set ns \<longrightarrow> xbundle env idn \<noteq> None \<longrightarrow> idn \<in> set (fst (extern_calls env ns st)))"
  using assms
proof (induction ns arbitrary: st)
  case (Cons nd ns)
  obtain seen syms where st: "st = (seen, syms)" by (cases st)
  show ?case
  proof (cases "\<exists>idn as tname s. nd = CCall idn as tname \<and> xbundle env idn = Some s")
    case True
    then obtain idn as tname s where nd: "nd = CCall idn as tname" "xbundle env idn = Some s" by blast
    define st' where "st' = (if idn \<in> set seen then (seen, syms) else (idn # seen, syms @ [s]))"
    have "extern_calls env (nd # ns) st = extern_calls env ns st'" by (simp add: st nd st'_def)
    moreover have "set (fst st) \<union> {idn} \<subseteq> set (fst st')" by (auto simp: st st'_def)
    moreover have "declared env self st'" unfolding st'_def using declared_step [OF Cons.prems [unfolded st] nd(2)] .
    ultimately show ?thesis using Cons.IH [of st'] nd(1) by (fastforce simp del: extern_calls.simps)
  next
    case False
    then have "extern_calls env (nd # ns) st = extern_calls env ns st"
      by (auto simp: st split: node.splits option.splits)
    moreover have "xbundle env idn \<noteq> None \<Longrightarrow> CCall idn as tname \<in> set (nd # ns) \<Longrightarrow> CCall idn as tname \<in> set ns"
      for idn as tname using False by auto
    ultimately show ?thesis using Cons.IH [OF Cons.prems] by metis
  qed
qed simp

lemma extern_refs_acc:
  "set syms \<subseteq> set (fst (extern_refs ext env es (seen, syms) (seen_x, xsyms))) \<and>
   set xsyms \<subseteq> set (snd (extern_refs ext env es (seen, syms) (seen_x, xsyms)))"
proof (induction es arbitrary: seen syms seen_x xsyms)
  case (Cons e es)
  let ?idn = "payload e"
  show ?case
  proof (cases "if is_fn_entry ext e then xbundle env ?idn else None")
    case (Some s)
    then show ?thesis
      using Cons.IH [of syms seen seen_x xsyms] Cons.IH [of "syms @ [s]" "?idn # seen" seen_x xsyms]
        Cons.IH [of syms seen "?idn # seen_x" "xsyms @ [s]"]
        Cons.IH [of "syms @ [s]" "?idn # seen" "?idn # seen_x" "xsyms @ [s]"]
      by (auto simp: Let_def)
  qed (use Cons.IH in \<open>simp add: Let_def\<close>)
qed simp

lemma extern_refs_declared:
  assumes "declared env self (seen, syms)" "\<And>idn s. idn \<in> set seen_x \<Longrightarrow> xbundle env idn = Some s \<Longrightarrow> s \<in> set xsyms"
    and "e \<in> set es" "is_fn_entry ext e" "xbundle env (payload e) = Some s"
    and r: "extern_refs ext env es (seen, syms) (seen_x, xsyms) = (externs, xfns)"
  shows "s \<in> set xfns \<and> (payload e = self \<or> s \<in> set externs)"
  using assms
proof (induction es arbitrary: seen syms seen_x xsyms)
  case (Cons e' es)
  let ?idn = "payload e'"
  show ?case
  proof (cases "if is_fn_entry ext e' then xbundle env ?idn else None")
    case None
    with Cons.prems(3-5) have "e \<in> set es" by auto
    then show ?thesis using None Cons.prems by (intro Cons.IH) (auto simp: Let_def)
  next
    case (Some s')
    let ?st = "if ?idn \<in> set seen then (seen, syms) else (?idn # seen, syms @ [s'])"
    let ?sx = "if ?idn \<in> set seen_x then (seen_x, xsyms) else (?idn # seen_x, xsyms @ [s'])"
    have xs: "xbundle env ?idn = Some s'" using Some by (auto split: if_splits)
    have run: "extern_refs ext env es (fst ?st, snd ?st) (fst ?sx, snd ?sx) = (externs, xfns)"
      using Cons.prems(6) Some by (simp add: Let_def)
    have d: "declared env self (fst ?st, snd ?st)" using declared_step [OF Cons.prems(1) xs] by simp
    have dx: "\<And>idn t. idn \<in> set (fst ?sx) \<Longrightarrow> xbundle env idn = Some t \<Longrightarrow> t \<in> set (snd ?sx)"
      using Cons.prems(2) xs by (auto split: if_splits)
    show ?thesis
    proof (cases "e = e'")
      case True
      then have "s' = s" "?idn \<in> set (fst ?st)" "?idn \<in> set (fst ?sx)" using Cons.prems(5) xs by auto
      then have "s \<in> set (snd ?sx)" "?idn = self \<or> s \<in> set (snd ?st)" using dx d xs by (auto simp: declared_def)
      then show ?thesis using extern_refs_acc [of "snd ?st" ext env es "fst ?st" "fst ?sx" "snd ?sx"] run True
        by (auto simp del: if_split)
    next
      case False
      then show ?thesis using Cons.prems(3-5) by (intro Cons.IH [OF d dx _ _ _ run]) auto
    qed
  qed
qed simp

lemma vfn_scan_complete:
  assumes "e \<in> set es" "is_fn_entry ext e" "payload e \<notin> set seen" "vfn_of env (payload e) = Some v"
  shows "v \<in> set (vfn_scan ext env es seen)"
  using assms
proof (induction es arbitrary: seen)
  case (Cons a es)
  show ?case
  proof (cases "is_fn_entry ext a \<and> payload a = payload e")
    case True
    then show ?thesis using Cons.prems by simp
  next
    case False
    then have "e \<in> set es" "payload e \<notin> set (payload a # seen) \<or> \<not> is_fn_entry ext a" using Cons.prems by auto
    then show ?thesis using Cons.IH [of seen] Cons.IH [of "payload a # seen"] Cons.prems by auto
  qed
qed simp

lemma classify_pool_nth:
  assumes "classify_pool ext env i es = Inr ks" "k < length es"
  shows "classify_pool_entry ext env (es ! k) = Inr (ks ! k)"
  using assms
proof (induction es arbitrary: i ks k)
  case (Cons e es)
  then obtain x xs where x: "classify_pool_entry ext env e = Inr x" "classify_pool ext env (Suc i) es = Inr xs" "ks = x # xs"
    by (auto split: sum.splits)
  then show ?case using Cons.IH [OF x(2)] Cons.prems(2) by (cases k) auto
qed simp

text \<open>The path a pool entry is called through.\<close>

lemma callee_provided:
  assumes "classify_pool_entry ext env e = Inr (PFnRef p)"
  shows "is_fn_entry ext e \<and>
    ((\<exists>name path. vfn_of env (payload e) = Some (name, path) \<and> p = name @ lit ''_vfn'') \<or>
     (\<exists>s. xbundle env (payload e) = Some s \<and> p = s @ lit ''_xfn'') \<or>
     builtin env (payload e) = Some p \<or>
     (\<exists>name. registry env (payload e) = Some name \<and> name_to_path env name = Some p))"
proof -
  from assms have c: "def_hash e = fn_type_hash (x_sha ext)" "classify_fn env (payload e) = Inr (PFnRef p)"
    by (auto simp: classify_pool_entry_def Let_def split: if_splits)
  then show ?thesis
    by (auto simp: classify_fn_def fn_ref_kind_def vfn_of_def is_fn_entry_def split: if_splits option.splits)
qed

section \<open>Accepted files\<close>

lemma write_node_nonempty: "write_node nd \<noteq> []"
  by (cases nd) auto

lemma nodes_serialized: "length (nodes B) < length (serialize_canonical B)"
proof -
  have "length ns \<le> length (concat (map write_node ns))" for ns
  proof (induction ns)
    case (Cons nd ns)
    then show ?case using write_node_nonempty [of nd] by (cases "write_node nd") auto
  qed simp
  from this [of "nodes B"] have "length (nodes B) \<le> length (concat (map write_node (nodes B)))" .
  moreover have "0 < length (write_noderef (result B))" by simp
  ultimately show ?thesis unfolding serialize_canonical_def length_append by linarith
qed

lemma parsed_bundle:
  assumes "parse_axbi sha bs = Inr B" "length bs \<le> 2 ^ 32"
  shows "bundle_ok B \<and> (\<exists>bl. verify_blocks sha B = Inr bl) \<and> length (nodes B) < 2 ^ 32"
proof -
  have d: "deserialize_canonical sha (drop 6 bs) = Inr B" "length (drop 6 bs) \<le> 2 ^ 32"
    using parse_axbi_InrD [OF assms(1)] assms(2) by auto
  from serialize_deserialize [OF d] show ?thesis using nodes_serialized [of B] assms(2) by auto
qed

fun pool_refusal :: "emit_error \<Rightarrow> bool" where
  "pool_refusal ZeroDefHash = True"
| "pool_refusal (PayloadRefused _) = True"
| "pool_refusal (SlotTooBig _) = True"
| "pool_refusal (FnPayloadLength _) = True"
| "pool_refusal (HofNotACallee _) = True"
| "pool_refusal (NoImplementation _ _) = True"
| "pool_refusal (UnknownFnIdentity _) = True"
| "pool_refusal (UnknownPoolType _) = True"
| "pool_refusal _ = False"

text \<open>The refusals of \<open>emit_unit\<close>; the one panic is the arity of a bundle that uses slot \<open>2^32 - 1\<close>.\<close>

fun unit_refusal :: "emit_error \<Rightarrow> bool" where
  "unit_refusal (UnresolvedTargets ts) \<longleftrightarrow> ts \<noteq> []"
| "unit_refusal (ChannelNameRefused _) \<longleftrightarrow> True"
| "unit_refusal (UndeclaredChannel _) \<longleftrightarrow> True"
| "unit_refusal (AtPool i e) \<longleftrightarrow> pool_refusal e"
| "unit_refusal (EmitPanic m) \<longleftrightarrow> m = ''attempt to add with overflow''"
| "unit_refusal e \<longleftrightarrow> body_refusal e"

lemma classify_refusal: "classify_pool_entry ext env e = Inl x \<Longrightarrow> pool_refusal x"
  by (auto simp: classify_pool_entry_def Let_def payloadE_def classify_fn_def fn_ref_kind_def bindE_eq_Inl
      split: if_splits option.splits sum.splits)

lemma classify_pool_refusal: "classify_pool ext env i es = Inl x \<Longrightarrow> unit_refusal x"
  by (induction es arbitrary: i) (auto simp: bindE_eq_Inl split: sum.splits dest: classify_refusal)

lemma channel_checks_refusal: "channel_checks ext B channels ns = Inl x \<Longrightarrow> unit_refusal x"
  by (induction ns) (auto simp: bindE_eq_Inl channel_check_def split: node.splits if_splits list.splits node_ref.splits sum.splits)

lemma body_unit_refusal: "body_refusal x \<Longrightarrow> unit_refusal x"
  by (cases x) auto

lemma emit_unit_refusal:
  assumes ok: "bundle_ok B" "length (nodes B) < 2 ^ 32" "verify_blocks (x_sha ext) B = Inr bl"
    and e: "emit_unit ext env B fn_name channels crates = Inl x"
  shows "unit_refusal x"
proof (cases "target_errors ext env (nodes B) = []")
  case True
  have body: "unit_refusal x" if "classify_pool ext env 0 (constant_pool B) = Inr kinds"
    "emit_items ext env B bl kinds (last_uses B (top_level B bl)) 1 0 (nodes B) = Inl x" for kinds
    using emit_items_refusal [OF bundle_ok_ready [OF ok classify_pool_length [OF that(1)]] True that(2)]
    by (intro body_unit_refusal) simp
  from e True ok(3) show ?thesis
    by (auto simp: emit_unit_def Let_def bindE_eq_Inl blocksE_def param_count_def gate_data_ref_def
        dest: channel_checks_refusal classify_pool_refusal body split: prod.splits if_splits)
next
  case False
  with e show ?thesis by (auto simp: emit_unit_def Let_def)
qed

end
