(* ===== verification/EmitClaims.thy ===== *)
theory EmitClaims
  imports EmitErrors
begin

text \<open>
  The properties of the emitter, for every bundle that \<open>parse_axbi\<close> accepts, every registry and every table.
\<close>

section \<open>A sample environment\<close>

text \<open>
  The sample bundle's one call goes to another crate. The second environment resolves every identity to one builtin
  with a native calling convention.
\<close>

definition sample_externals :: externals where
  "sample_externals = \<lparr>x_sha = demo_sha, x_dec = (\<lambda>b. b), x_dbg = (\<lambda>s. dq @ s @ dq), x_alnum = (\<lambda>_. False)\<rparr>"

definition sample_env :: emit_env where
  "sample_env =
     \<lparr>builtin = (\<lambda>_. None), registry = (\<lambda>_. None), name_to_path = (\<lambda>_. None), xbundle = (\<lambda>_. Some (lit ''int_eq'')),
      arg_kind_table = (\<lambda>_. None), native_call_table = (\<lambda>_. None), pure_det = (\<lambda>_. True)\<rparr>"

lemma demo_hash_eq: "demo_sha [1, 0, a] = demo_sha [1, 0, b] \<longleftrightarrow> a = b"
  by (simp add: demo_sha_def)

lemma demo_hash_nonzero: "demo_sha [1, 0, a] \<noteq> replicate 32 0"
proof
  assume "demo_sha [1, 0, a] = replicate 32 0"
  then have "hd (demo_sha [1, 0, a]) = hd (replicate 32 0)" by simp
  then show False by (simp add: demo_sha_def)
qed

lemmas type_hash_defs = primitive_type_hash_def unit_type_hash_def bool_type_hash_def int_type_hash_def text_type_hash_def
  float_type_hash_def dec_type_hash_def param_type_hash_def fn_type_hash_def

lemma sample_payloads:
  "decode_unsigned_varint [0] = Inr 0" "decode_text_payload [4, 0x6e, 0x6f, 0x6e, 0x65] = Inr [0x6e, 0x6f, 0x6e, 0x65]"
  "\<exists>v. decode_int_payload [0xd7, 0x04] = Inr v"
  by (simp_all add: decode_unsigned_varint_def decode_text_payload_def decode_bytes_payload_def decode_int_payload_def
      utf8_valid_def utf8_valid_ascii)

lemma sample_kinds:
  "\<exists>a b. classify_pool sample_externals sample_env 0 (constant_pool sample_bundle) = Inr [PParam 0, PData a, PData b]"
  using sample_payloads(3)
  by (auto simp: sample_bundle_def sample_externals_def classify_pool_entry_def Let_def type_hash_defs demo_hash_eq demo_hash_nonzero
      payloadE_def sample_payloads(1,2))

lemma sample_emits: "\<exists>u. emit_unit sample_externals sample_env sample_bundle (lit ''f'') [] [] = Inr u"
proof -
  from sample_kinds obtain a b where
    k: "classify_pool sample_externals sample_env 0 (constant_pool sample_bundle) = Inr [PParam 0, PData a, PData b]" by blast
  have "target_errors sample_externals sample_env (nodes sample_bundle) = []"
    by (simp add: sample_bundle_def sample_env_def target_errors_def target_error_def)
  moreover have "channel_checks sample_externals sample_bundle [] (nodes sample_bundle) = Inr ()"
    by (simp add: sample_bundle_def channel_check_def sample_externals_def type_hash_defs demo_hash_eq)
  moreover have "\<exists>xs. emit_items sample_externals sample_env sample_bundle sample_blocks [PParam 0, PData a, PData b] moves
      1 0 (nodes sample_bundle) = Inr xs" for moves
    by (simp add: sample_bundle_def sample_blocks_def sample_env_def emit_step_def node_code_of_def call_code_def
        resolve_target_def count_gate_def data_operand_def is_fn_ref_def open_item_def gate_data_ref_def native_at_def)
  moreover have "verify_blocks (x_sha sample_externals) sample_bundle = Inr sample_blocks"
    by (simp add: sample_externals_def sample_verifies)
  moreover have "gate_data_ref (result sample_bundle) l kinds = Inr ()" for l kinds
    by (simp add: sample_bundle_def gate_data_ref_def is_fn_ref_def)
  moreover have "param_count [PParam 0, PData a, PData b] = Inr 1" by (simp add: param_count_def param_slots_def)
  ultimately show ?thesis by (auto simp: emit_unit_def k blocksE_def Let_def split: prod.split)
qed

lemma sample_parses: "parse_axbi demo_sha (serialize_axbi sample_bundle) = Inr sample_bundle"
  unfolding serialize_axbi_def parse_axbi_header by (rule deserialize_serialize [OF sample_ok sample_verifies])

lemma sample_short: "length (serialize_axbi sample_bundle) = 170"
  by code_simp

section \<open>Properties\<close>

text \<open>
  C9. The generated body obeys Rust's rules of scope and ownership: for every file \<open>parse_axbi\<close> accepts and
  \<open>emit_unit\<close> turns into a function, each value is used only where its variable is in scope and has not been moved
  on any path, whatever last-use moves and native accessors the emitter chose, and the result is available at the end.
\<close>

theorem generated_body_owned:
  assumes "parse_axbi (x_sha ext) bs = Inr B" "length bs \<le> 2 ^ 32"
    and "emit_unit ext env B fn_name channels crates = Inr u"
  shows "body_owned (ru_kinds u) (ru_items u) (ru_result u)"
  using unit_body_owned [OF _ _ assms(3)] parsed_bundle [OF assms(1,2)] by blast

theorem generated_body_owned_witness:
  "\<exists>u. emit_unit sample_externals sample_env sample_bundle (lit ''f'') [] [] = Inr u
    \<and> body_owned (ru_kinds u) (ru_items u) (ru_result u)"
proof -
  from sample_emits obtain u where u: "emit_unit sample_externals sample_env sample_bundle (lit ''f'') [] [] = Inr u" ..
  moreover have "parse_axbi (x_sha sample_externals) (serialize_axbi sample_bundle) = Inr sample_bundle"
    by (simp add: sample_externals_def sample_parses)
  ultimately show ?thesis using generated_body_owned [of sample_externals "serialize_axbi sample_bundle"] sample_short by auto
qed

text \<open>
  C10. Emission of a loaded bundle fails for named reasons only: unresolved targets, an undeclared channel, a refused pool
  entry, a type gate on a call's arguments or a callee used as data. The block verifier's refusals, unresolved
  calls past the target check, out-of-range indices and the emitter's panics are unreachable, with one
  exception: the overflow of the arity for slot \<open>2^32 - 1\<close>.
\<close>

theorem emission_refusals:
  assumes "parse_axbi (x_sha ext) bs = Inr B" "length bs \<le> 2 ^ 32"
    and "emit_unit ext env B fn_name channels crates = Inl e"
  shows "unit_refusal e"
  using emit_unit_refusal [OF _ _ _ assms(3)] parsed_bundle [OF assms(1,2)] by blast

theorem emission_refusals_witness: "unit_refusal (UnresolvedTargets [UnknownGate (replicate 32 7)])"
proof -
  let ?env = "sample_env\<lparr>xbundle := \<lambda>_. None\<rparr>"
  have "target_errors sample_externals ?env (nodes sample_bundle) = [UnknownGate (replicate 32 7)]"
  proof -
    have "hd (demo_sha [0x69, 0x6e, 0x74, 0x5f, 0x65, 0x71]) \<noteq> hd (replicate 32 7)" by (simp add: demo_sha_def)
    then have "demo_sha [0x69, 0x6e, 0x74, 0x5f, 0x65, 0x71] \<noteq> replicate 32 7" by metis
    then show ?thesis by (simp add: sample_bundle_def sample_env_def sample_externals_def target_errors_def target_error_def)
  qed
  then have "emit_unit sample_externals ?env sample_bundle [] [] [] = Inl (UnresolvedTargets [UnknownGate (replicate 32 7)])"
    by (simp add: emit_unit_def)
  moreover have "parse_axbi (x_sha sample_externals) (serialize_axbi sample_bundle) = Inr sample_bundle"
    by (simp add: sample_externals_def sample_parses)
  ultimately show ?thesis using emission_refusals [of sample_externals "serialize_axbi sample_bundle"] sample_short by simp
qed

text \<open>
  C11. Every symbol the generated file relies on is provided: a call into another crate has its \<open>extern\<close>
  declaration (or is the function itself), and the path of every callee is a native builtin's adapter that the file
  defines, an external adapter that it defines over a declared symbol, or a builtin's own path.
\<close>

theorem symbols_provided:
  assumes u: "emit_unit ext env B fn_name channels crates = Inr u"
  shows "(\<forall>idn as tname s. CCall idn as tname \<in> set (nodes B) \<longrightarrow> xbundle env idn = Some s \<longrightarrow>
      s \<in> set (ru_externs u) \<or> idn = x_sha ext fn_name) \<and>
    (\<forall>k p idn. k < length (constant_pool B) \<longrightarrow> ru_kinds u ! k = PFnRef p \<longrightarrow> idn = payload (constant_pool B ! k) \<longrightarrow>
      (\<exists>name path. (name, path) \<in> set (ru_vfns u) \<and> p = name @ lit ''_vfn'') \<or>
      (\<exists>s. s \<in> set (ru_xfns u) \<and> p = s @ lit ''_xfn'' \<and> (s \<in> set (ru_externs u) \<or> idn = x_sha ext fn_name)) \<or>
      builtin env idn = Some p \<or> (\<exists>name. registry env idn = Some name \<and> name_to_path env name = Some p))"
proof (intro conjI allI impI)
  let ?self = "x_sha ext fn_name"
  obtain seen syms where st: "extern_calls env (nodes B) ([?self], []) = (seen, syms)" by fastforce
  from emit_unit_InrD [OF u] have pool: "classify_pool ext env 0 (constant_pool B) = Inr (ru_kinds u)"
    and vf: "ru_vfns u = vfn_scan ext env (constant_pool B) []"
    and refs: "extern_refs ext env (constant_pool B) (seen, syms) ([], []) = (ru_externs u, ru_xfns u)"
    unfolding st by metis+
  have "declared env ?self ([?self], [])" by (simp add: declared_def)
  from extern_calls_declared [OF this, of "nodes B"] have d: "declared env ?self (seen, syms)"
    and calls: "\<And>idn as tname. CCall idn as tname \<in> set (nodes B) \<Longrightarrow> xbundle env idn \<noteq> None \<Longrightarrow> idn \<in> set seen"
    unfolding st by auto
  have sub: "set syms \<subseteq> set (ru_externs u)" using extern_refs_acc [of syms ext env "constant_pool B" seen "[]" "[]"] refs by simp
  show "s \<in> set (ru_externs u) \<or> idn = ?self" if "CCall idn as tname \<in> set (nodes B)" "xbundle env idn = Some s"
    for idn as tname s using calls [OF that(1)] that(2) d sub by (auto simp: declared_def)
  fix k p idn
  assume k: "k < length (constant_pool B)" "ru_kinds u ! k = PFnRef p" "idn = payload (constant_pool B ! k)"
  have e: "constant_pool B ! k \<in> set (constant_pool B)" using k(1) by simp
  from classify_pool_nth [OF pool k(1)] k(2) have "classify_pool_entry ext env (constant_pool B ! k) = Inr (PFnRef p)" by simp
  from callee_provided [OF this] have f: "is_fn_entry ext (constant_pool B ! k)" and
    c: "(\<exists>name path. vfn_of env idn = Some (name, path) \<and> p = name @ lit ''_vfn'') \<or>
      (\<exists>s. xbundle env idn = Some s \<and> p = s @ lit ''_xfn'') \<or>
      builtin env idn = Some p \<or> (\<exists>name. registry env idn = Some name \<and> name_to_path env name = Some p)"
    unfolding k(3) by blast+
  have v: "vfn_of env idn = Some w \<Longrightarrow> w \<in> set (ru_vfns u)" for w
    using vfn_scan_complete [OF e f, of "[]" env w] unfolding vf k(3) by simp
  have x: "xbundle env idn = Some s \<Longrightarrow> s \<in> set (ru_xfns u) \<and> (s \<in> set (ru_externs u) \<or> idn = ?self)" for s
    using extern_refs_declared [OF d _ e f _ refs, of s] unfolding k(3) by auto
  from c v x show "(\<exists>name path. (name, path) \<in> set (ru_vfns u) \<and> p = name @ lit ''_vfn'') \<or>
      (\<exists>s. s \<in> set (ru_xfns u) \<and> p = s @ lit ''_xfn'' \<and> (s \<in> set (ru_externs u) \<or> idn = ?self)) \<or>
      builtin env idn = Some p \<or> (\<exists>name. registry env idn = Some name \<and> name_to_path env name = Some p)"
    by metis
qed

theorem symbols_provided_witness:
  "\<exists>u. emit_unit sample_externals sample_env sample_bundle (lit ''f'') [] [] = Inr u \<and> lit ''int_eq'' \<in> set (ru_externs u)"
proof -
  from sample_emits obtain u where u: "emit_unit sample_externals sample_env sample_bundle (lit ''f'') [] [] = Inr u" ..
  have "hd (replicate 32 7) \<noteq> hd (demo_sha (lit ''f''))" by (simp add: demo_sha_def lit_def of_char_def)
  then have "replicate 32 7 \<noteq> demo_sha (lit ''f'')" by metis
  then have "replicate 32 7 \<noteq> x_sha sample_externals (lit ''f'')" by (simp add: sample_externals_def)
  moreover have "CCall (replicate 32 7) [Pool 0, Pool 2] [0x69, 0x6e, 0x74, 0x5f, 0x65, 0x71] \<in> set (nodes sample_bundle)"
    by (simp add: sample_bundle_def)
  ultimately show ?thesis using symbols_provided [OF u] u by (fastforce simp: sample_env_def)
qed

text \<open>
  C12. Every parameter the pool binds exists: its slot is below the function's arity, and the pool entry that takes a
  parameter without a clone is the only one for its slot, so no parameter is moved twice.
\<close>

theorem params_bound_once:
  assumes u: "emit_unit ext env B fn_name channels crates = Inr u"
    and k: "k < length (ru_kinds u)" "ru_kinds u ! k = PParam slot"
  shows "unat slot < ru_params u \<and>
    (param_take (ru_kinds u) (unat slot) = [] \<longrightarrow> (\<forall>j < length (ru_kinds u). ru_kinds u ! j = PParam slot \<longrightarrow> j = k))"
proof
  have slot: "unat slot \<in> set (param_slots (ru_kinds u))"
    using k nth_mem [OF k(1)] by (auto simp: param_slots_def intro!: bexI [of _ "ru_kinds u ! k"])
  from emit_unit_InrD [OF u] have "param_count (ru_kinds u) = Inr (ru_params u)" by metis
  then have "ru_params u = foldr max (map Suc (param_slots (ru_kinds u))) 0" by (auto simp: param_count_def split: if_splits)
  with slot show "unat slot < ru_params u" using foldr_max_ge [of "Suc (unat slot)" "map Suc (param_slots (ru_kinds u))"] by simp
  have slots: "length (filter (\<lambda>s. s = unat slot) (param_slots ks)) = length (filter (\<lambda>x. x = PParam slot) ks)" for ks
    by (induction ks) (auto simp: param_slots_def word_unat_eq_iff split: pool_kind.split)
  show "param_take (ru_kinds u) (unat slot) = [] \<longrightarrow> (\<forall>j < length (ru_kinds u). ru_kinds u ! j = PParam slot \<longrightarrow> j = k)"
  proof (intro impI allI)
    fix j assume one: "param_take (ru_kinds u) (unat slot) = []" and j: "j < length (ru_kinds u)" "ru_kinds u ! j = PParam slot"
    from one have "length (filter (\<lambda>x. x = PParam slot) (ru_kinds u)) = 1"
      by (simp add: param_take_def slots lit_def split: if_splits)
    then have "card {i. i < length (ru_kinds u) \<and> ru_kinds u ! i = PParam slot} = 1"
      by (simp only: length_filter_conv_card)
    then obtain i where "{i. i < length (ru_kinds u) \<and> ru_kinds u ! i = PParam slot} = {i}" by (auto simp: card_1_singleton_iff)
    with j k have "j = i" "k = i" by blast+
    then show "j = k" by simp
  qed
qed

theorem params_bound_once_witness:
  "\<exists>u. emit_unit sample_externals sample_env sample_bundle (lit ''f'') [] [] = Inr u \<and> 0 < ru_params u"
proof -
  from sample_emits obtain u where u: "emit_unit sample_externals sample_env sample_bundle (lit ''f'') [] [] = Inr u" ..
  from emit_unit_InrD [OF u] sample_kinds have "0 < length (ru_kinds u)" "ru_kinds u ! 0 = PParam 0" by (metis length_Cons nth_Cons_0 sum.inject(2) zero_less_Suc)+
  from params_bound_once [OF u this] u show ?thesis by auto
qed


text \<open>The environment of the next witnesses: every identity is one builtin with a native convention.\<close>

definition native_env :: emit_env where
  "native_env =
     \<lparr>builtin = (\<lambda>_. Some (lit ''arith::value_eq'')), registry = (\<lambda>_. None), name_to_path = (\<lambda>_. None),
      xbundle = (\<lambda>_. None), arg_kind_table = (\<lambda>_. None), native_call_table = (\<lambda>_. Some [NValue, NValue]),
      pure_det = (\<lambda>h. h = [1])\<rparr>"


text \<open>
  Adapters are deduplicated by identity and not by the name they define: two pool entries that name one native
  builtin under two registered names give two definitions of the same adapter, which Rust refuses.
\<close>

theorem aliased_adapters_defined_twice:
  assumes "is_fn_entry ext e1" "is_fn_entry ext e2" "payload e1 \<noteq> payload e2"
    and "builtin env (payload e1) = Some path" "builtin env (payload e2) = Some path"
    and "native_call_table env (last_segment path) \<noteq> None"
  shows "vfn_scan ext env [e1, e2] [] = [(last_segment path, path), (last_segment path, path)]"
  using assms by (simp add: vfn_of_def Let_def)

theorem aliased_adapters_defined_twice_witness:
  "vfn_scan sample_externals native_env
     [\<lparr>def_hash = demo_sha [1, 0, 8], payload = replicate 32 1\<rparr>, \<lparr>def_hash = demo_sha [1, 0, 8], payload = replicate 32 2\<rparr>] [] =
   [(last_segment (lit ''arith::value_eq''), lit ''arith::value_eq''),
    (last_segment (lit ''arith::value_eq''), lit ''arith::value_eq'')]"
proof (rule aliased_adapters_defined_twice)
  have "hd (replicate 32 (1 :: u8)) \<noteq> hd (replicate 32 2)" by simp
  then show "payload \<lparr>def_hash = demo_sha [1, 0, 8], payload = replicate 32 1\<rparr> \<noteq>
    payload \<lparr>def_hash = demo_sha [1, 0, 8], payload = replicate 32 2\<rparr>" by (metis pool_entry.select_convs(2))
qed (simp_all add: is_fn_entry_def sample_externals_def type_hash_defs native_env_def)

end
