(* ===== verification/Dispatch.thy ===== *)
theory Dispatch
  imports RustStr BuiltinTables
begin

text \<open>
  The \<open>--dispatch\<close> files (\<open>src/src/emit/rust_05.rs\<close>): the hand-written TOML reader and the merge of its entries
  into a \<open>dispatch_overlay\<close>. A refusal is a constructor; the line it is at is kept, the file name and the wording
  are not. Reading a file is a parameter: its text, or nothing when it cannot be read.
\<close>

section \<open>Values\<close>

datatype dispatch_error =
    NotQuoted nat
  | BadEscape nat code_point
  | DanglingEscape nat
  | NotArray nat
  | KeyOutside nat
  | NotKeyValue nat
  | UnknownKey nat str
  | MissingName
  | MissingPath str
  | Conflict str
  | UnknownNative str str
  | UnknownKind str str
  | Unreadable

record raw_dispatch_entry =
  de_name :: "str option"
  de_path :: "str option"
  de_native_args :: "str list option"
  de_arg_kinds :: "str list option"

definition default_entry :: raw_dispatch_entry where
  "default_entry = \<lparr>de_name = None, de_path = None, de_native_args = None, de_arg_kinds = None\<rparr>"

text \<open>What precedes the first number sign outside quotes, if there is one.\<close>

fun before_comment :: "bool \<Rightarrow> str \<Rightarrow> str option" where
  "before_comment in_quotes [] = None"
| "before_comment in_quotes (c # cs) =
     (if c = 0x22 then map_option (Cons c) (before_comment (\<not> in_quotes) cs)
      else if c = 0x23 \<and> \<not> in_quotes then Some []
      else map_option (Cons c) (before_comment in_quotes cs))"

definition strip_toml_comment :: "str \<Rightarrow> str" where
  "strip_toml_comment s = (case before_comment False s of Some p \<Rightarrow> trim_end p | None \<Rightarrow> s)"

fun unescape :: "nat \<Rightarrow> str \<Rightarrow> dispatch_error + str" where
  "unescape line [] = Inr []"
| "unescape line (c # cs) =
     (if c \<noteq> 0x5c then bindE (unescape line cs) (\<lambda>out. Inr (c # out))
      else (case cs of
          [] \<Rightarrow> Inl (DanglingEscape line)
        | d # ds \<Rightarrow>
            if d = 0x22 then bindE (unescape line ds) (\<lambda>out. Inr (0x22 # out))
            else if d = 0x5c then bindE (unescape line ds) (\<lambda>out. Inr (0x5c # out))
            else if d = 0x6e then bindE (unescape line ds) (\<lambda>out. Inr (10 # out))
            else if d = 0x74 then bindE (unescape line ds) (\<lambda>out. Inr (9 # out))
            else Inl (BadEscape line d)))"

definition parse_toml_string :: "str \<Rightarrow> nat \<Rightarrow> dispatch_error + str" where
  "parse_toml_string v line =
     (let v = trim v in
      if length v < 2 \<or> hd v \<noteq> 0x22 \<or> last v \<noteq> 0x22 then Inl (NotQuoted line)
      else unescape line (butlast (tl v)))"

text \<open>The pieces between commas that are outside quotes.\<close>

fun array_pieces :: "bool \<Rightarrow> str \<Rightarrow> str \<Rightarrow> str list" where
  "array_pieces in_quotes piece [] = [piece]"
| "array_pieces in_quotes piece (c # cs) =
     (if c = 0x22 then array_pieces (\<not> in_quotes) (piece @ [c]) cs
      else if c = 0x2c \<and> \<not> in_quotes then piece # array_pieces in_quotes [] cs
      else array_pieces in_quotes (piece @ [c]) cs)"

fun parse_pieces :: "nat \<Rightarrow> str list \<Rightarrow> dispatch_error + str list" where
  "parse_pieces line [] = Inr []"
| "parse_pieces line (p # ps) =
     (if trim p = [] then parse_pieces line ps
      else bindE (parse_toml_string (trim p) line) (\<lambda>x. bindE (parse_pieces line ps) (\<lambda>xs. Inr (x # xs))))"

definition parse_toml_string_array :: "str \<Rightarrow> nat \<Rightarrow> dispatch_error + str list" where
  "parse_toml_string_array v line =
     (let v = trim v in
      if v = [] \<or> hd v \<noteq> 0x5b \<or> last v \<noteq> 0x5d then Inl (NotArray line)
      else parse_pieces line (array_pieces False [] (butlast (tl v))))"

section \<open>Documents\<close>

definition set_key :: "nat \<Rightarrow> str \<Rightarrow> str \<Rightarrow> raw_dispatch_entry \<Rightarrow> dispatch_error + raw_dispatch_entry" where
  "set_key line key v e =
     (let key = trim key in
      if key = chs ''name'' then bindE (parse_toml_string v line) (\<lambda>s. Inr (e\<lparr>de_name := Some s\<rparr>))
      else if key = chs ''path'' then bindE (parse_toml_string v line) (\<lambda>s. Inr (e\<lparr>de_path := Some s\<rparr>))
      else if key = chs ''native_args'' then
        bindE (parse_toml_string_array v line) (\<lambda>xs. Inr (e\<lparr>de_native_args := Some xs\<rparr>))
      else if key = chs ''arg_kinds'' then
        bindE (parse_toml_string_array v line) (\<lambda>xs. Inr (e\<lparr>de_arg_kinds := Some xs\<rparr>))
      else Inl (UnknownKey line key))"

definition close_entry :: "raw_dispatch_entry list \<times> raw_dispatch_entry option \<Rightarrow> raw_dispatch_entry list" where
  "close_entry st = fst st @ (case snd st of Some e \<Rightarrow> [e] | None \<Rightarrow> [])"

definition toml_line :: "nat \<Rightarrow> str \<Rightarrow> raw_dispatch_entry list \<times> raw_dispatch_entry option
    \<Rightarrow> dispatch_error + raw_dispatch_entry list \<times> raw_dispatch_entry option" where
  "toml_line line_no raw_line st =
     (let line = strip_toml_comment (trim raw_line) in
      if line = [] then Inr st
      else if line = chs ''[[fn]]'' then Inr (close_entry st, Some default_entry)
      else case snd st of
        None \<Rightarrow> Inl (KeyOutside line_no)
      | Some e \<Rightarrow>
          (case split_once 0x3d line of
             None \<Rightarrow> Inl (NotKeyValue line_no)
           | Some (key, v) \<Rightarrow> bindE (set_key line_no key v e) (\<lambda>e'. Inr (fst st, Some e'))))"

fun toml_lines :: "nat \<Rightarrow> str list \<Rightarrow> raw_dispatch_entry list \<times> raw_dispatch_entry option
    \<Rightarrow> dispatch_error + raw_dispatch_entry list \<times> raw_dispatch_entry option" where
  "toml_lines n [] st = Inr st"
| "toml_lines n (l # ls) st = bindE (toml_line n l st) (toml_lines (Suc n) ls)"

definition parse_dispatch_toml :: "str \<Rightarrow> dispatch_error + raw_dispatch_entry list" where
  "parse_dispatch_toml content = bindE (toml_lines 1 (lines content) ([], None)) (\<lambda>st. Inr (close_entry st))"

section \<open>Loading\<close>

definition parse_native_arg_type :: "str \<Rightarrow> str \<Rightarrow> dispatch_error + native_arg_type" where
  "parse_native_arg_type s fn_name =
     (if s = chs ''Int'' then Inr NInt
      else if s = chs ''Text'' then Inr NText
      else if s = chs ''Bytes'' then Inr NBytes
      else if s = chs ''Bool'' then Inr NBool
      else if s = chs ''Value'' then Inr NValue
      else Inl (UnknownNative fn_name s))"

definition parse_arg_kind :: "str \<Rightarrow> str \<Rightarrow> dispatch_error + arg_kind" where
  "parse_arg_kind s fn_name =
     (if s = chs ''Data'' then Inr Data
      else if s = chs ''FnRef'' then Inr FnRef
      else Inl (UnknownKind fn_name s))"

fun collectE :: "('a \<Rightarrow> 'e + 'b) \<Rightarrow> 'a list \<Rightarrow> 'e + 'b list" where
  "collectE f [] = Inr []"
| "collectE f (x # xs) = bindE (f x) (\<lambda>y. bindE (collectE f xs) (\<lambda>ys. Inr (y # ys)))"

definition opt_row :: "('a \<Rightarrow> 'e + 'b) \<Rightarrow> rstring \<Rightarrow> 'a list option \<Rightarrow> (rstring \<times> 'b list) list
    \<Rightarrow> 'e + (rstring \<times> 'b list) list" where
  "opt_row f name v rows =
     (case v of None \<Rightarrow> Inr rows | Some xs \<Rightarrow> bindE (collectE f xs) (\<lambda>ys. Inr (rows @ [(name, ys)])))"

definition load_entry :: "dispatch_overlay \<Rightarrow> raw_dispatch_entry \<Rightarrow> dispatch_error + dispatch_overlay" where
  "load_entry ov e =
     (case de_name e of
        None \<Rightarrow> Inl MissingName
      | Some name \<Rightarrow>
          (case de_path e of
             None \<Rightarrow> Inl (MissingPath name)
           | Some path \<Rightarrow>
               let n = utf8_encode name in
               if symbol_map n \<noteq> None \<or> n \<in> fst ` set (ov_symbols ov) then Inl (Conflict name)
               else bindE (opt_row (\<lambda>s. parse_native_arg_type s name) n (de_native_args e) (ov_native_args ov)) (\<lambda>nas.
                    bindE (opt_row (\<lambda>s. parse_arg_kind s name) n (de_arg_kinds e) (ov_arg_kinds ov)) (\<lambda>aks.
                      Inr \<lparr>ov_symbols = ov_symbols ov @ [(n, utf8_encode path)], ov_arg_kinds = aks, ov_native_args = nas\<rparr>))))"

fun load_entries :: "raw_dispatch_entry list \<Rightarrow> dispatch_overlay \<Rightarrow> dispatch_error + dispatch_overlay" where
  "load_entries [] ov = Inr ov"
| "load_entries (e # es) ov = bindE (load_entry ov e) (load_entries es)"

fun load_files :: "str option list \<Rightarrow> dispatch_overlay \<Rightarrow> dispatch_error + dispatch_overlay" where
  "load_files [] ov = Inr ov"
| "load_files (None # fs) ov = Inl Unreadable"
| "load_files (Some content # fs) ov =
     bindE (parse_dispatch_toml content) (\<lambda>es. bindE (load_entries es ov) (load_files fs))"

definition load_dispatch_files :: "str option list \<Rightarrow> dispatch_error + dispatch_overlay" where
  "load_dispatch_files files = load_files files \<lparr>ov_symbols = [], ov_arg_kinds = [], ov_native_args = []\<rparr>"

end
