(* ===== verification/DispatchRules.thy ===== *)
theory DispatchRules
  imports Dispatch TableRules
begin

text \<open>
  What the \<open>--dispatch\<close> reader guarantees: an overlay never overrides a builtin, and a document written in
  the schema is read back entry by entry.
\<close>

section \<open>Overlays\<close>

definition overlay_ok :: "dispatch_overlay \<Rightarrow> bool" where
  "overlay_ok ov \<longleftrightarrow>
     distinct (map fst (ov_symbols ov)) \<and> (\<forall>n \<in> fst ` set (ov_symbols ov). symbol_map n = None) \<and>
     fst ` set (ov_arg_kinds ov) \<subseteq> fst ` set (ov_symbols ov) \<and> fst ` set (ov_native_args ov) \<subseteq> fst ` set (ov_symbols ov)"

lemma opt_row_names: "opt_row f n v rows = Inr rows' \<Longrightarrow> fst ` set rows' \<subseteq> insert n (fst ` set rows)"
  by (auto simp: opt_row_def split: option.splits)

lemma load_entry_ok:
  assumes "load_entry ov e = Inr ov'" "overlay_ok ov"
  shows "overlay_ok ov'"
proof -
  from assms(1) obtain n p nas aks where
    new: "symbol_map n = None" "n \<notin> fst ` set (ov_symbols ov)"
    and rows: "opt_row (\<lambda>s. parse_native_arg_type s (the (de_name e))) n (de_native_args e) (ov_native_args ov) = Inr nas"
      "opt_row (\<lambda>s. parse_arg_kind s (the (de_name e))) n (de_arg_kinds e) (ov_arg_kinds ov) = Inr aks"
    and ov': "ov' = \<lparr>ov_symbols = ov_symbols ov @ [(n, p)], ov_arg_kinds = aks, ov_native_args = nas\<rparr>"
    by (auto simp: load_entry_def Let_def split: option.splits if_splits)
  have old: "fst ` set (ov_arg_kinds ov) \<subseteq> fst ` set (ov_symbols ov)" "fst ` set (ov_native_args ov) \<subseteq> fst ` set (ov_symbols ov)"
    using assms(2) by (simp_all add: overlay_ok_def)
  have "fst ` set aks \<subseteq> fst ` set (ov_symbols ov')" "fst ` set nas \<subseteq> fst ` set (ov_symbols ov')"
    using order_trans [OF opt_row_names [OF rows(2)] insert_mono [OF old(1)]]
      order_trans [OF opt_row_names [OF rows(1)] insert_mono [OF old(2)]] by (simp_all add: ov')
  then show ?thesis using assms(2) new by (simp add: overlay_ok_def ov')
qed

lemma load_entries_ok: "load_entries es ov = Inr ov' \<Longrightarrow> overlay_ok ov \<Longrightarrow> overlay_ok ov'"
  by (induction es arbitrary: ov) (auto dest: load_entry_ok)

lemma load_files_ok: "load_files fs ov = Inr ov' \<Longrightarrow> overlay_ok ov \<Longrightarrow> overlay_ok ov'"
  by (induction fs ov rule: load_files.induct) (auto dest: load_entries_ok)

lemma load_dispatch_files_ok: "load_dispatch_files files = Inr ov \<Longrightarrow> overlay_ok ov"
  unfolding load_dispatch_files_def by (erule load_files_ok) (simp add: overlay_ok_def)

section \<open>Writing a document\<close>

definition esc :: "code_point \<Rightarrow> str" where
  "esc c = (if c = 0x22 then [0x5c, 0x22] else if c = 0x5c then [0x5c, 0x5c]
     else if c = 10 then [0x5c, 0x6e] else if c = 9 then [0x5c, 0x74] else [c])"

definition quote :: "str \<Rightarrow> str" where
  "quote s = 0x22 # concat (map esc s) @ [0x22]"

definition quote_array :: "str list \<Rightarrow> str" where
  "quote_array xs = 0x5b # concat (map (\<lambda>s. quote s @ [0x2c]) xs) @ [0x5d]"

definition key_line :: "string \<Rightarrow> ('a \<Rightarrow> str) \<Rightarrow> 'a option \<Rightarrow> str list" where
  "key_line key f v = (case v of None \<Rightarrow> [] | Some x \<Rightarrow> [chs key @ chs '' = '' @ f x])"

definition entry_lines :: "raw_dispatch_entry \<Rightarrow> str list" where
  "entry_lines e =
     chs ''[[fn]]'' # key_line ''name'' quote (de_name e) @ key_line ''path'' quote (de_path e) @
     key_line ''native_args'' quote_array (de_native_args e) @ key_line ''arg_kinds'' quote_array (de_arg_kinds e)"

definition document :: "raw_dispatch_entry list \<Rightarrow> str" where
  "document es = unlines (concat (map entry_lines es))"

text \<open>No quotation mark: the reader does not honour an escaped one where it looks for comments and commas.\<close>

definition plain :: "str \<Rightarrow> bool" where
  "plain s \<longleftrightarrow> 0x22 \<notin> set s"

definition plain_entry :: "raw_dispatch_entry \<Rightarrow> bool" where
  "plain_entry e \<longleftrightarrow> pred_option plain (de_name e) \<and> pred_option plain (de_path e) \<and>
     pred_option (list_all plain) (de_native_args e) \<and> pred_option (list_all plain) (de_arg_kinds e)"

lemma unescape_esc: "unescape line (concat (map esc s)) = Inr s"
  by (induction s) (auto simp: esc_def)

lemma parse_quote: "parse_toml_string (quote s) line = Inr s"
proof -
  have "trim (quote s) = quote s" by (rule trim_id) (simp add: trimmed_def quote_def)
  then show ?thesis by (simp add: parse_toml_string_def quote_def unescape_esc butlast_append)
qed

lemma esc_plain: "plain s \<Longrightarrow> 0x22 \<notin> set (concat (map esc s))"
  by (induction s) (auto simp: plain_def esc_def)

lemma before_comment_quoted:
  assumes "0x22 \<notin> set xs"
  shows "before_comment True (xs @ 0x22 # r) = map_option (\<lambda>p. xs @ 0x22 # p) (before_comment False r)"
  using assms by (induction xs) (auto simp: option.map_comp comp_def)

lemma before_comment_quote:
  "plain s \<Longrightarrow> before_comment False (quote s @ r) = map_option (\<lambda>p. quote s @ p) (before_comment False r)"
  using before_comment_quoted [OF esc_plain, of s r] by (simp add: quote_def option.map_comp comp_def)

lemma before_comment_array:
  "list_all plain xs \<Longrightarrow> before_comment False (concat (map (\<lambda>s. quote s @ [0x2c]) xs) @ [0x5d]) = None"
  by (induction xs) (auto simp: before_comment_quote)

lemma array_pieces_quoted:
  "0x22 \<notin> set xs \<Longrightarrow> array_pieces True piece (xs @ 0x22 # r) = array_pieces False (piece @ xs @ [0x22]) r"
  by (induction xs arbitrary: piece) auto

lemma array_pieces_quote:
  "plain s \<Longrightarrow> array_pieces False piece (quote s @ 0x2c # r) = (piece @ quote s) # array_pieces False [] r"
  using array_pieces_quoted [OF esc_plain, of s "piece @ [0x22]" "0x2c # r"] by (simp add: quote_def)

lemma array_pieces_quote_array:
  "list_all plain xs \<Longrightarrow> array_pieces False [] (concat (map (\<lambda>s. quote s @ [0x2c]) xs)) = map quote xs @ [[]]"
  by (induction xs) (auto simp: array_pieces_quote)

lemma trim_quote: "trim (quote s) = quote s"
  by (rule trim_id) (simp add: trimmed_def quote_def)

lemma trim_Nil [simp]: "trim [] = []"
  by (simp add: trim_def trim_start_def trim_end_def)

lemma parse_pieces_quotes: "parse_pieces line (map quote xs @ [[]]) = Inr xs"
proof (induction xs)
  case (Cons x xs)
  have "quote x \<noteq> []" by (simp add: quote_def)
  with Cons show ?case by (simp add: trim_quote parse_quote)
qed simp

lemma parse_quote_array:
  assumes "list_all plain xs"
  shows "parse_toml_string_array (quote_array xs) line = Inr xs"
proof -
  have "trim (quote_array xs) = quote_array xs" by (rule trim_id) (simp add: trimmed_def quote_array_def)
  then show ?thesis
    by (simp add: parse_toml_string_array_def quote_array_def butlast_append array_pieces_quote_array [OF assms] parse_pieces_quotes)
qed

section \<open>Reading it back\<close>

text \<open>A value as the reader sees it after the equals sign of its key.\<close>

definition value_text :: "str \<Rightarrow> bool" where
  "value_text v \<longleftrightarrow> v \<noteq> [] \<and> \<not> is_whitespace (hd v) \<and> \<not> is_whitespace (last v) \<and> before_comment False v = None"

lemma value_text_quote: "plain s \<Longrightarrow> value_text (quote s)"
  using before_comment_quote [of s "[]"] by (simp add: value_text_def quote_def)

lemma value_text_array: "list_all plain xs \<Longrightarrow> value_text (quote_array xs)"
  using before_comment_array [of xs] by (simp add: value_text_def quote_array_def)

definition word_key :: "string \<Rightarrow> bool" where
  "word_key k \<longleftrightarrow> k \<noteq> [] \<and> list_all (\<lambda>c. c \<notin> set [0x22, 0x23, 0x3d] \<and> \<not> is_whitespace c) (chs k)"

lemma before_comment_word:
  "list_all (\<lambda>c. c \<notin> set [0x22, 0x23]) xs \<Longrightarrow> before_comment False (xs @ r) = map_option (\<lambda>p. xs @ p) (before_comment False r)"
  by (cases "before_comment False r"; induction xs) auto

lemma trim_end_app: "xs \<noteq> [] \<Longrightarrow> \<not> is_whitespace (last xs) \<Longrightarrow> trim_end (xs @ [32]) = xs"
  by (simp add: trim_end_id)

lemma toml_line_key:
  assumes k: "word_key k" and v: "value_text v"
  shows "toml_line n (chs k @ chs '' = '' @ v) (es, Some e) = bindE (set_key n (chs k @ [32]) (32 # v) e) (\<lambda>e'. Inr (es, Some e'))"
proof -
  let ?l = "chs k @ chs '' = '' @ v"
  have eq: "chs '' = '' = [32, 0x3d, 32]" by (simp add: chs_def of_char_def)
  have kc: "chs k \<noteq> []" using k by (simp add: word_key_def chs_def)
  have tr: "trim ?l = ?l" using k v kc
    by (intro trim_id) (auto simp: trimmed_def value_text_def word_key_def list_all_iff eq)
  have "list_all (\<lambda>c. c \<notin> set [0x22, 0x23]) (chs k @ chs '' = '')" using k by (auto simp: word_key_def list_all_iff eq)
  from before_comment_word [OF this, of v] have strip: "strip_toml_comment ?l = ?l"
    using v by (simp add: strip_toml_comment_def value_text_def)
  have "0x3d \<notin> set (chs k @ [32])" using k by (auto simp: word_key_def list_all_iff)
  from split_once_append [OF this, of "32 # v"] have sp: "split_once 0x3d ?l = Some (chs k @ [32], 32 # v)"
    by (simp add: eq)
  have "0x3d \<in> set ?l" by (simp add: eq)
  moreover have "0x3d \<notin> set (chs ''[[fn]]'')" by (simp add: chs_def of_char_def)
  ultimately have "?l \<noteq> chs ''[[fn]]''" by metis
  then show ?thesis using kc unfolding toml_line_def tr strip sp Let_def by auto
qed

lemma trim_key: "word_key k \<Longrightarrow> trim (chs k @ [32]) = chs k"
proof -
  assume "word_key k"
  then have k: "chs k \<noteq> []" "\<not> is_whitespace (hd (chs k))" "\<not> is_whitespace (last (chs k))"
    by (auto simp: word_key_def list_all_iff chs_def hd_map last_map)
  then have "trim_start (chs k @ [32]) = chs k @ [32]" by (intro trim_start_id) simp
  with k show ?thesis by (simp add: trim_def trim_end_id)
qed

lemma keys_are_words: "word_key ''name''" "word_key ''path''" "word_key ''native_args''" "word_key ''arg_kinds''"
  by (simp_all add: word_key_def chs_def of_char_def is_whitespace_def)

lemma keys_distinct: "chs ''path'' \<noteq> chs ''name''" "chs ''native_args'' \<noteq> chs ''name''" "chs ''native_args'' \<noteq> chs ''path''"
  "chs ''arg_kinds'' \<noteq> chs ''name''" "chs ''arg_kinds'' \<noteq> chs ''path''" "chs ''arg_kinds'' \<noteq> chs ''native_args''"
  by (simp_all add: chs_def of_char_def)

lemma parse_after_space: "parse_toml_string (32 # v) n = parse_toml_string v n"
  "parse_toml_string_array (32 # v) n = parse_toml_string_array v n"
  by (simp_all add: parse_toml_string_def parse_toml_string_array_def trim_ws)

lemma key_lines_read:
  "pred_option plain v \<Longrightarrow> toml_lines n (key_line ''name'' quote v @ ls) (es, Some e) =
     toml_lines (n + length (key_line ''name'' quote v)) ls (es, Some (case v of None \<Rightarrow> e | Some s \<Rightarrow> e\<lparr>de_name := Some s\<rparr>))"
  "pred_option plain v \<Longrightarrow> toml_lines n (key_line ''path'' quote v @ ls) (es, Some e) =
     toml_lines (n + length (key_line ''path'' quote v)) ls (es, Some (case v of None \<Rightarrow> e | Some s \<Rightarrow> e\<lparr>de_path := Some s\<rparr>))"
  "pred_option (list_all plain) w \<Longrightarrow> toml_lines n (key_line ''native_args'' quote_array w @ ls) (es, Some e) =
     toml_lines (n + length (key_line ''native_args'' quote_array w)) ls
       (es, Some (case w of None \<Rightarrow> e | Some s \<Rightarrow> e\<lparr>de_native_args := Some s\<rparr>))"
  "pred_option (list_all plain) w \<Longrightarrow> toml_lines n (key_line ''arg_kinds'' quote_array w @ ls) (es, Some e) =
     toml_lines (n + length (key_line ''arg_kinds'' quote_array w)) ls
       (es, Some (case w of None \<Rightarrow> e | Some s \<Rightarrow> e\<lparr>de_arg_kinds := Some s\<rparr>))"
  by (cases v; cases w; simp add: key_line_def toml_line_key keys_are_words value_text_quote value_text_array set_key_def
      trim_key keys_distinct parse_after_space parse_quote parse_quote_array)+

lemma table_line: "toml_line n (chs ''[[fn]]'') st = Inr (close_entry st, Some default_entry)"
proof -
  have h: "chs ''[[fn]]'' = [91, 91, 102, 110, 93, 93]" by (simp add: chs_def of_char_def)
  have "trim (chs ''[[fn]]'') = chs ''[[fn]]''" by (rule trim_id) (simp add: trimmed_def h)
  moreover have "strip_toml_comment (chs ''[[fn]]'') = chs ''[[fn]]''" by (simp add: strip_toml_comment_def h)
  ultimately show ?thesis unfolding toml_line_def Let_def by (simp add: h)
qed

lemma toml_entry_read:
  assumes "plain_entry e"
  shows "\<exists>m. toml_lines n (entry_lines e @ ls) st = toml_lines m ls (close_entry st, Some e)"
proof -
  have e: "pred_option plain (de_name e)" "pred_option plain (de_path e)" "pred_option (list_all plain) (de_native_args e)"
    "pred_option (list_all plain) (de_arg_kinds e)" using assms by (simp_all add: plain_entry_def)
  let ?d = default_entry
  let ?d1 = "case de_name e of None \<Rightarrow> ?d | Some s \<Rightarrow> ?d\<lparr>de_name := Some s\<rparr>"
  let ?d2 = "case de_path e of None \<Rightarrow> ?d1 | Some s \<Rightarrow> ?d1\<lparr>de_path := Some s\<rparr>"
  let ?d3 = "case de_native_args e of None \<Rightarrow> ?d2 | Some s \<Rightarrow> ?d2\<lparr>de_native_args := Some s\<rparr>"
  let ?d4 = "case de_arg_kinds e of None \<Rightarrow> ?d3 | Some s \<Rightarrow> ?d3\<lparr>de_arg_kinds := Some s\<rparr>"
  have "?d4 = e" by (cases e) (simp add: default_entry_def split: option.splits)
  then show ?thesis
    by (simp add: entry_lines_def table_line key_lines_read(1) [OF e(1)] key_lines_read(2) [OF e(2)]
        key_lines_read(3) [OF e(3)] key_lines_read(4) [OF e(4)]) blast
qed

lemma entries_read:
  assumes "list_all plain_entry es"
  shows "\<exists>st'. toml_lines n (concat (map entry_lines es)) st = Inr st' \<and> close_entry st' = close_entry st @ es"
  using assms
proof (induction es arbitrary: n st)
  case (Cons e es)
  from toml_entry_read [of e n "concat (map entry_lines es)" st] Cons.prems obtain m where
    "toml_lines n (entry_lines e @ concat (map entry_lines es)) st =
      toml_lines m (concat (map entry_lines es)) (close_entry st, Some e)" by auto
  moreover from Cons.IH [of m "(close_entry st, Some e)"] Cons.prems obtain st' where
    "toml_lines m (concat (map entry_lines es)) (close_entry st, Some e) = Inr st'"
    "close_entry st' = close_entry (close_entry st, Some e) @ es" by auto
  ultimately show ?case by (simp add: close_entry_def)
qed simp

lemma chs_no_newline: "list_all (\<lambda>c. 32 \<le> c) (chs k) \<Longrightarrow> 10 \<notin> set (chs k)"
  by (auto simp: list_all_iff)

lemma entry_lines_are_lines: "list_all (\<lambda>l. 10 \<notin> set l \<and> (l = [] \<or> last l \<noteq> 13)) (entry_lines e)"
proof -
  have esc: "10 \<notin> set (concat (map esc s))" for s by (induction s) (auto simp: esc_def)
  have q: "10 \<notin> set (quote s) \<and> last (quote s) \<noteq> 13" for s using esc [of s] by (simp add: quote_def)
  have a: "10 \<notin> set (quote_array xs) \<and> last (quote_array xs) \<noteq> 13" for xs
    using q by (auto simp: quote_array_def)
  have k: "10 \<notin> set (chs ''name'')" "10 \<notin> set (chs ''path'')" "10 \<notin> set (chs ''native_args'')"
    "10 \<notin> set (chs ''arg_kinds'')" "10 \<notin> set (chs '' = '')"
    by (simp_all add: chs_def of_char_def)
  have l: "list_all (\<lambda>l. 10 \<notin> set l \<and> (l = [] \<or> last l \<noteq> 13)) (key_line key f v)"
    if "10 \<notin> set (chs key)" "\<And>x. f x \<noteq> [] \<and> 10 \<notin> set (f x) \<and> last (f x) \<noteq> 13" for key v and f :: "'a \<Rightarrow> str"
    using that k(5) by (auto simp: key_line_def split: option.split)
  have nq: "quote s \<noteq> []" "quote_array xs \<noteq> []" for s xs by (simp_all add: quote_def quote_array_def)
  have "10 \<notin> set (chs ''[[fn]]'') \<and> last (chs ''[[fn]]'') \<noteq> 13" by (simp add: chs_def of_char_def)
  then show ?thesis using k q a nq by (simp add: entry_lines_def l)
qed

lemma document_parses:
  assumes "list_all plain_entry es"
  shows "parse_dispatch_toml (document es) = Inr es"
proof -
  have "list_all (\<lambda>l. 10 \<notin> set l \<and> (l = [] \<or> last l \<noteq> 13)) (concat (map entry_lines es))"
    using entry_lines_are_lines by (auto simp: list_all_iff)
  from lines_unlines [OF this] have "lines (document es) = concat (map entry_lines es)" by (simp add: document_def)
  moreover obtain st' where "toml_lines 1 (concat (map entry_lines es)) ([], None) = Inr st'"
    "close_entry st' = close_entry ([], None) @ es" using entries_read [OF assms, of 1 "([], None)"] by blast
  ultimately show ?thesis by (simp add: parse_dispatch_toml_def close_entry_def)
qed

section \<open>A sample entry\<close>

definition sample_entry :: raw_dispatch_entry where
  "sample_entry =
     \<lparr>de_name = Some (chs ''my_fn''), de_path = Some (chs ''my_crate::my_fn''),
      de_native_args = Some [chs ''Int'', chs ''Bytes''], de_arg_kinds = None\<rparr>"

lemma sample_plain: "list_all plain_entry [sample_entry]"
  by (simp add: sample_entry_def plain_entry_def plain_def chs_def of_char_def)

lemma sample_fresh: "symbol_map (lit ''my_fn'') = None"
proof -
  have "row_get ''my_fn'' (the (add_rows symbol_rows (Some Tip))) = None"
    by (simp only: symbol_defs find_eval option.sel)
  then show ?thesis
    using row_get_map_of [OF builtE [OF symbols_built]] table_map_of [OF built_distinct [OF symbols_built]]
    by (simp add: symbol_map_def)
qed

lemma sample_overlay:
  "load_dispatch_files [Some (document [sample_entry])] =
     Inr \<lparr>ov_symbols = [(lit ''my_fn'', lit ''my_crate::my_fn'')], ov_arg_kinds = [],
       ov_native_args = [(lit ''my_fn'', [NInt, NBytes])]\<rparr>"
proof -
  have n: "utf8_encode (chs ''my_fn'') = lit ''my_fn''" "utf8_encode (chs ''my_crate::my_fn'') = lit ''my_crate::my_fn''"
    by (simp_all add: utf8_encode_def utf8_encode1_def chs_def lit_def of_char_def)
  have t: "parse_native_arg_type (chs ''Int'') s = Inr NInt" "parse_native_arg_type (chs ''Bytes'') s = Inr NBytes" for s
    by (simp_all add: parse_native_arg_type_def chs_def of_char_def)
  have "load_entries [sample_entry] \<lparr>ov_symbols = [], ov_arg_kinds = [], ov_native_args = []\<rparr> =
     Inr \<lparr>ov_symbols = [(lit ''my_fn'', lit ''my_crate::my_fn'')], ov_arg_kinds = [],
       ov_native_args = [(lit ''my_fn'', [NInt, NBytes])]\<rparr>"
    by (simp add: load_entry_def sample_entry_def n t sample_fresh opt_row_def Let_def)
  then show ?thesis by (simp add: load_dispatch_files_def document_parses [OF sample_plain])
qed

section \<open>Properties\<close>

text \<open>
  C22. A \<open>--dispatch\<close> overlay never overrides a builtin: whatever files \<open>load_dispatch_files\<close> accepts, every name of
  the builtin symbol map keeps its path and both of its calling conventions, and every name of the overlay is
  there once with the path its entry gave.
\<close>

theorem overlay_keeps_builtins:
  assumes "load_dispatch_files files = Inr ov"
  shows "(symbol_map n \<noteq> None \<longrightarrow> symbol_map_with_overlay ov n = symbol_map n \<and>
      fn_arg_kinds_with_overlay ov n = fn_arg_kinds n \<and>
      native_call_fn_arg_types_with_overlay ov n = native_call_fn_arg_types n) \<and>
    ((n, p) \<in> set (ov_symbols ov) \<longrightarrow> symbol_map n = None \<and> symbol_map_with_overlay ov n = Some p)"
proof -
  have ok: "overlay_ok ov" using assms by (rule load_dispatch_files_ok)
  have "n \<notin> fst ` set (ov_symbols ov)" if "symbol_map n \<noteq> None" using ok that by (auto simp: overlay_ok_def)
  then have "map_of (ov_symbols ov) n = None \<and> map_of (ov_arg_kinds ov) n = None \<and> map_of (ov_native_args ov) n = None"
    if "symbol_map n \<noteq> None" using ok that unfolding overlay_ok_def map_of_eq_None_iff by blast
  moreover have "map_of (ov_symbols ov) n = Some p" if "(n, p) \<in> set (ov_symbols ov)"
    using ok that by (simp add: overlay_ok_def)
  moreover have "symbol_map n = None" if "(n, p) \<in> set (ov_symbols ov)" using ok that by (force simp: overlay_ok_def)
  ultimately show ?thesis
    by (simp add: symbol_map_with_overlay_def fn_arg_kinds_with_overlay_def native_call_fn_arg_types_with_overlay_def)
qed

theorem overlay_keeps_builtins_witness:
  "\<exists>ov. load_dispatch_files [Some (document [sample_entry])] = Inr ov \<and>
     symbol_map_with_overlay ov (lit ''my_fn'') = Some (lit ''my_crate::my_fn'')"
  using overlay_keeps_builtins [OF sample_overlay, of "lit ''my_fn''" "lit ''my_crate::my_fn''"] sample_overlay by simp

text \<open>
  C40. Round trip of the dispatch schema: a document with one \<open>[[fn]]\<close> table per entry, whose strings hold any text
  without a quotation mark (newlines, tabs, backslashes, commas, number signs and equals signs included), is
  read back as exactly those entries.
\<close>

theorem document_read_back:
  assumes "list_all plain_entry es"
  shows "parse_dispatch_toml (document es) = Inr es"
  using assms by (rule document_parses)

theorem document_read_back_witness: "parse_dispatch_toml (document [sample_entry, sample_entry]) = Inr [sample_entry, sample_entry]"
  using sample_plain by (intro document_read_back) simp

text \<open>
  An escaped quotation mark ends the quoted text for the comment scanner: in the line
  \<open>name = "a\"#b"\<close> the number sign inside the string is taken for a comment and the line is refused, although the string
  alone is read correctly.
\<close>

theorem escaped_quote_hides_comment:
  "parse_toml_string (quote [0x61, 0x22, 0x23, 0x62]) n = Inr [0x61, 0x22, 0x23, 0x62] \<and>
   toml_line n (chs ''name = '' @ quote [0x61, 0x22, 0x23, 0x62]) (es, Some e) = Inl (DanglingEscape n)"
  by (simp add: parse_quote)
    (simp add: toml_line_def quote_def esc_def chs_def of_char_def trim_def trim_start_def trim_end_def is_whitespace_def
      strip_toml_comment_def split_once_def set_key_def parse_toml_string_def)

end
