(* ===== verification/Registry.thy ===== *)
theory Registry
  imports RustStr Payload
begin

text \<open>
  The scanners of \<open>--reg\<close> registry files (\<open>src/src/emit/rust_05.rs\<close>): names, bodies, input clauses and purity by
  identity, channels and background functions. Each reads a file line by line with its own state; a file that cannot be
  read is skipped with a warning (\<open>None\<close>). Maps and sets are keyed by identity, SHA-256 is a parameter.
\<close>

type_synonym reg_files = "str option list"

definition scan_lines :: "(str \<Rightarrow> 's \<Rightarrow> 's) \<Rightarrow> str \<Rightarrow> 's \<Rightarrow> 's" where
  "scan_lines step content s = fold (\<lambda>line. step (trim line)) (lines content) s"

fun scan_files :: "(str \<Rightarrow> 'm \<Rightarrow> 'm) \<Rightarrow> reg_files \<Rightarrow> 'm \<Rightarrow> 'm" where
  "scan_files f [] m = m"
| "scan_files f (None # fs) m = scan_files f fs m"
| "scan_files f (Some content # fs) m = scan_files f fs (f content m)"

text \<open>An identity written after its keyword; a malformed one leaves the previous identity in place.\<close>

definition hex_identity :: "str \<Rightarrow> hash256 option" where
  "hex_identity rest =
     (case hex_to_hash256 (trim_0x (utf8_encode (trim rest))) of Inr idn \<Rightarrow> Some idn | Inl _ \<Rightarrow> None)"

definition or_else :: "'a option \<Rightarrow> 'a option \<Rightarrow> 'a option" where
  "or_else x y = (case x of Some a \<Rightarrow> Some a | None \<Rightarrow> y)"

section \<open>Names\<close>

record id_scan =
  is_name :: "str option"
  is_id :: "hash256 option"
  is_map :: "hash256 \<Rightarrow> rstring option"

definition commit_name :: "id_scan \<Rightarrow> id_scan" where
  "commit_name s =
     (case (is_name s, is_id s) of
        (Some n, Some i) \<Rightarrow> \<lparr>is_name = None, is_id = None, is_map = (is_map s)(i \<mapsto> utf8_encode n)\<rparr>
      | _ \<Rightarrow> s\<lparr>is_name := None, is_id := None\<rparr>)"

definition identity_line :: "(bytes \<Rightarrow> hash256) \<Rightarrow> str \<Rightarrow> id_scan \<Rightarrow> id_scan" where
  "identity_line sha t s =
     (case strip_prefix (chs ''fn '') t of
        Some rest \<Rightarrow>
          (case first_word rest of
             Some n \<Rightarrow> s\<lparr>is_name := Some n, is_id := Some (sha (utf8_encode n))\<rparr>
           | None \<Rightarrow> s)
      | None \<Rightarrow>
          (case strip_prefix (chs ''identity '') t of
             Some rest \<Rightarrow> s\<lparr>is_id := or_else (hex_identity rest) (is_id s)\<rparr>
           | None \<Rightarrow> if t = chs ''end'' then commit_name s else s))"

definition identity_file :: "(bytes \<Rightarrow> hash256) \<Rightarrow> str \<Rightarrow> (hash256 \<Rightarrow> rstring option) \<Rightarrow> hash256 \<Rightarrow> rstring option" where
  "identity_file sha content m =
     is_map (commit_name (scan_lines (identity_line sha) content \<lparr>is_name = None, is_id = None, is_map = m\<rparr>))"

definition load_registry_identity_map :: "(bytes \<Rightarrow> hash256) \<Rightarrow> reg_files \<Rightarrow> hash256 \<Rightarrow> rstring option" where
  "load_registry_identity_map sha files = scan_files (identity_file sha) files (\<lambda>_. None)"

section \<open>Bodies\<close>

record body_scan =
  bs_id :: "hash256 option"
  bs_body :: "hash256 option"
  bs_contract :: bool
  bs_map :: "hash256 \<Rightarrow> hash256 option"

definition named_identity :: "(bytes \<Rightarrow> hash256) \<Rightarrow> str \<Rightarrow> hash256 option" where
  "named_identity sha rest = map_option (\<lambda>n. sha (utf8_encode n)) (first_word rest)"

definition body_line :: "(bytes \<Rightarrow> hash256) \<Rightarrow> str \<Rightarrow> body_scan \<Rightarrow> body_scan" where
  "body_line sha t s =
     (case strip_prefix (chs ''fn '') t of
        Some rest \<Rightarrow> s\<lparr>bs_id := named_identity sha rest, bs_body := None, bs_contract := False\<rparr>
      | None \<Rightarrow>
          (case strip_prefix (chs ''identity '') t of
             Some rest \<Rightarrow> s\<lparr>bs_id := or_else (hex_identity rest) (bs_id s)\<rparr>
           | None \<Rightarrow>
               (case strip_prefix (chs ''body '') t of
                  Some rest \<Rightarrow> s\<lparr>bs_body := or_else (hex_identity rest) (bs_body s)\<rparr>
                | None \<Rightarrow>
                    if t = chs ''bridge_contract'' then s\<lparr>bs_contract := True\<rparr>
                    else if t = chs ''end'' then
                      if bs_contract s then s\<lparr>bs_contract := False\<rparr>
                      else (case (bs_id s, bs_body s) of
                          (Some i, Some b) \<Rightarrow> s\<lparr>bs_id := None, bs_body := None, bs_map := (bs_map s)(i \<mapsto> b)\<rparr>
                        | _ \<Rightarrow> s\<lparr>bs_id := None, bs_body := None\<rparr>)
                    else s)))"

definition body_file :: "(bytes \<Rightarrow> hash256) \<Rightarrow> str \<Rightarrow> (hash256 \<Rightarrow> hash256 option) \<Rightarrow> hash256 \<Rightarrow> hash256 option" where
  "body_file sha content m =
     bs_map (scan_lines (body_line sha) content \<lparr>bs_id = None, bs_body = None, bs_contract = False, bs_map = m\<rparr>)"

definition load_registry_composite_bodies :: "(bytes \<Rightarrow> hash256) \<Rightarrow> reg_files \<Rightarrow> hash256 \<Rightarrow> hash256 option" where
  "load_registry_composite_bodies sha files = scan_files (body_file sha) files (\<lambda>_. None)"

section \<open>Purity\<close>

record pure_scan =
  ps_id :: "hash256 option"
  ps_pure :: bool
  ps_det :: bool
  ps_contract :: bool
  ps_set :: "hash256 set"

definition pure_line :: "(bytes \<Rightarrow> hash256) \<Rightarrow> str \<Rightarrow> pure_scan \<Rightarrow> pure_scan" where
  "pure_line sha t s =
     (case strip_prefix (chs ''fn '') t of
        Some rest \<Rightarrow> s\<lparr>ps_id := named_identity sha rest, ps_pure := False, ps_det := False, ps_contract := False\<rparr>
      | None \<Rightarrow>
          (case strip_prefix (chs ''identity '') t of
             Some rest \<Rightarrow> s\<lparr>ps_id := or_else (hex_identity rest) (ps_id s)\<rparr>
           | None \<Rightarrow>
               (case strip_prefix (chs ''effect '') t of
                  Some rest \<Rightarrow> s\<lparr>ps_pure := (trim rest = chs ''pure'')\<rparr>
                | None \<Rightarrow>
                    (case strip_prefix (chs ''deterministic '') t of
                       Some rest \<Rightarrow> s\<lparr>ps_det := (trim rest = chs ''true'')\<rparr>
                     | None \<Rightarrow>
                         if t = chs ''bridge_contract'' then s\<lparr>ps_contract := True\<rparr>
                         else if t = chs ''end'' then
                           if ps_contract s then s\<lparr>ps_contract := False\<rparr>
                           else (case ps_id s of
                               Some i \<Rightarrow>
                                 s\<lparr>ps_id := None, ps_set := (if ps_pure s \<and> ps_det s then insert i (ps_set s) else ps_set s)\<rparr>
                             | None \<Rightarrow> s)
                         else s))))"

definition pure_file :: "(bytes \<Rightarrow> hash256) \<Rightarrow> str \<Rightarrow> hash256 set \<Rightarrow> hash256 set" where
  "pure_file sha content m =
     ps_set (scan_lines (pure_line sha) content
       \<lparr>ps_id = None, ps_pure = False, ps_det = False, ps_contract = False, ps_set = m\<rparr>)"

definition load_registry_pure_det :: "(bytes \<Rightarrow> hash256) \<Rightarrow> reg_files \<Rightarrow> hash256 set" where
  "load_registry_pure_det sha files = scan_files (pure_file sha) files {}"

section \<open>Input clauses\<close>

record in_scan =
  ns_id :: "hash256 option"
  ns_map :: "hash256 \<Rightarrow> str option"

definition in_line :: "(bytes \<Rightarrow> hash256) \<Rightarrow> str \<Rightarrow> in_scan \<Rightarrow> in_scan" where
  "in_line sha t s =
     (case strip_prefix (chs ''fn '') t of
        Some rest \<Rightarrow> s\<lparr>ns_id := or_else (named_identity sha rest) (ns_id s)\<rparr>
      | None \<Rightarrow>
          (case strip_prefix (chs ''identity '') t of
             Some rest \<Rightarrow> s\<lparr>ns_id := or_else (hex_identity rest) (ns_id s)\<rparr>
           | None \<Rightarrow>
               (case strip_prefix (chs ''in '') t of
                  Some rest \<Rightarrow>
                    (case ns_id s of Some i \<Rightarrow> s\<lparr>ns_map := (ns_map s)(i \<mapsto> trim rest)\<rparr> | None \<Rightarrow> s)
                | None \<Rightarrow> if t = chs ''end'' then s\<lparr>ns_id := None\<rparr> else s)))"

definition in_file :: "(bytes \<Rightarrow> hash256) \<Rightarrow> str \<Rightarrow> (hash256 \<Rightarrow> str option) \<Rightarrow> hash256 \<Rightarrow> str option" where
  "in_file sha content m = ns_map (scan_lines (in_line sha) content \<lparr>ns_id = None, ns_map = m\<rparr>)"

definition load_registry_in_map :: "(bytes \<Rightarrow> hash256) \<Rightarrow> reg_files \<Rightarrow> hash256 \<Rightarrow> str option" where
  "load_registry_in_map sha files = scan_files (in_file sha) files (\<lambda>_. None)"

section \<open>Channels and background functions\<close>

record bridge_async_facts =
  channels :: "str set"
  channel_types :: "str \<Rightarrow> str option"
  background_fns :: "str set"

record async_scan =
  as_fn :: "str option"
  as_contract :: bool
  as_channel :: "str option"
  as_ty :: "str option"
  as_facts :: bridge_async_facts

definition async_end :: "async_scan \<Rightarrow> async_scan" where
  "async_end s =
     (case as_channel s of
        Some n \<Rightarrow>
          let f = (as_facts s)\<lparr>channels := insert n (channels (as_facts s))\<rparr> in
          (case as_ty s of
             Some ty \<Rightarrow> s\<lparr>as_channel := None, as_ty := None, as_facts := f\<lparr>channel_types := (channel_types f)(n \<mapsto> ty)\<rparr>\<rparr>
           | None \<Rightarrow> s\<lparr>as_channel := None, as_facts := f\<rparr>)
      | None \<Rightarrow> if as_contract s then s\<lparr>as_contract := False\<rparr> else s\<lparr>as_fn := None\<rparr>)"

definition async_line :: "str \<Rightarrow> async_scan \<Rightarrow> async_scan" where
  "async_line t s =
     (if t = [] \<or> strip_prefix (chs ''//'') t \<noteq> None then s
      else case strip_prefix (chs ''fn '') t of
        Some rest \<Rightarrow> s\<lparr>as_fn := first_word rest, as_contract := False\<rparr>
      | None \<Rightarrow>
          (case strip_prefix (chs ''channel '') t of
             Some rest \<Rightarrow> s\<lparr>as_channel := first_word rest, as_ty := None\<rparr>
           | None \<Rightarrow>
               if t = chs ''bridge_contract'' then s\<lparr>as_contract := True\<rparr>
               else if t = chs ''background'' then
                 (case (as_contract s, as_fn s) of
                    (True, Some n) \<Rightarrow> s\<lparr>as_facts := (as_facts s)\<lparr>background_fns := insert n (background_fns (as_facts s))\<rparr>\<rparr>
                  | _ \<Rightarrow> s)
               else (case strip_prefix (chs ''type '') t of
                  Some rest \<Rightarrow>
                    if as_channel s \<noteq> None \<and> 0x3d \<notin> set rest then s\<lparr>as_ty := first_word rest\<rparr> else s
                | None \<Rightarrow> if t = chs ''end'' then async_end s else s)))"

definition scan_bridge_async_str :: "str \<Rightarrow> bridge_async_facts \<Rightarrow> bridge_async_facts" where
  "scan_bridge_async_str content facts =
     as_facts (scan_lines async_line content
       \<lparr>as_fn = None, as_contract = False, as_channel = None, as_ty = None, as_facts = facts\<rparr>)"

definition scan_bridge_async :: "reg_files \<Rightarrow> bridge_async_facts" where
  "scan_bridge_async files =
     scan_files scan_bridge_async_str files \<lparr>channels = {}, channel_types = (\<lambda>_. None), background_fns = {}\<rparr>"

end
