(* ===== verification/RegistryRules.thy ===== *)
theory RegistryRules
  imports Registry
begin

text \<open>
  The registry scanners agree: on a file in the registry grammar, each of them attributes what it reads to the same
  identity of each entry.
\<close>

section \<open>Entries\<close>



definition hex_text :: "hash256 \<Rightarrow> str" where
  "hex_text h = chs ''0x'' @ map unat (hash256_to_hex h)"




text \<open>The lines of a file that are neither blank nor comments, trimmed.\<close>

definition code_lines :: "str \<Rightarrow> str list" where
  "code_lines content = filter (\<lambda>t. t \<noteq> [] \<and> strip_prefix (chs ''//'') t = None) (map trim (lines content))"

section \<open>Reading lines\<close>

lemma strip_prefix_simps [simp]:
  "strip_prefix [] s = Some s"
  "strip_prefix (c # p) [] = None"
  "strip_prefix (c # p) (d # s) = (if c = d then strip_prefix p s else None)"
  by (simp_all add: strip_prefix_def)

lemma not_ws_range: "48 \<le> c \<Longrightarrow> c < 128 \<Longrightarrow> \<not> is_whitespace c"
  by (simp add: is_whitespace_def)

lemma trimmed_not_ws: "list_all (\<lambda>c. \<not> is_whitespace c) s \<Longrightarrow> trimmed s"
  by (cases "s = []") (auto simp: trimmed_def list_all_iff)

lemma hex_identity_text:
  assumes "length h = 32"
  shows "hex_identity (hex_text h) = Some h"
proof -
  have x: "chs ''0x'' = map unat [0x30, 0x78 :: u8]" by (simp add: chs_def of_char_def)
  have r: "48 \<le> unat b \<and> unat b < 128" if "b \<in> set ([0x30, 0x78] @ hash256_to_hex h)" for b
    using hex_range [of h] that by (auto simp: list_all_iff)
  have t: "hex_text h = map unat ([0x30, 0x78] @ hash256_to_hex h)" by (simp add: hex_text_def x)
  have "\<not> is_whitespace (unat b)" if "b \<in> set ([0x30, 0x78] @ hash256_to_hex h)" for b
    using r [OF that] by (intro not_ws_range) blast+
  then have "list_all (\<lambda>c. \<not> is_whitespace c) (hex_text h)"
    unfolding t list_all_iff set_map by blast
  then have "trim (hex_text h) = hex_text h" by (intro trim_id trimmed_not_ws)
  moreover have "utf8_encode (hex_text h) = [0x30, 0x78] @ hash256_to_hex h"
    unfolding t by (rule utf8_encode_ascii) (use r in \<open>auto simp: list_all_iff\<close>)
  ultimately show ?thesis using assms
    by (simp add: hex_identity_def hex_to_hash256_def trim_0x_hex hex_pairs_hex hash256_to_hex_length)
qed


lemma trim_words: "trim (chs ''pure'') = chs ''pure''" "trim (chs ''io'') = chs ''io''" "trim (chs ''true'') = chs ''true''"
    "trim (chs ''false'') = chs ''false''"
  by (rule trim_id, simp add: trimmed_def chs_def of_char_def is_whitespace_def)+

text \<open>Skipping what is not code.\<close>

lemma fold_skip: "(\<And>t s. \<not> P t \<Longrightarrow> step t s = s) \<Longrightarrow> fold step (filter P ls) s = fold step ls s"
  by (induction ls arbitrary: s) auto

lemma scan_code_lines:
  assumes "\<And>t s. t = [] \<or> strip_prefix (chs ''//'') t \<noteq> None \<Longrightarrow> step t s = s"
  shows "scan_lines step content s = fold step (code_lines content) s"
proof -
  have "fold step (code_lines content) s = fold step (map trim (lines content)) s"
    unfolding code_lines_def by (rule fold_skip) (use assms in blast)
  then show ?thesis by (simp add: scan_lines_def fold_map comp_def)
qed

lemma comment_line: "strip_prefix (chs ''//'') t \<noteq> None \<longleftrightarrow> (\<exists>r. t = 47 # 47 # r)"
  by (cases t; cases "tl t") (auto simp: chs_def of_char_def)

lemmas keyword_eval = chs_def of_char_def

lemma skip_identity: "t = [] \<or> strip_prefix (chs ''//'') t \<noteq> None \<Longrightarrow> identity_line sha t s = s"
  unfolding comment_line by (auto simp: identity_line_def keyword_eval)

lemma skip_body: "t = [] \<or> strip_prefix (chs ''//'') t \<noteq> None \<Longrightarrow> body_line sha t s = s"
  unfolding comment_line by (auto simp: body_line_def keyword_eval)

lemma skip_pure: "t = [] \<or> strip_prefix (chs ''//'') t \<noteq> None \<Longrightarrow> pure_line sha t s = s"
  unfolding comment_line by (auto simp: pure_line_def keyword_eval)

lemma skip_in: "t = [] \<or> strip_prefix (chs ''//'') t \<noteq> None \<Longrightarrow> in_line sha t s = s"
  unfolding comment_line by (auto simp: in_line_def keyword_eval)

lemma skip_async: "t = [] \<or> strip_prefix (chs ''//'') t \<noteq> None \<Longrightarrow> async_line t s = s"
  by (simp add: async_line_def)

section \<open>One entry\<close>

text \<open>Each scanner on each kind of line.\<close>

lemma identity_kw:
  "identity_line sha (chs ''fn '' @ r) s = (case first_word r of Some n \<Rightarrow> s\<lparr>is_name := Some n, is_id := Some (sha (utf8_encode n))\<rparr> | None \<Rightarrow> s)"
  "identity_line sha (chs ''identity '' @ r) s = s\<lparr>is_id := or_else (hex_identity r) (is_id s)\<rparr>"
  "identity_line sha (chs ''in '' @ r) s = s"
  "identity_line sha (chs ''effect '' @ r) s = s"
  "identity_line sha (chs ''deterministic '' @ r) s = s"
  "identity_line sha (chs ''body '' @ r) s = s"
  "identity_line sha (chs ''bridge_contract'') s = s"
  "identity_line sha (chs ''background'') s = s"
  "identity_line sha (chs ''end'') s = commit_name s"
  by (simp_all add: identity_line_def keyword_eval)


lemma pure_kw:
  "pure_line sha (chs ''fn '' @ r) s = s\<lparr>ps_id := named_identity sha r, ps_pure := False, ps_det := False, ps_contract := False\<rparr>"
  "pure_line sha (chs ''identity '' @ r) s = s\<lparr>ps_id := or_else (hex_identity r) (ps_id s)\<rparr>"
  "pure_line sha (chs ''in '' @ r) s = s"
  "pure_line sha (chs ''effect '' @ r) s = s\<lparr>ps_pure := (trim r = chs ''pure'')\<rparr>"
  "pure_line sha (chs ''deterministic '' @ r) s = s\<lparr>ps_det := (trim r = chs ''true'')\<rparr>"
  "pure_line sha (chs ''body '' @ r) s = s"
  "pure_line sha (chs ''bridge_contract'') s = s\<lparr>ps_contract := True\<rparr>"
  "pure_line sha (chs ''background'') s = s"
  "pure_line sha (chs ''end'') s = (if ps_contract s then s\<lparr>ps_contract := False\<rparr>
    else (case ps_id s of
        Some i \<Rightarrow> s\<lparr>ps_id := None, ps_set := (if ps_pure s \<and> ps_det s then insert i (ps_set s) else ps_set s)\<rparr>
      | None \<Rightarrow> s))"
  by (simp_all add: pure_line_def keyword_eval)













section \<open>Files\<close>

lemma scans:
  "scan_lines (identity_line sha) content s1 = fold (identity_line sha) (code_lines content) s1"
  "scan_lines (body_line sha) content s2 = fold (body_line sha) (code_lines content) s2"
  "scan_lines (in_line sha) content s3 = fold (in_line sha) (code_lines content) s3"
  "scan_lines (pure_line sha) content s4 = fold (pure_line sha) (code_lines content) s4"
  "scan_lines async_line content s5 = fold async_line (code_lines content) s5"
  by (rule scan_code_lines, erule skip_identity skip_body skip_in skip_pure skip_async)+

lemma map_upd_rev: "fold (\<lambda>x m. m(k x \<mapsto> v x)) xs m = m ++ map_of (rev (map (\<lambda>x. (k x, v x)) xs))"
  by (induction xs arbitrary: m) (simp_all add: map_add_upd_left)






lemma code_lines_unlines:
  assumes "list_all (\<lambda>l. l \<noteq> [] \<and> trimmed l \<and> 10 \<notin> set l \<and> strip_prefix (chs ''//'') l = None) ls"
  shows "code_lines (unlines ls) = ls"
proof -
  have "lines (unlines ls) = ls"
    using assms by (intro lines_unlines) (auto simp: list_all_iff trimmed_def)
  moreover have "map trim ls = ls" using assms by (induction ls) (auto simp: trim_id)
  ultimately show ?thesis using assms by (auto simp: code_lines_def list_all_iff filter_id_conv)
qed



section \<open>Properties\<close>



text \<open>An entry whose contract block precedes its identity.\<close>

definition contract_first :: "hash256 \<Rightarrow> str list" where
  "contract_first h =
     [chs ''fn f'', chs ''bridge_contract'', chs ''end'', chs ''identity '' @ hex_text h, chs ''effect pure'',
      chs ''deterministic true'', chs ''end'']"

lemma contract_first_lines: "code_lines (unlines (contract_first h)) = contract_first h"
proof (rule code_lines_unlines)
  have "list_all (\<lambda>c. 48 \<le> c) (hex_text h)" "hex_text h \<noteq> []"
    using hex_range [of h] by (auto simp: hex_text_def list_all_iff keyword_eval)
  moreover have "\<forall>c \<in> set (hex_text h). c < 128"
    using hex_range [of h] by (auto simp: hex_text_def list_all_iff keyword_eval)
  then have "last (hex_text h) < 128" using \<open>hex_text h \<noteq> []\<close> last_in_set by blast
  ultimately have "10 \<notin> set (hex_text h)" "\<not> is_whitespace (last (hex_text h))"
    using not_ws_range [of "last (hex_text h)"] last_in_set [of "hex_text h"] by (auto simp: list_all_iff)
  then show "list_all (\<lambda>l. l \<noteq> [] \<and> trimmed l \<and> 10 \<notin> set l \<and> strip_prefix (chs ''//'') l = None) (contract_first h)"
    using \<open>hex_text h \<noteq> []\<close> by (simp add: contract_first_def keyword_eval trimmed_def is_whitespace_def)
qed

lemma contract_first_words:
  "chs ''fn f'' = chs ''fn '' @ chs ''f''" "chs ''effect pure'' = chs ''effect '' @ chs ''pure''"
  "chs ''deterministic true'' = chs ''deterministic '' @ chs ''true''"
  "first_word (chs ''f'') = Some (chs ''f'')" "utf8_encode (chs ''f'') = [0x66]"
  by (simp_all add: keyword_eval first_word_def trim_start_def is_whitespace_def utf8_encode_def utf8_encode1_def)

text \<open>
  The name scanner does not know contract blocks: when an entry's \<open>identity\<close> line follows its \<open>bridge_contract\<close>
  block, the name is registered under the hash of the name and the identity has no name, while the purity scanner attributes
  the same entry to the identity.
\<close>

theorem contract_before_identity_diverges:
  assumes "length h = 32" "sha [0x66] \<noteq> h"
  shows "load_registry_identity_map sha [Some (unlines (contract_first h))] = [sha [0x66] \<mapsto> [0x66]] \<and>
    load_registry_pure_det sha [Some (unlines (contract_first h))] = {h}"
  using assms
  unfolding load_registry_identity_map_def identity_file_def load_registry_pure_det_def pure_file_def scan_files.simps
    scans contract_first_lines
  by (simp add: contract_first_def contract_first_words identity_kw pure_kw commit_name_def
      hex_identity_text or_else_def named_identity_def trim_words)

theorem contract_before_identity_diverges_witness:
  "load_registry_identity_map (\<lambda>b. b) [Some (unlines (contract_first (replicate 32 7)))] = [[0x66] \<mapsto> [0x66]]"
  using contract_before_identity_diverges [of "replicate 32 7" "\<lambda>b. b"] by (simp add: numeral_eq_Suc)

end
