(* ===== verification/FileSys.thy ===== *)
theory FileSys
  imports Payload "HOL-Library.AList"
begin

text \<open>
  What the storage code uses of \<open>std::fs\<close>, for the files of one directory: the directory as it is now and as it is on
  stable storage, and for each file its bytes and how many of them have been fsynced. A crash keeps, for every name, the
  stable or the current entry, and of every file at least the fsynced prefix; the rest of a file may be anything. Failing
  system calls other than a missing file are not modelled.
\<close>

type_synonym ino = nat

record fs =
  fs_dir :: "(rstring \<times> ino) list"
  fs_ddir :: "(rstring \<times> ino) list"
  fs_data :: "ino \<Rightarrow> bytes"
  fs_synced :: "ino \<Rightarrow> nat"
  fs_next :: ino

definition fs_remove :: "rstring \<Rightarrow> fs \<Rightarrow> fs" where
  "fs_remove name s = s\<lparr>fs_dir := AList.delete name (fs_dir s)\<rparr>"

text \<open>\<open>OpenOptions::create(true).write(true)\<close>: the file is made when there is none.\<close>

definition fs_create :: "rstring \<Rightarrow> fs \<Rightarrow> fs" where
  "fs_create name s =
     (if map_of (fs_dir s) name \<noteq> None then s
      else s\<lparr>fs_dir := (name, fs_next s) # fs_dir s, fs_data := (fs_data s)(fs_next s := []),
             fs_synced := (fs_synced s)(fs_next s := 0), fs_next := Suc (fs_next s)\<rparr>)"

definition fs_write :: "ino \<Rightarrow> bytes \<Rightarrow> fs \<Rightarrow> fs" where
  "fs_write i bs s = s\<lparr>fs_data := (fs_data s)(i := fs_data s i @ bs)\<rparr>"

definition fs_sync :: "ino \<Rightarrow> fs \<Rightarrow> fs" where
  "fs_sync i s = s\<lparr>fs_synced := (fs_synced s)(i := length (fs_data s i))\<rparr>"

definition fs_sync_dir :: "fs \<Rightarrow> fs" where
  "fs_sync_dir s = s\<lparr>fs_ddir := fs_dir s\<rparr>"

definition fs_rename :: "rstring \<Rightarrow> rstring \<Rightarrow> fs \<Rightarrow> fs option" where
  "fs_rename a b s =
     (case map_of (fs_dir s) a of
        None \<Rightarrow> None
      | Some i \<Rightarrow> Some (s\<lparr>fs_dir := AList.update b i (AList.delete a (fs_dir s))\<rparr>))"

text \<open>What a crash may leave behind.\<close>

definition crashed :: "fs \<Rightarrow> fs \<Rightarrow> bool" where
  "crashed s s' \<longleftrightarrow>
     (\<forall>n. map_of (fs_dir s') n \<in> {map_of (fs_dir s) n, map_of (fs_ddir s) n}) \<and>
     (\<forall>i. take (fs_synced s i) (fs_data s' i) = take (fs_synced s i) (fs_data s i)) \<and>
     (\<forall>i. fs_synced s i = length (fs_data s i) \<longrightarrow> fs_data s' i = fs_data s i)"

text \<open>The bytes on stable storage under a name, whichever entry survives.\<close>

lemma crashed_stable:
  assumes "crashed s s'" "map_of (fs_dir s) n = Some i" "map_of (fs_ddir s) n = Some i" "fs_synced s i = length (fs_data s i)"
  shows "map_of (fs_dir s') n = Some i \<and> fs_data s' i = fs_data s i"
  using assms unfolding crashed_def by (metis insertE singletonD)

end
