(* ===== verification/Slab.thy ===== *)
theory Slab
  imports FileSys Decimal
begin

text \<open>
  The block writer of \<open>src/src/runtime/slablock.rs\<close>: records are appended to an active block file, fsynced on a timed
  sweep and sealed by a rename. The state is a \<open>slab\<close> (the Rust struct, its counters included) and the files of its
  directory; names are relative to that directory. A panic of the source is a \<open>slab_error\<close>. The clock is an argument, in
  nanoseconds; SHA-256 is a parameter, the incremental hasher is the bytes it was fed.
\<close>

section \<open>State\<close>

record block =
  bk_seq :: int
  bk_path :: rstring
  bk_file :: ino
  bk_len :: int
  bk_unflushed :: int
  bk_hasher :: bytes
  bk_dir_synced :: bool

record slab =
  sl_sla_us :: int
  sl_block_bytes :: int
  sl_next_seq :: int
  sl_active :: "block option"
  sl_full_pending :: "block list"
  sl_sealed :: "(int \<times> rstring \<times> int) list"
  sl_last_sweep :: "nat option"
  sl_appends :: int
  sl_data_fsyncs :: int
  sl_dir_fsyncs :: int
  sl_sweeps :: int
  sl_gated_ticks :: int

datatype slab_error = BadSla int | SealUnflushed int | SealRename | RangeTooBig int | NegativeRange | SeqOverflow | UnknownHandle int

definition DEFAULT_BLOCK_BYTES :: int where
  "DEFAULT_BLOCK_BYTES = 4 * 1024 * 1024"

definition sealed_path :: "int \<Rightarrow> rstring" where
  "sealed_path seq = lit ''block-'' @ int_dec seq @ lit ''.bin''"

definition part_path :: "int \<Rightarrow> rstring" where
  "part_path seq = lit ''block-'' @ int_dec seq @ lit ''.bin.part''"

section \<open>Blocks\<close>

definition mint_block :: "slab \<Rightarrow> fs \<Rightarrow> block \<times> slab \<times> fs" where
  "mint_block sl f =
     (let seq = sl_next_seq sl;
          path = part_path seq;
          f = fs_create path (fs_remove path f) in
      (\<lparr>bk_seq = seq, bk_path = path, bk_file = the (map_of (fs_dir f) path), bk_len = 0, bk_unflushed = 0,
        bk_hasher = [], bk_dir_synced = False\<rparr>,
       sl\<lparr>sl_next_seq := seq + 1\<rparr>, f))"

definition fsync_block :: "block \<Rightarrow> int \<Rightarrow> int \<Rightarrow> fs \<Rightarrow> block \<times> int \<times> int \<times> fs" where
  "fsync_block b data dirs f =
     (let f = fs_sync (bk_file b) f; b = b\<lparr>bk_unflushed := 0\<rparr> in
      if \<not> bk_dir_synced b then (b\<lparr>bk_dir_synced := True\<rparr>, data + 1, dirs + 1, fs_sync_dir f)
      else (b, data + 1, dirs, f))"

definition content_hash :: "(bytes \<Rightarrow> hash256) \<Rightarrow> bytes \<Rightarrow> rstring" where
  "content_hash sha bs = lit ''sha256:'' @ hash256_to_hex (sha bs)"

definition seal_block :: "(bytes \<Rightarrow> hash256) \<Rightarrow> block \<Rightarrow> slab \<Rightarrow> fs \<Rightarrow> slab_error + rstring \<times> slab \<times> fs" where
  "seal_block sha b sl f =
     (if bk_unflushed b \<noteq> 0 then Inl (SealUnflushed (bk_unflushed b))
      else case fs_rename (bk_path b) (sealed_path (bk_seq b)) f of
        None \<Rightarrow> Inl SealRename
      | Some f \<Rightarrow>
          let hash = content_hash sha (bk_hasher b) in
          Inr (hash,
            sl\<lparr>sl_dir_fsyncs := sl_dir_fsyncs sl + 1, sl_sealed := sl_sealed sl @ [(bk_seq b, hash, bk_len b)]\<rparr>,
            fs_sync_dir f))"

text \<open>The loop over the full blocks, which a sweep and \<open>slab_seal\<close> share.\<close>

fun drain :: "(bytes \<Rightarrow> hash256) \<Rightarrow> block list \<Rightarrow> int \<Rightarrow> int \<Rightarrow> slab \<Rightarrow> fs \<Rightarrow> slab_error + int \<times> int \<times> slab \<times> fs" where
  "drain sha [] data dirs sl f = Inr (data, dirs, sl, f)"
| "drain sha (b # bs) data dirs sl f =
     (let (b, data, dirs, f) = (if 0 < bk_unflushed b then fsync_block b data dirs f else (b, data, dirs, f));
          sl = sl\<lparr>sl_data_fsyncs := data, sl_dir_fsyncs := dirs\<rparr> in
      bindE (seal_block sha b sl f) (\<lambda>(_, sl, f). drain sha bs data dirs sl f))"

definition sweep :: "(bytes \<Rightarrow> hash256) \<Rightarrow> slab \<Rightarrow> fs \<Rightarrow> slab_error + int \<times> slab \<times> fs" where
  "sweep sha sl f =
     (let before = sl_data_fsyncs sl in
      bindE (drain sha (sl_full_pending sl) (sl_data_fsyncs sl) (sl_dir_fsyncs sl) (sl\<lparr>sl_full_pending := []\<rparr>) f)
        (\<lambda>(data, dirs, sl, f).
          let (act, data, dirs, f) =
                (case sl_active sl of
                   Some a \<Rightarrow>
                     if 0 < bk_unflushed a
                     then (let (a, data, dirs, f) = fsync_block a data dirs f in (Some a, data, dirs, f))
                     else (Some a, data, dirs, f)
                 | None \<Rightarrow> (None, data, dirs, f)) in
          Inr (data - before,
            sl\<lparr>sl_active := act, sl_data_fsyncs := data, sl_dir_fsyncs := dirs, sl_sweeps := sl_sweeps sl + 1\<rparr>, f)))"

section \<open>Operations\<close>

text \<open>The number of a sealed block's name: \<open>strip_prefix("block-")\<close>, \<open>strip_suffix(".bin")\<close>, \<open>parse::<i64>\<close>.\<close>

definition sealed_seq :: "rstring \<Rightarrow> int option" where
  "sealed_seq n =
     (let p = lit ''block-''; q = lit ''.bin'' in
      if take (length p) n = p then
        (let r = drop (length p) n in
         if length q \<le> length r \<and> drop (length r - length q) r = q then parse_i64 (take (length r - length q) r) else None)
      else None)"

definition resume_seq :: "fs \<Rightarrow> slab_error + int" where
  "resume_seq f =
     (case List.map_filter (\<lambda>(n, _). sealed_seq n) (fs_dir f) of
        [] \<Rightarrow> Inr 0
      | s # ss \<Rightarrow> let m = foldr max ss s in if m = 2 ^ 63 - 1 then Inl SeqOverflow else Inr (m + 1))"

definition slab_open :: "int \<Rightarrow> int \<Rightarrow> fs \<Rightarrow> slab_error + slab" where
  "slab_open sla_us block_bytes f =
     (if sla_us \<le> 0 then Inl (BadSla sla_us)
      else bindE (resume_seq f) (\<lambda>resume.
        Inr \<lparr>sl_sla_us = sla_us, sl_block_bytes = (if 0 < block_bytes then block_bytes else DEFAULT_BLOCK_BYTES),
          sl_next_seq = resume, sl_active = None, sl_full_pending = [], sl_sealed = [], sl_last_sweep = None,
          sl_appends = 0, sl_data_fsyncs = 0, sl_dir_fsyncs = 0, sl_sweeps = 0, sl_gated_ticks = 0\<rparr>))"

definition rotate :: "int \<Rightarrow> slab \<Rightarrow> slab" where
  "rotate n sl =
     (case sl_active sl of
        Some a \<Rightarrow>
          if 0 < bk_len a \<and> sl_block_bytes sl < bk_len a + n
          then sl\<lparr>sl_active := None, sl_full_pending := sl_full_pending sl @ [a]\<rparr> else sl
      | None \<Rightarrow> sl)"

definition ensure_active :: "slab \<Rightarrow> fs \<Rightarrow> block \<times> slab \<times> fs" where
  "ensure_active sl f = (case sl_active sl of Some a \<Rightarrow> (a, sl, f) | None \<Rightarrow> mint_block sl f)"

definition slab_append :: "bytes \<Rightarrow> slab \<Rightarrow> fs \<Rightarrow> int \<times> slab \<times> fs" where
  "slab_append bs sl f =
     (let n = int (length bs);
          (a, sl, f) = ensure_active (rotate n sl) f;
          off = bk_len a;
          a' = a\<lparr>bk_hasher := bk_hasher a @ bs, bk_len := bk_len a + n, bk_unflushed := bk_unflushed a + n\<rparr> in
      (off, sl\<lparr>sl_active := Some a', sl_appends := sl_appends sl + 1\<rparr>, fs_write (bk_file a) bs f))"

text \<open>The raw variant reads its bytes from memory the caller owns: \<open>mem\<close> gives \<open>len\<close> bytes at an address.\<close>

definition slab_append_raw :: "(int \<Rightarrow> nat \<Rightarrow> bytes) \<Rightarrow> int \<Rightarrow> int \<Rightarrow> int \<Rightarrow> slab \<Rightarrow> fs \<Rightarrow> slab_error + int \<times> slab \<times> fs" where
  "slab_append_raw mem ptr off len sl f =
     (if off < 0 \<or> len < 0 then Inl NegativeRange
      else if sl_block_bytes sl < len then Inl (RangeTooBig len)
      else Inr (slab_append (mem (ptr + off) (nat len)) sl f))"

definition slab_tick :: "(bytes \<Rightarrow> hash256) \<Rightarrow> nat \<Rightarrow> slab \<Rightarrow> fs \<Rightarrow> slab_error + int \<times> slab \<times> fs" where
  "slab_tick sha now sl f =
     (case sl_last_sweep sl of
        Some prev \<Rightarrow>
          if int ((now - prev) div 1000) < sl_sla_us sl
          then Inr (- 1, sl\<lparr>sl_gated_ticks := sl_gated_ticks sl + 1\<rparr>, f)
          else sweep sha (sl\<lparr>sl_last_sweep := Some now\<rparr>) f
      | None \<Rightarrow> sweep sha (sl\<lparr>sl_last_sweep := Some now\<rparr>) f)"

definition slab_seal :: "(bytes \<Rightarrow> hash256) \<Rightarrow> slab \<Rightarrow> fs \<Rightarrow> slab_error + rstring \<times> slab \<times> fs" where
  "slab_seal sha sl f =
     bindE (drain sha (sl_full_pending sl) (sl_data_fsyncs sl) (sl_dir_fsyncs sl) (sl\<lparr>sl_full_pending := []\<rparr>) f)
       (\<lambda>(data, dirs, sl, f).
         case sl_active sl of
           None \<Rightarrow> Inr (lit ''EMPTY'', sl, f)
         | Some b \<Rightarrow>
             if bk_len b = 0 then Inr (lit ''EMPTY'', sl, f)
             else (let (b, data, dirs, f) =
                     (if 0 < bk_unflushed b then fsync_block b data dirs f else (b, data, dirs, f)) in
               seal_block sha b (sl\<lparr>sl_active := None, sl_data_fsyncs := data, sl_dir_fsyncs := dirs\<rparr>) f))"

section \<open>Reports\<close>

definition tab :: rstring where
  "tab = [9]"

definition slab_stats :: "slab \<Rightarrow> rstring" where
  "slab_stats sl =
     (let (aseq, alen, aunf) =
        (case sl_active sl of Some a \<Rightarrow> (bk_seq a, bk_len a, bk_unflushed a) | None \<Rightarrow> (- 1, 0, 0)) in
      lit ''appends='' @ int_dec (sl_appends sl) @ tab @ lit ''data_fsyncs='' @ int_dec (sl_data_fsyncs sl) @ tab @
      lit ''dir_fsyncs='' @ int_dec (sl_dir_fsyncs sl) @ tab @ lit ''sweeps='' @ int_dec (sl_sweeps sl) @ tab @
      lit ''gated='' @ int_dec (sl_gated_ticks sl) @ tab @ lit ''sealed='' @ nat_text (length (sl_sealed sl)) @ tab @
      lit ''active_seq='' @ int_dec aseq @ tab @ lit ''active_len='' @ int_dec alen @ tab @
      lit ''active_unflushed='' @ int_dec aunf @ tab @ lit ''sla_us='' @ int_dec (sl_sla_us sl))"

fun slab_sealed_lines :: "(int \<times> rstring \<times> int) list \<Rightarrow> rstring" where
  "slab_sealed_lines [] = []"
| "slab_sealed_lines [(s, h, n)] = int_dec s @ tab @ h @ tab @ int_dec n"
| "slab_sealed_lines ((s, h, n) # r) = int_dec s @ tab @ h @ tab @ int_dec n @ [10] @ slab_sealed_lines r"

definition slab_sealed :: "slab \<Rightarrow> rstring" where
  "slab_sealed sl = slab_sealed_lines (sl_sealed sl)"

section \<open>Handles\<close>

text \<open>The per-thread table of writers.\<close>

record slabs =
  th_slabs :: "int \<Rightarrow> slab option"
  th_next :: int

definition open_handle :: "slab \<Rightarrow> slabs \<Rightarrow> int \<times> slabs" where
  "open_handle sl t = (th_next t, t\<lparr>th_slabs := (th_slabs t)(th_next t \<mapsto> sl), th_next := th_next t + 1\<rparr>)"

definition with_slab :: "int \<Rightarrow> (slab \<Rightarrow> slab_error + 'r \<times> slab \<times> fs) \<Rightarrow> slabs \<Rightarrow> slab_error + 'r \<times> slabs \<times> fs" where
  "with_slab h op t =
     (case th_slabs t h of
        None \<Rightarrow> Inl (UnknownHandle h)
      | Some sl \<Rightarrow> bindE (op sl) (\<lambda>(r, sl', f). Inr (r, t\<lparr>th_slabs := (th_slabs t)(h \<mapsto> sl')\<rparr>, f)))"

end
