(* ===== verification/SlabRules.thy ===== *)
theory SlabRules
  imports Slab
begin

text \<open>
  The invariant of the block writer and what it promises: nothing appended is lost, reordered or split, a fired tick makes
  everything appended so far survive a crash, and a sealed name always stands for a complete block.
\<close>

section \<open>Files\<close>

lemma map_of_dir [simp]:
  "map_of (fs_dir (fs_remove n f)) = (map_of (fs_dir f))(n := None)"
  "map_of (fs_dir (fs_write i bs f)) = map_of (fs_dir f)"
  "map_of (fs_dir (fs_sync i f)) = map_of (fs_dir f)"
  "map_of (fs_dir (fs_sync_dir f)) = map_of (fs_dir f)"
  by (simp_all add: fs_remove_def fs_write_def fs_sync_def fs_sync_dir_def delete_conv')

lemma fs_remake:
  "map_of (fs_dir (fs_create n (fs_remove n f))) = (map_of (fs_dir f))(n \<mapsto> fs_next f)"
  "fs_ddir (fs_create n (fs_remove n f)) = fs_ddir f"
  "fs_data (fs_create n (fs_remove n f)) = (fs_data f)(fs_next f := [])"
  "fs_synced (fs_create n (fs_remove n f)) = (fs_synced f)(fs_next f := 0)"
  "fs_next (fs_create n (fs_remove n f)) = Suc (fs_next f)"
  by (simp_all add: fs_create_def fs_remove_def delete_conv')

lemma fs_rename_Some:
  assumes "map_of (fs_dir f) a = Some i"
  shows "\<exists>g. fs_rename a b f = Some g \<and> map_of (fs_dir g) = (map_of (fs_dir f))(a := None, b \<mapsto> i) \<and>
    fs_ddir g = fs_ddir f \<and> fs_data g = fs_data f \<and> fs_synced g = fs_synced f \<and> fs_next g = fs_next f"
  using assms by (simp add: fs_rename_def delete_conv' update_conv')

text \<open>Names of blocks are pairwise different.\<close>

lemma path_inject [simp]: "part_path i = part_path j \<longleftrightarrow> i = j" "sealed_path i = sealed_path j \<longleftrightarrow> i = j"
  by (simp_all add: part_path_def sealed_path_def int_dec_inject)

lemma path_distinct [simp]: "part_path i \<noteq> sealed_path j" "sealed_path j \<noteq> part_path i"
proof -
  have "last (part_path i) \<noteq> last (sealed_path j)" by (simp add: part_path_def sealed_path_def lit_def of_char_def)
  then show "part_path i \<noteq> sealed_path j" "sealed_path j \<noteq> part_path i" by metis+
qed

section \<open>The invariant\<close>

definition fs_wf :: "fs \<Rightarrow> bool" where
  "fs_wf f \<longleftrightarrow> (\<forall>m n i. map_of (fs_dir f) m = Some i \<longrightarrow> map_of (fs_dir f) n = Some i \<longrightarrow> m = n) \<and>
     (\<forall>n i. map_of (fs_dir f) n = Some i \<longrightarrow> i < fs_next f)"

definition block_ok :: "fs \<Rightarrow> block \<Rightarrow> bool" where
  "block_ok f b \<longleftrightarrow>
     bk_path b = part_path (bk_seq b) \<and> map_of (fs_dir f) (bk_path b) = Some (bk_file b) \<and>
     bk_hasher b = fs_data f (bk_file b) \<and> bk_len b = int (length (fs_data f (bk_file b))) \<and>
     fs_synced f (bk_file b) \<le> length (fs_data f (bk_file b)) \<and>
     bk_unflushed b = int (length (fs_data f (bk_file b))) - int (fs_synced f (bk_file b)) \<and>
     (bk_dir_synced b \<longrightarrow> map_of (fs_ddir f) (bk_path b) = Some (bk_file b)) \<and>
     (0 < fs_synced f (bk_file b) \<longrightarrow> bk_dir_synced b)"

fun sealed_ok :: "(bytes \<Rightarrow> hash256) \<Rightarrow> fs \<Rightarrow> int \<times> rstring \<times> int \<Rightarrow> bool" where
  "sealed_ok sha f (seq, hash, n) \<longleftrightarrow>
     (\<exists>i. map_of (fs_dir f) (sealed_path seq) = Some i \<and> map_of (fs_ddir f) (sealed_path seq) = Some i \<and>
       fs_synced f i = length (fs_data f i) \<and> n = int (length (fs_data f i)) \<and> hash = content_hash sha (fs_data f i))"

definition live :: "slab \<Rightarrow> block list" where
  "live sl = sl_full_pending sl @ (case sl_active sl of Some a \<Rightarrow> [a] | None \<Rightarrow> [])"

definition seqs :: "slab \<Rightarrow> int list" where
  "seqs sl = map fst (sl_sealed sl) @ map bk_seq (live sl)"

definition slab_inv :: "(bytes \<Rightarrow> hash256) \<Rightarrow> slab \<Rightarrow> fs \<Rightarrow> bool" where
  "slab_inv sha sl f \<longleftrightarrow>
     fs_wf f \<and> list_all (block_ok f) (live sl) \<and> list_all (sealed_ok sha f) (sl_sealed sl) \<and>
     distinct (seqs sl) \<and> list_all (\<lambda>s. s < sl_next_seq sl) (seqs sl) \<and> list_all (\<lambda>b. 0 < bk_len b) (sl_full_pending sl)"

text \<open>The bytes of a name, and of everything the writer was given, in order.\<close>

definition file_bytes :: "fs \<Rightarrow> rstring \<Rightarrow> bytes" where
  "file_bytes f n = (case map_of (fs_dir f) n of Some i \<Rightarrow> fs_data f i | None \<Rightarrow> [])"

definition contents :: "slab \<Rightarrow> fs \<Rightarrow> bytes" where
  "contents sl f = concat (map (\<lambda>e. file_bytes f (sealed_path (fst e))) (sl_sealed sl)) @
     concat (map (\<lambda>b. file_bytes f (bk_path b)) (live sl))"

section \<open>Appending\<close>

lemma block_ok_other:
  assumes "fs_wf f" "block_ok f b" "map_of (fs_dir f) n = Some i" "n \<noteq> bk_path b"
  shows "bk_file b \<noteq> i"
  using assms by (auto simp: fs_wf_def block_ok_def)

lemma block_okD:
  assumes "block_ok f b"
  shows "bk_path b = part_path (bk_seq b)" "map_of (fs_dir f) (bk_path b) = Some (bk_file b)"
    "bk_len b = int (length (fs_data f (bk_file b)))"
    "bk_unflushed b = int (length (fs_data f (bk_file b))) - int (fs_synced f (bk_file b))"
    "fs_synced f (bk_file b) \<le> length (fs_data f (bk_file b))"
  using assms unfolding block_ok_def by auto

lemma sealed_file_other:
  assumes "fs_wf f" "block_ok f b" "map_of (fs_dir f) (sealed_path k) = Some i"
  shows "i \<noteq> bk_file b"
  using assms block_okD(1,2) [OF assms(2)] unfolding fs_wf_def by (metis path_distinct(1))

lemma rotate_live: "live (rotate n sl) = live sl" "sl_sealed (rotate n sl) = sl_sealed sl"
    "sl_next_seq (rotate n sl) = sl_next_seq sl" "sl_block_bytes (rotate n sl) = sl_block_bytes sl"
  by (auto simp: rotate_def live_def split: option.split)

lemma rotate_inv: "slab_inv sha sl f \<Longrightarrow> slab_inv sha (rotate n sl) f" "contents (rotate n sl) f = contents sl f"
proof -
  have "list_all (\<lambda>b. 0 < bk_len b) (sl_full_pending sl) \<Longrightarrow> list_all (\<lambda>b. 0 < bk_len b) (sl_full_pending (rotate n sl))"
    by (simp add: rotate_def split: option.split)
  then show "slab_inv sha sl f \<Longrightarrow> slab_inv sha (rotate n sl) f" by (simp add: slab_inv_def seqs_def rotate_live)
qed (simp add: contents_def rotate_live)

lemma block_ok_remake:
  assumes wf: "fs_wf f" and b: "block_ok f b" and n: "n \<noteq> bk_path b"
  shows "block_ok (fs_create n (fs_remove n f)) b"
proof -
  have "bk_file b < fs_next f" using wf b by (auto simp: fs_wf_def block_ok_def)
  then show ?thesis using b n by (auto simp: block_ok_def fs_remake)
qed

lemma sealed_ok_remake:
  assumes wf: "fs_wf f" and b: "sealed_ok sha f e" and n: "n \<noteq> sealed_path (fst e)"
  shows "sealed_ok sha (fs_create n (fs_remove n f)) e"
proof -
  obtain seq hash m where e: "e = (seq, hash, m)" by (cases e)
  from b e obtain i where i: "map_of (fs_dir f) (sealed_path seq) = Some i" by auto
  then have "i < fs_next f" using wf by (auto simp: fs_wf_def)
  then show ?thesis using b n e i by (auto simp: fs_remake)
qed

lemma file_bytes_remake:
  assumes "fs_wf f" "n \<noteq> m"
  shows "file_bytes (fs_create m (fs_remove m f)) n = file_bytes f n"
proof (cases "map_of (fs_dir f) n")
  case (Some i)
  then have "i < fs_next f" using assms(1) by (simp add: fs_wf_def)
  with Some assms(2) show ?thesis by (simp add: file_bytes_def fs_remake)
qed (use assms(2) in \<open>simp add: file_bytes_def fs_remake\<close>)

lemma mint_inv:
  assumes inv: "slab_inv sha sl f" and none: "sl_active sl = None" and m: "mint_block sl f = (a, sl', f')"
  shows "slab_inv sha (sl'\<lparr>sl_active := Some a\<rparr>) f' \<and> contents (sl'\<lparr>sl_active := Some a\<rparr>) f' = contents sl f \<and> bk_len a = 0"
proof -
  let ?s = "sl_next_seq sl" and ?p = "part_path (sl_next_seq sl)"
  have f': "f' = fs_create ?p (fs_remove ?p f)" and sl': "sl' = sl\<lparr>sl_next_seq := ?s + 1\<rparr>"
    and a: "a = \<lparr>bk_seq = ?s, bk_path = ?p, bk_file = fs_next f, bk_len = 0, bk_unflushed = 0, bk_hasher = [], bk_dir_synced = False\<rparr>"
    using m by (auto simp: mint_block_def Let_def fs_remake)
  have wf: "fs_wf f" using inv by (simp add: slab_inv_def)
  have live: "live (sl'\<lparr>sl_active := Some a\<rparr>) = live sl @ [a]" using none by (simp add: live_def sl')
  have old: "bk_seq b < ?s" "block_ok f b" if "b \<in> set (live sl)" for b
    using inv that by (auto simp: slab_inv_def seqs_def list_all_iff)
  have olds: "fst e < ?s" "sealed_ok sha f e" if "e \<in> set (sl_sealed sl)" for e
    using inv that by (auto simp: slab_inv_def seqs_def list_all_iff)
  have path: "bk_path b \<noteq> ?p" if "b \<in> set (live sl)" for b using old [OF that] by (auto simp: block_ok_def)
  have "fs_wf f'" using wf by (auto simp: fs_wf_def f' fs_remake less_SucI split: if_splits)
  moreover have "list_all (block_ok f') (live sl @ [a])"
  proof -
    have "block_ok f' a" by (simp add: block_ok_def a f' fs_remake)
    moreover have "list_all (block_ok f') (live sl)"
      using block_ok_remake [OF wf old(2)] path unfolding f' list_all_iff by metis
    ultimately show ?thesis by simp
  qed
  moreover have "list_all (sealed_ok sha f') (sl_sealed sl)"
    using sealed_ok_remake [OF wf olds(2)] by (auto simp: list_all_iff f')
  moreover have "seqs (sl'\<lparr>sl_active := Some a\<rparr>) = seqs sl @ [?s]" by (simp add: seqs_def live) (simp add: sl' a)
  moreover have "list_all (\<lambda>s. s < ?s) (seqs sl)" "distinct (seqs sl)" using inv by (simp_all add: slab_inv_def)
  then have "distinct (seqs sl @ [?s])" "list_all (\<lambda>s. s < ?s + 1) (seqs sl @ [?s])" by (auto simp: list_all_iff)
  moreover have "file_bytes f' (bk_path b) = file_bytes f (bk_path b)" if "b \<in> set (live sl)" for b
    using file_bytes_remake [OF wf path [OF that]] by (simp add: f')
  moreover have "file_bytes f' (sealed_path (fst e)) = file_bytes f (sealed_path (fst e))" for e :: "int \<times> rstring \<times> int"
    using file_bytes_remake [OF wf] by (simp add: f')
  moreover have "file_bytes f' ?p = []" by (simp add: file_bytes_def f' fs_remake)
  moreover have "list_all (\<lambda>b. 0 < bk_len b) (sl_full_pending sl)" using inv by (simp add: slab_inv_def)
  ultimately have "slab_inv sha (sl'\<lparr>sl_active := Some a\<rparr>) f'" "contents (sl'\<lparr>sl_active := Some a\<rparr>) f' = contents sl f"
    by (simp_all add: slab_inv_def contents_def live cong: map_cong) (simp_all add: sl' a)
  then show ?thesis by (simp add: a)
qed

lemma write_inv:
  assumes inv: "slab_inv sha sl f" and act: "sl_active sl = Some a"
    and a': "a' = a\<lparr>bk_hasher := bk_hasher a @ bs, bk_len := bk_len a + int (length bs), bk_unflushed := bk_unflushed a + int (length bs)\<rparr>"
  shows "slab_inv sha (sl\<lparr>sl_active := Some a'\<rparr>) (fs_write (bk_file a) bs f) \<and>
    contents (sl\<lparr>sl_active := Some a'\<rparr>) (fs_write (bk_file a) bs f) = contents sl f @ bs"
proof -
  let ?g = "fs_write (bk_file a) bs f"
  have wf: "fs_wf f" and a: "block_ok f a" using inv act by (simp_all add: slab_inv_def live_def)
  have pend: "block_ok f b" "bk_path b \<noteq> bk_path a" if b: "b \<in> set (sl_full_pending sl)" for b
  proof -
    show ok: "block_ok f b" using inv b by (simp add: slab_inv_def live_def list_all_iff)
    have "bk_seq b \<noteq> bk_seq a" using inv act b by (auto simp: slab_inv_def seqs_def live_def image_iff)
    then show "bk_path b \<noteq> bk_path a" using block_okD(1) [OF ok] block_okD(1) [OF a] by simp
  qed
  have other: "bk_file b \<noteq> bk_file a" if "b \<in> set (sl_full_pending sl)" for b
    using block_ok_other [OF wf pend(1) [OF that], of "bk_path a" "bk_file a"] pend(2) [OF that] a by (auto simp: block_ok_def)
  have sealed: "sealed_ok sha ?g e" "file_bytes ?g (sealed_path (fst e)) = file_bytes f (sealed_path (fst e))"
    if "e \<in> set (sl_sealed sl)" for e
  proof -
    have "sealed_ok sha f e" using inv that by (simp add: slab_inv_def list_all_iff)
    then obtain i where i: "map_of (fs_dir f) (sealed_path (fst e)) = Some i" by (cases e) auto
    moreover have "i \<noteq> bk_file a" using sealed_file_other [OF wf a i] .
    ultimately show "sealed_ok sha ?g e" "file_bytes ?g (sealed_path (fst e)) = file_bytes f (sealed_path (fst e))"
      using \<open>sealed_ok sha f e\<close> by (cases e, auto simp: fs_write_def file_bytes_def)+
  qed
  have "block_ok ?g b \<and> file_bytes ?g (bk_path b) = file_bytes f (bk_path b)" if "b \<in> set (sl_full_pending sl)" for b
    using pend(1) [OF that] other [OF that] by (auto simp: block_ok_def fs_write_def file_bytes_def)
  moreover have "block_ok ?g a'" "file_bytes ?g (bk_path a') = file_bytes f (bk_path a) @ bs"
    using a by (auto simp: block_ok_def a' fs_write_def file_bytes_def)
  moreover have "fs_wf ?g" using wf by (simp add: fs_wf_def fs_write_def)
  ultimately show ?thesis using inv act sealed
    by (auto simp: slab_inv_def live_def seqs_def contents_def list_all_iff a' cong: map_cong)
qed

lemma inv_counters [simp]:
  "slab_inv sha (sl\<lparr>sl_appends := x\<rparr>) f = slab_inv sha sl f" "contents (sl\<lparr>sl_appends := x\<rparr>) f = contents sl f"
  "slab_inv sha (sl\<lparr>sl_data_fsyncs := x\<rparr>) f = slab_inv sha sl f" "contents (sl\<lparr>sl_data_fsyncs := x\<rparr>) f = contents sl f"
  "slab_inv sha (sl\<lparr>sl_dir_fsyncs := x\<rparr>) f = slab_inv sha sl f" "contents (sl\<lparr>sl_dir_fsyncs := x\<rparr>) f = contents sl f"
  "slab_inv sha (sl\<lparr>sl_sweeps := x\<rparr>) f = slab_inv sha sl f" "contents (sl\<lparr>sl_sweeps := x\<rparr>) f = contents sl f"
  "slab_inv sha (sl\<lparr>sl_gated_ticks := x\<rparr>) f = slab_inv sha sl f" "contents (sl\<lparr>sl_gated_ticks := x\<rparr>) f = contents sl f"
  "slab_inv sha (sl\<lparr>sl_last_sweep := y\<rparr>) f = slab_inv sha sl f" "contents (sl\<lparr>sl_last_sweep := y\<rparr>) f = contents sl f"
  by (simp_all add: slab_inv_def contents_def live_def seqs_def)

lemma ensure_active_inv:
  assumes "slab_inv sha sl f" "ensure_active sl f = (a, sl', f')"
  shows "slab_inv sha (sl'\<lparr>sl_active := Some a\<rparr>) f' \<and> contents (sl'\<lparr>sl_active := Some a\<rparr>) f' = contents sl f"
proof (cases "sl_active sl")
  case None
  then show ?thesis using mint_inv [OF assms(1)] assms(2) by (simp add: ensure_active_def)
next
  case (Some b)
  then have "a = b" "sl' = sl" "f' = f" "sl\<lparr>sl_active := Some b\<rparr> = sl" using assms(2) by (simp_all add: ensure_active_def)
  then show ?thesis using assms(1) by simp
qed

lemma append_inv:
  assumes "slab_inv sha sl f" "slab_append bs sl f = (off, sl', f')"
  shows "slab_inv sha sl' f' \<and> contents sl' f' = contents sl f @ bs"
proof -
  let ?n = "int (length bs)"
  obtain a sl1 f1 where e: "ensure_active (rotate ?n sl) f = (a, sl1, f1)" by (metis prod_cases3)
  let ?a' = "a\<lparr>bk_hasher := bk_hasher a @ bs, bk_len := bk_len a + ?n, bk_unflushed := bk_unflushed a + ?n\<rparr>"
  have r: "sl' = sl1\<lparr>sl_active := Some ?a', sl_appends := sl_appends sl1 + 1\<rparr>" "f' = fs_write (bk_file a) bs f1"
    using assms(2) e by (auto simp: slab_append_def Let_def)
  from ensure_active_inv [OF rotate_inv(1) [OF assms(1)] e]
  have i: "slab_inv sha (sl1\<lparr>sl_active := Some a\<rparr>) f1" "contents (sl1\<lparr>sl_active := Some a\<rparr>) f1 = contents sl f"
    by (simp_all add: rotate_inv(2))
  have "sl' = (sl1\<lparr>sl_active := Some a\<rparr>)\<lparr>sl_active := Some ?a'\<rparr>\<lparr>sl_appends := sl_appends sl1 + 1\<rparr>" by (simp add: r)
  then show ?thesis using write_inv [OF i(1) _ refl, of a bs] i(2) r(2) by simp
qed

section \<open>Flushing\<close>

text \<open>An fsync changes nothing but how far one file, and perhaps the directory, are on stable storage.\<close>

definition synced_only :: "ino \<Rightarrow> fs \<Rightarrow> fs \<Rightarrow> bool" where
  "synced_only i f g \<longleftrightarrow> map_of (fs_dir g) = map_of (fs_dir f) \<and> fs_data g = fs_data f \<and> fs_next g = fs_next f \<and>
     (\<forall>j. j \<noteq> i \<longrightarrow> fs_synced g j = fs_synced f j) \<and>
     (map_of (fs_ddir g) = map_of (fs_ddir f) \<or> map_of (fs_ddir g) = map_of (fs_dir f))"

definition flush :: "block \<Rightarrow> int \<Rightarrow> int \<Rightarrow> fs \<Rightarrow> block \<times> int \<times> int \<times> fs" where
  "flush b data dirs f = (if 0 < bk_unflushed b then fsync_block b data dirs f else (b, data, dirs, f))"

lemma flush_block:
  assumes ok: "block_ok f b" and fl: "flush b data dirs f = (b', data', dirs', g)"
  shows "block_ok g b' \<and> synced_only (bk_file b) f g \<and> bk_unflushed b' = 0 \<and> (0 < bk_len b \<longrightarrow> bk_dir_synced b') \<and>
    bk_seq b' = bk_seq b \<and> bk_path b' = bk_path b \<and> bk_file b' = bk_file b \<and> bk_len b' = bk_len b \<and>
    data \<le> data'"
proof (cases "0 < bk_unflushed b")
  case True
  then have r: "fsync_block b data dirs f = (b', data', dirs', g)" using fl by (simp add: flush_def)
  note P = block_okD [OF ok]
  show ?thesis
  proof (cases "bk_dir_synced b")
    case True
    with r have "b' = b\<lparr>bk_unflushed := 0\<rparr>" "g = fs_sync (bk_file b) f" "data' = data + 1"
      by (simp_all add: fsync_block_def Let_def)
    then show ?thesis using True ok by (auto simp: block_ok_def synced_only_def fs_sync_def)
  next
    case False
    with r have "b' = b\<lparr>bk_unflushed := 0, bk_dir_synced := True\<rparr>" "g = fs_sync_dir (fs_sync (bk_file b) f)" "data' = data + 1"
      by (simp_all add: fsync_block_def Let_def)
    then show ?thesis using ok by (auto simp: block_ok_def synced_only_def fs_sync_def fs_sync_dir_def)
  qed
next
  case False
  then have "b' = b" "g = f" "data' = data" using fl by (simp_all add: flush_def)
  moreover have "bk_unflushed b = 0" "0 < bk_len b \<longrightarrow> bk_dir_synced b" using ok False by (auto simp: block_ok_def)
  ultimately show ?thesis using ok by (simp add: synced_only_def)
qed

lemma synced_only_block:
  assumes "synced_only i f g" "block_ok f c" "bk_file c \<noteq> i"
  shows "block_ok g c"
  using assms by (auto simp: synced_only_def block_ok_def)

lemma synced_only_sealed:
  assumes "synced_only i f g" "sealed_ok sha f e" "fs_wf f" "block_ok f b" "bk_file b = i"
  shows "sealed_ok sha g e"
proof -
  obtain seq hash n where e: "e = (seq, hash, n)" by (cases e)
  with assms(2) obtain j where j: "map_of (fs_dir f) (sealed_path seq) = Some j" "map_of (fs_ddir f) (sealed_path seq) = Some j"
    "fs_synced f j = length (fs_data f j)" "n = int (length (fs_data f j))" "hash = content_hash sha (fs_data f j)" by auto
  have "j \<noteq> i" using sealed_file_other [OF assms(3,4) j(1)] assms(5) by simp
  with assms(1) j e show ?thesis by (auto simp: synced_only_def)
qed

text \<open>Two lists of live blocks that differ in one flushed block.\<close>

lemma flush_inv:
  assumes inv: "slab_inv sha sl f" and fl: "flush b data dirs f = (b', data', dirs', g)"
    and l: "live sl = xs @ b # ys" "live sl' = xs @ b' # ys"
    and same: "sl_sealed sl' = sl_sealed sl" "sl_next_seq sl' = sl_next_seq sl"
    and pend: "list_all (\<lambda>b. 0 < bk_len b) (sl_full_pending sl')"
  shows "slab_inv sha sl' g \<and> contents sl' g = contents sl f"
proof -
  have wf: "fs_wf f" and b: "block_ok f b" using inv l by (simp_all add: slab_inv_def)
  note F = flush_block [OF b fl]
  have others: "block_ok g c" if c: "c \<in> set xs \<union> set ys" for c
  proof -
    have ok: "block_ok f c" using inv l c by (auto simp: slab_inv_def list_all_iff)
    have "bk_seq c \<noteq> bk_seq b" using inv l c by (auto simp: slab_inv_def seqs_def image_iff)
    then have "bk_path b \<noteq> bk_path c" using block_okD(1) [OF ok] block_okD(1) [OF b] by simp
    from block_ok_other [OF wf ok block_okD(2) [OF b] this] show ?thesis using synced_only_block [OF _ ok] F by blast
  qed
  have "list_all (sealed_ok sha g) (sl_sealed sl')"
    using inv F synced_only_sealed [OF _ _ wf b refl] same(1) by (auto simp: slab_inv_def list_all_iff)
  moreover have "list_all (block_ok g) (live sl')" using others F l(2) by (auto simp: list_all_iff)
  moreover have "fs_wf g" using wf F by (simp add: fs_wf_def synced_only_def)
  moreover have "seqs sl' = seqs sl" using F by (simp add: seqs_def l same)
  moreover have "map_of (fs_dir g) = map_of (fs_dir f)" "fs_data g = fs_data f" using F by (simp_all add: synced_only_def)
  then have "file_bytes g n = file_bytes f n" for n by (simp add: file_bytes_def split: option.split)
  ultimately show ?thesis using inv same pend F by (simp add: slab_inv_def contents_def l)
qed

section \<open>Sealing\<close>

lemma seal_block_inv:
  assumes inv: "slab_inv sha sl f" and l: "live sl = b # live sl'" and b: "bk_unflushed b = 0" "bk_dir_synced b"
    and same: "sl_sealed sl' = sl_sealed sl" "sl_next_seq sl' = sl_next_seq sl"
    and pend: "list_all (\<lambda>b. 0 < bk_len b) (sl_full_pending sl')"
  shows "\<exists>hash sl'' g. seal_block sha b sl' f = Inr (hash, sl'', g) \<and> hash = content_hash sha (file_bytes f (bk_path b)) \<and>
    sl'' = sl'\<lparr>sl_dir_fsyncs := sl_dir_fsyncs sl' + 1, sl_sealed := sl_sealed sl' @ [(bk_seq b, hash, bk_len b)]\<rparr> \<and>
    slab_inv sha sl'' g \<and> contents sl'' g = contents sl f"
proof -
  have wf: "fs_wf f" and ok: "block_ok f b" using inv l by (simp_all add: slab_inv_def)
  note P = block_okD [OF ok]
  let ?p = "sealed_path (bk_seq b)" and ?i = "bk_file b"
  obtain g where g: "fs_rename (bk_path b) ?p f = Some g" "map_of (fs_dir g) = (map_of (fs_dir f))(bk_path b := None, ?p \<mapsto> ?i)"
    "fs_data g = fs_data f" "fs_synced g = fs_synced f" "fs_next g = fs_next f"
    using fs_rename_Some [OF P(2), of ?p] by blast
  let ?g = "fs_sync_dir g" and ?h = "content_hash sha (bk_hasher b)"
  let ?sl = "sl'\<lparr>sl_dir_fsyncs := sl_dir_fsyncs sl' + 1, sl_sealed := sl_sealed sl' @ [(bk_seq b, ?h, bk_len b)]\<rparr>"
  have dir: "map_of (fs_dir ?g) = (map_of (fs_dir f))(bk_path b := None, ?p \<mapsto> ?i)" "map_of (fs_ddir ?g) = map_of (fs_dir ?g)"
    "fs_data ?g = fs_data f" "fs_synced ?g = fs_synced f" "fs_next ?g = fs_next f"
    using g by (simp_all add: fs_sync_dir_def)
  have old: "block_ok f c" "bk_path c \<noteq> bk_path b" if c: "c \<in> set (live sl')" for c
  proof -
    show okc: "block_ok f c" using inv l c by (auto simp: slab_inv_def list_all_iff)
    have "bk_seq c \<noteq> bk_seq b" using inv l c by (auto simp: slab_inv_def seqs_def image_iff)
    then show "bk_path c \<noteq> bk_path b" using block_okD(1) [OF okc] P(1) by simp
  qed
  have live: "block_ok ?g c" "file_bytes ?g (bk_path c) = file_bytes f (bk_path c)" if c: "c \<in> set (live sl')" for c
  proof -
    have "bk_path c \<noteq> ?p" using block_okD(1) [OF old(1) [OF c]] by simp
    then have "map_of (fs_dir ?g) (bk_path c) = map_of (fs_dir f) (bk_path c)" using old(2) [OF c] dir(1) by simp
    then show "block_ok ?g c" "file_bytes ?g (bk_path c) = file_bytes f (bk_path c)"
      using old(1) [OF c] dir(2-4) by (auto simp: block_ok_def file_bytes_def)
  qed
  have seald: "sealed_ok sha ?g e" "file_bytes ?g (sealed_path (fst e)) = file_bytes f (sealed_path (fst e))"
    if e: "e \<in> set (sl_sealed sl)" for e
  proof -
    have oke: "sealed_ok sha f e" using inv e by (simp add: slab_inv_def list_all_iff)
    have "fst e \<noteq> bk_seq b" using inv l e by (auto simp: slab_inv_def seqs_def image_iff)
    then have "map_of (fs_dir ?g) (sealed_path (fst e)) = map_of (fs_dir f) (sealed_path (fst e))" using dir(1) P(1) by simp
    then show "sealed_ok sha ?g e" "file_bytes ?g (sealed_path (fst e)) = file_bytes f (sealed_path (fst e))"
      using oke dir(2-4) by (cases e, auto simp: file_bytes_def)+
  qed
  have new: "sealed_ok sha ?g (bk_seq b, ?h, bk_len b)" using ok b dir by (simp add: block_ok_def)
  have hb: "file_bytes ?g ?p = file_bytes f (bk_path b)" using dir P(2) by (simp add: file_bytes_def)
  have "fs_wf ?g" using wf P(2) unfolding fs_wf_def dir by (auto split: if_splits)
  moreover have lv: "live ?sl = live sl'" by (simp add: live_def)
  moreover have "seqs ?sl = map fst (sl_sealed sl) @ bk_seq b # map bk_seq (live sl')" 
    unfolding seqs_def lv by (simp add: same)
  moreover have "seqs sl = map fst (sl_sealed sl) @ bk_seq b # map bk_seq (live sl')" by (simp add: seqs_def l)
  ultimately have "slab_inv sha ?sl ?g" "contents ?sl ?g = contents sl f"
    using inv live seald new hb pend same
    by (simp_all add: slab_inv_def contents_def l list_all_iff cong: map_cong)
  moreover have "seal_block sha b sl' f = Inr (?h, ?sl, ?g)" using b(1) g(1) by (simp add: seal_block_def Let_def)
  moreover have "?h = content_hash sha (file_bytes f (bk_path b))" using ok by (auto simp: block_ok_def file_bytes_def)
  ultimately show ?thesis by blast
qed

lemma drain_inv:
  assumes "slab_inv sha (sl\<lparr>sl_full_pending := bs\<rparr>) f" "sl_full_pending sl = []"
  shows "\<exists>data' dirs' sl' g. drain sha bs data dirs sl f = Inr (data', dirs', sl', g) \<and> slab_inv sha sl' g \<and>
    contents sl' g = contents (sl\<lparr>sl_full_pending := bs\<rparr>) f \<and> sl_full_pending sl' = [] \<and> sl_active sl' = sl_active sl \<and>
    data \<le> data' \<and> sl_block_bytes sl' = sl_block_bytes sl \<and> length (sl_sealed sl') = length (sl_sealed sl) + length bs"
  using assms
proof (induction bs arbitrary: data dirs sl f)
  case Nil
  have eq: "sl\<lparr>sl_full_pending := []\<rparr> = sl" using Nil.prems(2) by simp
  show ?case using Nil.prems unfolding eq by simp
next
  case (Cons b bs)
  obtain b' data1 dirs1 f1 where fl: "flush b data dirs f = (b', data1, dirs1, f1)" by (metis prod_cases4)
  let ?s0 = "sl\<lparr>sl_full_pending := b # bs\<rparr>" and ?s1 = "sl\<lparr>sl_full_pending := b' # bs\<rparr>"
  let ?c = "sl\<lparr>sl_data_fsyncs := data1, sl_dir_fsyncs := dirs1\<rparr>"
  have ok: "block_ok f b" and len: "0 < bk_len b" "list_all (\<lambda>b. 0 < bk_len b) bs"
    using Cons.prems(1) by (simp_all add: slab_inv_def live_def)
  note F = flush_block [OF ok fl]
  have i1: "slab_inv sha ?s1 f1" "contents ?s1 f1 = contents ?s0 f"
    using flush_inv [OF Cons.prems(1) fl, of "[]" "tl (live ?s0)" ?s1] F len by (simp_all add: live_def)
  let ?s2 = "?c\<lparr>sl_full_pending := bs\<rparr>"
  have l: "live ?s1 = b' # live ?s2" by (simp add: live_def)
  obtain hash sl3 g where s3: "seal_block sha b' ?s2 f1 = Inr (hash, sl3, g)"
    "sl3 = ?s2\<lparr>sl_dir_fsyncs := sl_dir_fsyncs ?s2 + 1, sl_sealed := sl_sealed ?s2 @ [(bk_seq b', hash, bk_len b')]\<rparr>"
    "slab_inv sha sl3 g" "contents sl3 g = contents ?s1 f1"
    using seal_block_inv [OF i1(1) l] F len by auto
  let ?c3 = "?c\<lparr>sl_dir_fsyncs := sl_dir_fsyncs ?c + 1, sl_sealed := sl_sealed ?c @ [(bk_seq b', hash, bk_len b')]\<rparr>"
  have s4: "seal_block sha b' ?c f1 = Inr (hash, ?c3, g)" "sl3 = ?c3\<lparr>sl_full_pending := bs\<rparr>"
    using s3(1,2) by (auto simp: seal_block_def Let_def split: if_splits option.splits)
  have "sl_full_pending ?c3 = []" using Cons.prems(2) by simp
  from Cons.IH [OF s3(3) [unfolded s4(2)] this, of data1 dirs1] obtain data' dirs' sl' h where
    r: "drain sha bs data1 dirs1 ?c3 g = Inr (data', dirs', sl', h)" "slab_inv sha sl' h"
      "contents sl' h = contents (?c3\<lparr>sl_full_pending := bs\<rparr>) g" "sl_full_pending sl' = []" "sl_active sl' = sl_active ?c3"
      "data1 \<le> data'" "sl_block_bytes sl' = sl_block_bytes ?c3"
      "length (sl_sealed sl') = length (sl_sealed ?c3) + length bs" by blast
  have "drain sha (b # bs) data dirs sl f = Inr (data', dirs', sl', h)"
    using fl s4(1) r(1) by (simp add: flush_def [symmetric] Let_def)
  moreover have "contents sl' h = contents ?s0 f" using r(3) s3(4) s4(2) i1(2) by simp
  ultimately show ?case using r F by auto
qed

text \<open>Everything live is on stable storage, under its name.\<close>

definition all_synced :: "slab \<Rightarrow> fs \<Rightarrow> bool" where
  "all_synced sl f \<longleftrightarrow> list_all (\<lambda>b. bk_unflushed b = 0) (live sl)"

lemma sweep_inv:
  assumes "slab_inv sha sl f"
  shows "\<exists>n sl' g. sweep sha sl f = Inr (n, sl', g) \<and> slab_inv sha sl' g \<and> contents sl' g = contents sl f \<and>
    all_synced sl' g \<and> 0 \<le> n \<and> sl_full_pending sl' = [] \<and> sl_block_bytes sl' = sl_block_bytes sl"
proof -
  let ?bs = "sl_full_pending sl" and ?s = "sl\<lparr>sl_full_pending := []\<rparr>"
  have eq: "?s\<lparr>sl_full_pending := ?bs\<rparr> = sl" by simp
  obtain data dirs sl1 f1 where d: "drain sha ?bs (sl_data_fsyncs sl) (sl_dir_fsyncs sl) ?s f = Inr (data, dirs, sl1, f1)"
    "slab_inv sha sl1 f1" "contents sl1 f1 = contents sl f" "sl_full_pending sl1 = []" "sl_active sl1 = sl_active sl"
    "sl_data_fsyncs sl \<le> data" "sl_block_bytes sl1 = sl_block_bytes sl"
    using drain_inv [of sha ?bs ?s f "sl_data_fsyncs sl" "sl_dir_fsyncs sl"] assms eq by auto
  show ?thesis
  proof (cases "sl_active sl1")
    case None
    let ?r = "sl1\<lparr>sl_active := None, sl_data_fsyncs := data, sl_dir_fsyncs := dirs, sl_sweeps := sl_sweeps sl1 + 1\<rparr>"
    have "sweep sha sl f = Inr (data - sl_data_fsyncs sl, ?r, f1)" using d None by (simp add: sweep_def)
    moreover have eq1: "sl1\<lparr>sl_active := None\<rparr> = sl1" using None by simp
    have "slab_inv sha ?r f1 \<and> contents ?r f1 = contents sl f" unfolding eq1 using d(2,3) by (simp only: inv_counters)
    moreover have "all_synced ?r f1" using d(4) by (simp add: all_synced_def live_def)
    ultimately show ?thesis using d by auto
  next
    case (Some a)
    obtain a' data' dirs' g where fl: "flush a data dirs f1 = (a', data', dirs', g)" by (metis prod_cases4)
    let ?r0 = "sl1\<lparr>sl_active := Some a'\<rparr>"
    let ?r = "?r0\<lparr>sl_data_fsyncs := data', sl_dir_fsyncs := dirs', sl_sweeps := sl_sweeps sl1 + 1\<rparr>"
    have l: "live sl1 = [] @ a # []" "live ?r0 = [] @ a' # []" using Some d(4) by (simp_all add: live_def)
    have ok: "block_ok f1 a" using d(2) l by (simp add: slab_inv_def)
    note F = flush_block [OF ok fl]
    have i: "slab_inv sha ?r0 g" "contents ?r0 g = contents sl1 f1"
      using flush_inv [OF d(2) fl l] d(4) by simp_all
    then have "slab_inv sha ?r g \<and> contents ?r g = contents sl f" using d(3) by (simp only: inv_counters)
    moreover have "sweep sha sl f = Inr (data' - sl_data_fsyncs sl, ?r, g)"
      using d(1) Some fl by (simp add: sweep_def flush_def Let_def split: if_splits)
    moreover have "all_synced ?r g" using F d(4) by (simp add: all_synced_def live_def)
    ultimately show ?thesis using F d by auto
  qed
qed

lemma tick_inv:
  assumes "slab_inv sha sl f"
  shows "\<exists>n sl' g. slab_tick sha now sl f = Inr (n, sl', g) \<and> slab_inv sha sl' g \<and> contents sl' g = contents sl f \<and>
    (0 \<le> n \<longrightarrow> all_synced sl' g) \<and> sl_block_bytes sl' = sl_block_bytes sl"
proof (cases "sl_last_sweep sl = None \<or> \<not> int ((now - the (sl_last_sweep sl)) div 1000) < sl_sla_us sl")
  case True
  then have "slab_tick sha now sl f = sweep sha (sl\<lparr>sl_last_sweep := Some now\<rparr>) f"
    by (auto simp: slab_tick_def split: option.split)
  then show ?thesis using sweep_inv [of sha "sl\<lparr>sl_last_sweep := Some now\<rparr>" f] assms by auto
next
  case False
  then have "slab_tick sha now sl f = Inr (- 1, sl\<lparr>sl_gated_ticks := sl_gated_ticks sl + 1\<rparr>, f)"
    by (auto simp: slab_tick_def split: option.split)
  then show ?thesis using assms by simp
qed

lemma seal_inv:
  assumes "slab_inv sha sl f"
  shows "\<exists>h sl' g. slab_seal sha sl f = Inr (h, sl', g) \<and> slab_inv sha sl' g \<and> contents sl' g = contents sl f \<and>
    list_all (\<lambda>b. bk_len b = 0) (live sl') \<and> sl_block_bytes sl' = sl_block_bytes sl"
proof -
  let ?bs = "sl_full_pending sl" and ?s = "sl\<lparr>sl_full_pending := []\<rparr>"
  have eq: "?s\<lparr>sl_full_pending := ?bs\<rparr> = sl" by simp
  obtain data dirs sl1 f1 where d: "drain sha ?bs (sl_data_fsyncs sl) (sl_dir_fsyncs sl) ?s f = Inr (data, dirs, sl1, f1)"
    "slab_inv sha sl1 f1" "contents sl1 f1 = contents sl f" "sl_full_pending sl1 = []" "sl_block_bytes sl1 = sl_block_bytes sl"
    using drain_inv [of sha ?bs ?s f "sl_data_fsyncs sl" "sl_dir_fsyncs sl"] assms eq by auto
  show ?thesis
  proof (cases "sl_active sl1 = None \<or> bk_len (the (sl_active sl1)) = 0")
    case True
    then have "slab_seal sha sl f = Inr (lit ''EMPTY'', sl1, f1)"
      using d(1) by (auto simp: slab_seal_def split: option.split)
    moreover have "list_all (\<lambda>b. bk_len b = 0) (live sl1)" using True d(4) by (auto simp: live_def split: option.split)
    ultimately show ?thesis using d by auto
  next
    case False
    then obtain a where a: "sl_active sl1 = Some a" "bk_len a \<noteq> 0" by auto
    obtain a' data' dirs' f2 where fl: "flush a data dirs f1 = (a', data', dirs', f2)" by (metis prod_cases4)
    let ?r0 = "sl1\<lparr>sl_active := Some a'\<rparr>"
    let ?r1 = "sl1\<lparr>sl_active := None, sl_data_fsyncs := data', sl_dir_fsyncs := dirs'\<rparr>"
    have l: "live sl1 = [] @ a # []" "live ?r0 = [] @ a' # []" using a d(4) by (simp_all add: live_def)
    have ok: "block_ok f1 a" using d(2) l by (simp add: slab_inv_def)
    note F = flush_block [OF ok fl]
    have "0 < bk_len a" using a(2) block_okD(3) [OF ok] by simp
    have i: "slab_inv sha ?r0 f2" "contents ?r0 f2 = contents sl1 f1" using flush_inv [OF d(2) fl l] d(4) by simp_all
    have "live ?r0 = a' # live ?r1" using d(4) by (simp add: live_def)
    from seal_block_inv [OF i(1) this] obtain h sl3 g where r: "seal_block sha a' ?r1 f2 = Inr (h, sl3, g)"
      "sl3 = ?r1\<lparr>sl_dir_fsyncs := sl_dir_fsyncs ?r1 + 1, sl_sealed := sl_sealed ?r1 @ [(bk_seq a', h, bk_len a')]\<rparr>"
      "slab_inv sha sl3 g" "contents sl3 g = contents ?r0 f2"
      using F \<open>0 < bk_len a\<close> d(4) by auto
    have "slab_seal sha sl f = Inr (h, sl3, g)"
      using d(1) a fl r(1) by (simp add: slab_seal_def flush_def [symmetric] Let_def split: if_splits)
    moreover have "live sl3 = []" using r(2) d(4) by (simp add: live_def)
    ultimately show ?thesis using r i(2) d by auto
  qed
qed

section \<open>Crashes\<close>

text \<open>What a crash leaves of the writer's blocks, under the names it gave them; a block without bytes has nothing to lose.\<close>

definition recovered :: "slab \<Rightarrow> fs \<Rightarrow> bytes" where
  "recovered sl f = concat (map (\<lambda>e. file_bytes f (sealed_path (fst e))) (sl_sealed sl)) @
     concat (map (\<lambda>b. file_bytes f (bk_path b)) (filter (\<lambda>b. 0 < bk_len b) (live sl)))"

lemma recovered_contents:
  assumes "slab_inv sha sl f"
  shows "recovered sl f = contents sl f"
proof -
  have "file_bytes f (bk_path b) = []" if "b \<in> set (live sl)" "\<not> 0 < bk_len b" for b
  proof -
    have "block_ok f b" using assms that by (simp add: slab_inv_def list_all_iff)
    from block_okD [OF this] show ?thesis using that(2) by (simp add: file_bytes_def)
  qed
  then have "concat (map (\<lambda>b. file_bytes f (bk_path b)) (filter (\<lambda>b. 0 < bk_len b) bs)) = concat (map (\<lambda>b. file_bytes f (bk_path b)) bs)"
    if "set bs \<subseteq> set (live sl)" for bs using that by (induction bs) auto
  then show ?thesis by (simp add: recovered_def contents_def)
qed

lemma sealed_survives:
  assumes "sealed_ok sha f e" "crashed f g"
  shows "file_bytes g (sealed_path (fst e)) = file_bytes f (sealed_path (fst e)) \<and>
    fst (snd e) = content_hash sha (file_bytes g (sealed_path (fst e))) \<and> snd (snd e) = int (length (file_bytes g (sealed_path (fst e))))"
proof -
  obtain seq h n where e: "e = (seq, h, n)" by (cases e)
  with assms(1) obtain i where i: "map_of (fs_dir f) (sealed_path seq) = Some i" "map_of (fs_ddir f) (sealed_path seq) = Some i"
    "fs_synced f i = length (fs_data f i)" "n = int (length (fs_data f i))" "h = content_hash sha (fs_data f i)" by auto
  from crashed_stable [OF assms(2) i(1-3)] i e show ?thesis by (simp add: file_bytes_def)
qed

lemma synced_survives:
  assumes inv: "slab_inv sha sl f" and sync: "all_synced sl f" and crash: "crashed f g"
  shows "recovered sl g = contents sl f"
proof -
  have live: "file_bytes g (bk_path b) = file_bytes f (bk_path b)" if "b \<in> set (live sl)" "0 < bk_len b" for b
  proof -
    have ok: "block_ok f b" "bk_unflushed b = 0" using inv sync that by (auto simp: slab_inv_def all_synced_def list_all_iff)
    note P = block_okD [OF ok(1)]
    have s: "fs_synced f (bk_file b) = length (fs_data f (bk_file b))" using P(4,5) ok(2) by simp
    then have "bk_dir_synced b" using ok(1) P(3) that(2) by (auto simp: block_ok_def)
    then have "map_of (fs_ddir f) (bk_path b) = Some (bk_file b)" using ok(1) by (auto simp: block_ok_def)
    from crashed_stable [OF crash P(2) this s] P(2) show ?thesis by (simp add: file_bytes_def)
  qed
  have "sealed_ok sha f e" if "e \<in> set (sl_sealed sl)" for e using inv that by (simp add: slab_inv_def list_all_iff)
  then have "map (\<lambda>e. file_bytes g (sealed_path (fst e))) (sl_sealed sl) = map (\<lambda>e. file_bytes f (sealed_path (fst e))) (sl_sealed sl)"
    using sealed_survives [OF _ crash] by (intro map_cong [OF refl]) blast
  moreover have "map (\<lambda>b. file_bytes g (bk_path b)) (filter (\<lambda>b. 0 < bk_len b) (live sl)) =
    map (\<lambda>b. file_bytes f (bk_path b)) (filter (\<lambda>b. 0 < bk_len b) (live sl))"
    by (rule map_cong [OF refl]) (use live in simp)
  ultimately have "recovered sl g = recovered sl f" unfolding recovered_def by (simp only:)
  then show ?thesis using recovered_contents [OF inv] by simp
qed

section \<open>Blocks of earlier runs\<close>

text \<open>The file under a sealed name stays the same.\<close>

definition keeps :: "int \<Rightarrow> fs \<Rightarrow> fs \<Rightarrow> bool" where
  "keeps k f g \<longleftrightarrow> map_of (fs_dir g) (sealed_path k) = map_of (fs_dir f) (sealed_path k) \<and>
     (\<forall>i. map_of (fs_dir f) (sealed_path k) = Some i \<longrightarrow> fs_data g i = fs_data f i)"

lemma keeps_refl [simp]: "keeps k f f"
  by (simp add: keeps_def)

lemma keeps_trans: "keeps k f g \<Longrightarrow> keeps k g h \<Longrightarrow> keeps k f h"
  by (auto simp: keeps_def)

lemma keeps_file_bytes: "keeps k f g \<Longrightarrow> file_bytes g (sealed_path k) = file_bytes f (sealed_path k)"
  by (auto simp: keeps_def file_bytes_def split: option.split)

lemma append_keeps:
  assumes inv: "slab_inv sha sl f" and r: "slab_append bs sl f = (off, sl', f')"
  shows "keeps k f f' \<and> sl_sealed sl' = sl_sealed sl \<and> sl_next_seq sl \<le> sl_next_seq sl' \<and>
    (\<forall>s \<in> set (seqs sl'). s \<in> set (seqs sl) \<or> sl_next_seq sl \<le> s)"
proof -
  let ?sl = "rotate (int (length bs)) sl"
  have inv1: "slab_inv sha ?sl f" using rotate_inv(1) [OF inv] .
  then have wf: "fs_wf f" by (simp add: slab_inv_def)
  have seqs1: "seqs ?sl = seqs sl" "sl_sealed ?sl = sl_sealed sl" "sl_next_seq ?sl = sl_next_seq sl" by (simp_all add: seqs_def rotate_live)
  obtain a sl1 f1 where e: "ensure_active ?sl f = (a, sl1, f1)" by (metis prod_cases3)
  have f': "f' = fs_write (bk_file a) bs f1" and s': "sl_sealed sl' = sl_sealed sl1" "sl_next_seq sl' = sl_next_seq sl1"
    "map bk_seq (live sl') = map bk_seq (sl_full_pending sl1) @ [bk_seq a]"
    using r e by (auto simp: slab_append_def Let_def live_def)
  have w: "keeps k f1 f'" if "block_ok f1 a" "fs_wf f1"
    unfolding keeps_def f' using sealed_file_other [OF that(2,1), of k] by (auto simp: fs_write_def)
  show ?thesis
  proof (cases "sl_active ?sl")
    case (Some b)
    then have "a = b" "sl1 = ?sl" "f1 = f" using e by (simp_all add: ensure_active_def)
    moreover have "block_ok f b" using inv1 Some by (simp add: slab_inv_def live_def)
    ultimately show ?thesis using w wf s' seqs1 Some by (auto simp: seqs_def live_def)
  next
    case None
    then have m: "mint_block ?sl f = (a, sl1, f1)" using e by (simp add: ensure_active_def)
    from mint_inv [OF inv1 None m] have "block_ok f1 a" "fs_wf f1" by (simp_all add: slab_inv_def live_def)
    moreover have "f1 = fs_create (part_path (sl_next_seq sl)) (fs_remove (part_path (sl_next_seq sl)) f)"
      "bk_seq a = sl_next_seq sl" "sl1 = ?sl\<lparr>sl_next_seq := sl_next_seq sl + 1\<rparr>"
      using m seqs1 by (auto simp: mint_block_def Let_def)
    moreover then have "keeps k f f1" using wf by (auto simp: keeps_def fs_remake fs_wf_def)
    ultimately show ?thesis using w s' seqs1 keeps_trans None by (auto simp: seqs_def live_def)
  qed
qed

lemma drain_keeps:
  assumes "drain sha bs data dirs sl f = Inr (data', dirs', sl', g)" "k \<notin> bk_seq ` set bs"
    "list_all (\<lambda>b. bk_path b = part_path (bk_seq b)) bs"
  shows "keeps k f g \<and> map fst (sl_sealed sl') = map fst (sl_sealed sl) @ map bk_seq bs \<and>
    sl_next_seq sl' = sl_next_seq sl \<and> sl_full_pending sl' = sl_full_pending sl \<and> sl_active sl' = sl_active sl"
  using assms
proof (induction bs arbitrary: data dirs sl f)
  case (Cons b bs)
  obtain b' data1 dirs1 f1 where fl: "flush b data dirs f = (b', data1, dirs1, f1)" by (metis prod_cases4)
  have b': "bk_seq b' = bk_seq b" "bk_path b' = bk_path b" and k1: "keeps k f f1"
    using fl by (auto simp: flush_def fsync_block_def Let_def keeps_def fs_sync_def fs_sync_dir_def split: if_splits)
  from Cons.prems(1) fl obtain h sl2 f2 where
    s: "seal_block sha b' (sl\<lparr>sl_data_fsyncs := data1, sl_dir_fsyncs := dirs1\<rparr>) f1 = Inr (h, sl2, f2)"
    and r: "drain sha bs data1 dirs1 sl2 f2 = Inr (data', dirs', sl', g)"
    by (auto simp: flush_def [symmetric] Let_def)
  have "keeps k f1 f2"
    using s b' Cons.prems(2,3)
    by (auto simp: seal_block_def Let_def keeps_def fs_rename_def fs_sync_dir_def update_conv' delete_conv' split: if_splits option.splits)
  moreover have "map fst (sl_sealed sl2) = map fst (sl_sealed sl) @ [bk_seq b]" "sl_next_seq sl2 = sl_next_seq sl"
    "sl_full_pending sl2 = sl_full_pending sl" "sl_active sl2 = sl_active sl"
    using s b' by (auto simp: seal_block_def Let_def split: if_splits option.splits)
  ultimately show ?case using Cons.IH [OF r] Cons.prems(2,3) k1 keeps_trans by auto
qed simp

end
