(* ===== verification/SlabRuns.thy ===== *)
theory SlabRuns
  imports SlabRules
begin

text \<open>
  Whole runs of the block writer: the operations a caller makes on one handle as a step relation, the log they amount to,
  and the contract of a durable log, which the writer meets.
\<close>

section \<open>What an operation leaves alone\<close>

lemma flush_keeps:
  assumes "flush b data dirs f = (b', data', dirs', g)"
  shows "keeps k f g \<and> bk_seq b' = bk_seq b \<and> bk_path b' = bk_path b"
  using assms by (auto simp: flush_def fsync_block_def Let_def keeps_def fs_sync_def fs_sync_dir_def split: if_splits)

lemma pending_paths:
  assumes "slab_inv sha sl f"
  shows "list_all (\<lambda>b. bk_path b = part_path (bk_seq b)) (live sl)"
  using assms by (auto simp: slab_inv_def block_ok_def list_all_iff)

text \<open>The drained writer: same numbers, nothing pending.\<close>

lemma drained:
  assumes inv: "slab_inv sha sl f" and k: "k \<notin> set (seqs sl)"
    and d: "drain sha (sl_full_pending sl) data dirs (sl\<lparr>sl_full_pending := []\<rparr>) f = Inr (data', dirs', sl', g)"
  shows "keeps k f g \<and> set (seqs sl') = set (seqs sl) \<and> sl_next_seq sl' = sl_next_seq sl \<and> sl_active sl' = sl_active sl \<and>
    sl_full_pending sl' = []"
proof -
  have p: "list_all (\<lambda>b. bk_path b = part_path (bk_seq b)) (sl_full_pending sl)"
    using pending_paths [OF inv] by (simp add: live_def)
  have "k \<notin> bk_seq ` set (sl_full_pending sl)" using k by (auto simp: seqs_def live_def)
  from drain_keeps [OF d this p] show ?thesis by (auto simp: seqs_def live_def split: option.split)
qed

lemma sweep_keeps:
  assumes inv: "slab_inv sha sl f" and k: "k \<notin> set (seqs sl)" and r: "sweep sha sl f = Inr (n, sl', g)"
  shows "keeps k f g \<and> set (seqs sl') = set (seqs sl) \<and> sl_next_seq sl' = sl_next_seq sl"
proof -
  from r obtain data dirs sl1 f1 where
    d: "drain sha (sl_full_pending sl) (sl_data_fsyncs sl) (sl_dir_fsyncs sl) (sl\<lparr>sl_full_pending := []\<rparr>) f = Inr (data, dirs, sl1, f1)"
    by (auto simp: sweep_def bindE_def Let_def split: sum.splits)
  note D = drained [OF inv k d]
  show ?thesis
  proof (cases "sl_active sl1")
    case None
    then have "g = f1" "sl' = sl1\<lparr>sl_active := None, sl_data_fsyncs := data, sl_dir_fsyncs := dirs, sl_sweeps := sl_sweeps sl1 + 1\<rparr>"
      using r d by (simp_all add: sweep_def)
    then have "seqs sl' = seqs sl1" "sl_next_seq sl' = sl_next_seq sl1" using None by (simp_all add: seqs_def live_def)
    then show ?thesis using D \<open>g = f1\<close> by simp
  next
    case (Some a)
    obtain a' data' dirs' f2 where fl: "flush a data dirs f1 = (a', data', dirs', f2)" by (metis prod_cases4)
    then have "g = f2" "sl' = sl1\<lparr>sl_active := Some a', sl_data_fsyncs := data', sl_dir_fsyncs := dirs', sl_sweeps := sl_sweeps sl1 + 1\<rparr>"
      using r d Some by (simp_all add: sweep_def flush_def Let_def split: if_splits)
    moreover from this have "seqs sl' = seqs sl1" "sl_next_seq sl' = sl_next_seq sl1"
      using Some flush_keeps [OF fl, of k] by (simp_all add: seqs_def live_def)
    ultimately show ?thesis using D flush_keeps [OF fl, of k] keeps_trans by auto
  qed
qed

lemma tick_keeps:
  assumes inv: "slab_inv sha sl f" and k: "k \<notin> set (seqs sl)" and r: "slab_tick sha now sl f = Inr (n, sl', g)"
  shows "keeps k f g \<and> set (seqs sl') = set (seqs sl) \<and> sl_next_seq sl' = sl_next_seq sl"
proof (cases "sl_last_sweep sl = None \<or> \<not> int ((now - the (sl_last_sweep sl)) div 1000) < sl_sla_us sl")
  case True
  then have "sweep sha (sl\<lparr>sl_last_sweep := Some now\<rparr>) f = Inr (n, sl', g)"
    using r by (auto simp: slab_tick_def split: option.splits)
  from sweep_keeps [OF _ _ this, of k] inv k show ?thesis by (simp add: seqs_def live_def)
next
  case False
  then have "sl' = sl\<lparr>sl_gated_ticks := sl_gated_ticks sl + 1\<rparr>" "g = f"
    using r by (auto simp: slab_tick_def split: option.splits)
  then show ?thesis by (simp add: seqs_def live_def)
qed

lemma seal_keeps:
  assumes inv: "slab_inv sha sl f" and k: "k \<notin> set (seqs sl)" and r: "slab_seal sha sl f = Inr (h, sl', g)"
  shows "keeps k f g \<and> set (seqs sl') = set (seqs sl) \<and> sl_next_seq sl' = sl_next_seq sl"
proof -
  from r obtain data dirs sl1 f1 where
    d: "drain sha (sl_full_pending sl) (sl_data_fsyncs sl) (sl_dir_fsyncs sl) (sl\<lparr>sl_full_pending := []\<rparr>) f = Inr (data, dirs, sl1, f1)"
    by (auto simp: slab_seal_def bindE_def split: sum.splits)
  note D = drained [OF inv k d]
  show ?thesis
  proof (cases "sl_active sl1 = None \<or> bk_len (the (sl_active sl1)) = 0")
    case True
    then have "g = f1" "sl' = sl1" using r d by (auto simp: slab_seal_def split: option.splits)
    then show ?thesis using D by simp
  next
    case False
    then obtain a where a: "sl_active sl1 = Some a" "bk_len a \<noteq> 0" by auto
    obtain a' data' dirs' f2 where fl: "flush a data dirs f1 = (a', data', dirs', f2)" by (metis prod_cases4)
    note F = flush_keeps [OF fl, of k]
    have s: "seal_block sha a' (sl1\<lparr>sl_active := None, sl_data_fsyncs := data', sl_dir_fsyncs := dirs'\<rparr>) f2 = Inr (h, sl', g)"
      using r d a fl by (simp add: slab_seal_def flush_def [symmetric] Let_def split: if_splits)
    have "a \<in> set (live sl)" using D a by (simp add: live_def)
    then have p: "bk_path a = part_path (bk_seq a)" "k \<noteq> bk_seq a"
      using pending_paths [OF inv] k by (auto simp: list_all_iff seqs_def)
    have "keeps k f2 g" using s F p
      by (auto simp: seal_block_def Let_def keeps_def fs_rename_def fs_sync_dir_def update_conv' delete_conv' split: if_splits option.splits)
    moreover have "map fst (sl_sealed sl') = map fst (sl_sealed sl1) @ [bk_seq a]" "sl_next_seq sl' = sl_next_seq sl1"
      "sl_full_pending sl' = sl_full_pending sl1" "sl_active sl' = None"
      using s F by (auto simp: seal_block_def Let_def split: if_splits option.splits)
    then have "set (seqs sl') = set (seqs sl1)" using a D by (simp add: seqs_def live_def flip: set_map)
    ultimately show ?thesis using D F keeps_trans \<open>sl_next_seq sl' = sl_next_seq sl1\<close> by metis
  qed
qed

section \<open>Durable logs\<close>

text \<open>
  What a caller relies on: appending extends the log, a flush that reports success leaves nothing a crash could take away.
  \<open>survivors\<close> are the logs that can be read back after a crash.
\<close>

locale durable_log =
  fixes inv :: "'s \<Rightarrow> bool"
    and log :: "'s \<Rightarrow> 'b list"
    and survivors :: "'s \<Rightarrow> 'b list set"
    and append_to :: "'b list \<Rightarrow> 's \<Rightarrow> 's"
    and flush_all :: "'s \<Rightarrow> 's option"
  assumes append_to_inv: "inv s \<Longrightarrow> inv (append_to b s)"
    and append_to_log: "inv s \<Longrightarrow> log (append_to b s) = log s @ b"
    and flush_all_inv: "inv s \<Longrightarrow> flush_all s = Some t \<Longrightarrow> inv t"
    and flush_all_log: "inv s \<Longrightarrow> flush_all s = Some t \<Longrightarrow> log t = log s"
    and flush_all_safe: "inv s \<Longrightarrow> flush_all s = Some t \<Longrightarrow> survivors t \<subseteq> {log t}"
begin

lemma appends:
  assumes "inv s"
  shows "inv (fold append_to bs s) \<and> log (fold append_to bs s) = log s @ concat bs"
  using assms by (induction bs arbitrary: s) (simp_all add: append_to_inv append_to_log)

text \<open>A batch is durable as a whole once one flush after it has succeeded, whatever was appended before.\<close>

lemma batch_durable:
  assumes "inv s" "flush_all (fold append_to bs s) = Some t" "r \<in> survivors t"
  shows "r = log s @ concat bs"
proof -
  from appends [OF assms(1)] have "inv (fold append_to bs s)" "log (fold append_to bs s) = log s @ concat bs" by auto
  with flush_all_log flush_all_safe assms(2,3) show ?thesis by fastforce
qed

end

text \<open>The writer as a durable log: an append, and a tick that fires.\<close>

definition slab_log :: "slab \<times> fs \<Rightarrow> bytes" where
  "slab_log s = contents (fst s) (snd s)"

definition slab_survivors :: "slab \<times> fs \<Rightarrow> bytes set" where
  "slab_survivors s = {recovered (fst s) g | g. crashed (snd s) g}"

definition slab_append_to :: "bytes \<Rightarrow> slab \<times> fs \<Rightarrow> slab \<times> fs" where
  "slab_append_to bs s = snd (slab_append bs (fst s) (snd s))"

definition slab_flush :: "(bytes \<Rightarrow> hash256) \<Rightarrow> nat \<Rightarrow> slab \<times> fs \<Rightarrow> (slab \<times> fs) option" where
  "slab_flush sha now s =
     (case slab_tick sha now (fst s) (snd s) of Inr (n, t) \<Rightarrow> if 0 \<le> n then Some t else None | Inl _ \<Rightarrow> None)"

lemma slab_flush_fires:
  assumes "slab_inv sha (fst s) (snd s)" "slab_flush sha now s = Some t"
  shows "slab_inv sha (fst t) (snd t) \<and> slab_log t = slab_log s \<and> all_synced (fst t) (snd t)"
proof -
  obtain n sl' g where r: "slab_tick sha now (fst s) (snd s) = Inr (n, sl', g)" "slab_inv sha sl' g"
    "contents sl' g = contents (fst s) (snd s)" "0 \<le> n \<longrightarrow> all_synced sl' g"
    using tick_inv [OF assms(1), of now] by blast
  with assms(2) have "t = (sl', g)" "0 \<le> n" by (simp_all add: slab_flush_def split: if_splits)
  then show ?thesis using r by (simp add: slab_log_def)
qed

interpretation sl: durable_log "\<lambda>s. slab_inv sha (fst s) (snd s)" slab_log slab_survivors slab_append_to "slab_flush sha now"
  for sha now
proof
  fix s b
  assume inv: "slab_inv sha (fst s) (snd s)"
  obtain off sl' f' where r: "slab_append b (fst s) (snd s) = (off, sl', f')" by (metis prod_cases3)
  from append_inv [OF inv r] r
  show "slab_inv sha (fst (slab_append_to b s)) (snd (slab_append_to b s))" "slab_log (slab_append_to b s) = slab_log s @ b"
    by (simp_all add: slab_append_to_def slab_log_def)
next
  fix s t
  assume "slab_inv sha (fst s) (snd s)" "slab_flush sha now s = Some t"
  note F = slab_flush_fires [OF this]
  then show "slab_inv sha (fst t) (snd t)" "slab_log t = slab_log s" by auto
  show "slab_survivors t \<subseteq> {slab_log t}"
    using F synced_survives [of sha "fst t" "snd t"] by (auto simp: slab_survivors_def slab_log_def)
qed

section \<open>Runs\<close>

text \<open>
  The calls made on one handle after \<open>slab_open\<close>, each with the bytes it adds to the log. \<open>mem\<close> is the caller's memory
  (\<open>slab_append_raw\<close>), which gives as many bytes as it is asked for.
\<close>

inductive slab_step :: "(bytes \<Rightarrow> hash256) \<Rightarrow> (int \<Rightarrow> nat \<Rightarrow> bytes) \<Rightarrow> slab \<times> fs \<Rightarrow> bytes \<Rightarrow> slab \<times> fs \<Rightarrow> bool"
  for sha :: "bytes \<Rightarrow> hash256" and mem :: "int \<Rightarrow> nat \<Rightarrow> bytes"
where
  step_append: "slab_append bs sl f = (off, t) \<Longrightarrow> slab_step sha mem (sl, f) bs t"
| step_append_raw: "slab_append_raw mem ptr off len sl f = Inr (o', t) \<Longrightarrow> slab_step sha mem (sl, f) (mem (ptr + off) (nat len)) t"
| step_tick: "slab_tick sha now sl f = Inr (n, t) \<Longrightarrow> slab_step sha mem (sl, f) [] t"
| step_seal: "slab_seal sha sl f = Inr (h, t) \<Longrightarrow> slab_step sha mem (sl, f) [] t"

inductive slab_run :: "(bytes \<Rightarrow> hash256) \<Rightarrow> (int \<Rightarrow> nat \<Rightarrow> bytes) \<Rightarrow> slab \<times> fs \<Rightarrow> bytes \<Rightarrow> slab \<times> fs \<Rightarrow> bool"
  for sha :: "bytes \<Rightarrow> hash256" and mem :: "int \<Rightarrow> nat \<Rightarrow> bytes" and s :: "slab \<times> fs"
where
  run_open: "slab_run sha mem s [] s"
| run_step: "slab_run sha mem s log t \<Longrightarrow> slab_step sha mem t bs u \<Longrightarrow> slab_run sha mem s (log @ bs) u"

lemma step_inv:
  assumes "slab_step sha mem s bs t" "slab_inv sha (fst s) (snd s)"
  shows "slab_inv sha (fst t) (snd t) \<and> slab_log t = slab_log s @ bs"
  using assms
proof (cases rule: slab_step.cases)
  case (step_append sl f off)
  then show ?thesis using append_inv [of sha sl f bs off "fst t" "snd t"] assms(2) by (simp add: slab_log_def)
next
  case (step_append_raw ptr off len sl f o')
  then have "slab_append bs sl f = (o', t)" by (simp add: slab_append_raw_def split: if_splits)
  then show ?thesis using append_inv [of sha sl f bs o' "fst t" "snd t"] assms(2) step_append_raw by (simp add: slab_log_def)
next
  case (step_tick now sl f n)
  then show ?thesis using tick_inv [of sha sl f now] assms(2) by (auto simp: slab_log_def)
next
  case (step_seal sl f h)
  then show ?thesis using seal_inv [of sha sl f] assms(2) by (auto simp: slab_log_def)
qed

lemma run_inv:
  assumes "slab_run sha mem s log t" "slab_inv sha (fst s) (snd s)"
  shows "slab_inv sha (fst t) (snd t) \<and> slab_log t = slab_log s @ log"
  using assms by (induction rule: slab_run.induct) (auto dest: step_inv)

text \<open>A block number the run has not used.\<close>

definition untouched :: "int \<Rightarrow> fs \<Rightarrow> slab \<times> fs \<Rightarrow> bool" where
  "untouched k f0 s \<longleftrightarrow> keeps k f0 (snd s) \<and> k < sl_next_seq (fst s) \<and> k \<notin> set (seqs (fst s))"

lemma append_untouched:
  assumes "slab_inv sha sl f" "slab_append bs sl f = (off, t)" "untouched k f0 (sl, f)"
  shows "untouched k f0 t"
proof -
  obtain sl' f' where t: "t = (sl', f')" by (cases t)
  from append_keeps [OF assms(1) assms(2) [unfolded t], of k]
  have "keeps k f f'" "sl_next_seq sl \<le> sl_next_seq sl'" "\<forall>s \<in> set (seqs sl'). s \<in> set (seqs sl) \<or> sl_next_seq sl \<le> s"
    by blast+
  then show ?thesis using assms(3) keeps_trans [of k f0 f f'] by (auto simp: untouched_def t)
qed

lemma step_untouched:
  assumes "slab_step sha mem s bs t" "slab_inv sha (fst s) (snd s)" "untouched k f0 s"
  shows "untouched k f0 t"
  using assms
proof (cases rule: slab_step.cases)
  case (step_append sl f off)
  then show ?thesis using append_untouched [of sha sl f bs off t] assms by simp
next
  case (step_append_raw ptr off len sl f o')
  then have "slab_append bs sl f = (o', t)" by (simp add: slab_append_raw_def split: if_splits)
  then show ?thesis using append_untouched [of sha sl f bs o' t] assms step_append_raw by simp
next
  case (step_tick now sl f n)
  then show ?thesis using tick_keeps [of sha sl f k now n "fst t" "snd t"] assms keeps_trans [of k f0 f "snd t"] by (auto simp: untouched_def)
next
  case (step_seal sl f h)
  then show ?thesis using seal_keeps [of sha sl f k h "fst t" "snd t"] assms keeps_trans [of k f0 f "snd t"] by (auto simp: untouched_def)
qed

lemma run_untouched:
  assumes "slab_run sha mem s log t" "slab_inv sha (fst s) (snd s)" "untouched k f0 s"
  shows "untouched k f0 t"
  using assms
proof (induction rule: slab_run.induct)
  case (run_step log t bs u)
  then show ?case using step_untouched [of sha mem t bs u] run_inv [of sha mem s log t] by blast
qed

section \<open>Opening\<close>

lemma open_inv:
  assumes "slab_open us bb f = Inr sl" "fs_wf f"
  shows "slab_inv sha sl f \<and> contents sl f = [] \<and> seqs sl = [] \<and> 0 < sl_block_bytes sl"
  using assms
  by (auto simp: slab_open_def bindE_def slab_inv_def contents_def seqs_def live_def DEFAULT_BLOCK_BYTES_def split: if_splits sum.splits)

lemma sealed_seq_path:
  assumes "i64_range k"
  shows "sealed_seq (sealed_path k) = Some k"
  using parse_int_dec [OF assms] by (simp add: sealed_seq_def sealed_path_def Let_def)

lemma foldr_max_head: "x \<in> set (y # ys) \<Longrightarrow> x \<le> foldr max ys (y :: int)"
  by (induction ys) auto

lemma resume_above:
  assumes "resume_seq f = Inr m" "n \<in> fst ` set (fs_dir f)" "sealed_seq n = Some k"
  shows "k < m"
proof -
  have "k \<in> set (List.map_filter (\<lambda>(n, _). sealed_seq n) (fs_dir f))"
    using assms(2,3) by (force simp: List.map_filter_def)
  then show ?thesis
    using assms(1) foldr_max_head by (fastforce simp: resume_seq_def Let_def split: list.splits if_splits)
qed

lemma open_untouched:
  assumes "slab_open us bb f = Inr sl" "fs_wf f" "i64_range k" "map_of (fs_dir f) (sealed_path k) = Some i"
  shows "untouched k f (sl, f)"
proof -
  from assms(1) have "resume_seq f = Inr (sl_next_seq sl)" by (auto simp: slab_open_def bindE_def split: if_splits sum.splits)
  moreover have "sealed_path k \<in> fst ` set (fs_dir f)" using map_of_SomeD [OF assms(4)] by force
  ultimately have "k < sl_next_seq sl" using resume_above sealed_seq_path [OF assms(3)] by blast
  moreover have "seqs sl = []" using open_inv [OF assms(1,2)] by blast
  ultimately show ?thesis by (simp add: untouched_def)
qed

end
