(* ===== verification/SlabClaims.thy ===== *)
theory SlabClaims
  imports SlabRuns
begin

text \<open>The promises of the block writer of \<open>src/src/runtime/slablock.rs\<close>, for every run of one handle.\<close>

section \<open>A concrete run\<close>

text \<open>An empty directory, and a writer on it with blocks of four bytes.\<close>

definition fs0 :: fs where
  "fs0 = \<lparr>fs_dir = [], fs_ddir = [], fs_data = (\<lambda>_. []), fs_synced = (\<lambda>_. 0), fs_next = 0\<rparr>"

definition sl0 :: slab where
  "sl0 = \<lparr>sl_sla_us = 5, sl_block_bytes = 4, sl_next_seq = 0, sl_active = None, sl_full_pending = [], sl_sealed = [],
     sl_last_sweep = None, sl_appends = 0, sl_data_fsyncs = 0, sl_dir_fsyncs = 0, sl_sweeps = 0, sl_gated_ticks = 0\<rparr>"

definition sha0 :: "bytes \<Rightarrow> hash256" where
  "sha0 bs = take 32 (bs @ replicate 32 0)"

definition mem0 :: "int \<Rightarrow> nat \<Rightarrow> bytes" where
  "mem0 p n = replicate n 7"

lemma fs0_wf: "fs_wf fs0"
  by (simp add: fs_wf_def fs0_def)

lemma sl0_open: "slab_open 5 4 fs0 = Inr sl0"
  by (simp add: slab_open_def resume_seq_def fs0_def sl0_def List.map_filter_def)

lemma sl0_inv: "slab_inv sha sl0 fs0"
  using open_inv [OF sl0_open fs0_wf] by blast

text \<open>Two records, of which the second does not fit into the first block, and a tick.\<close>

definition s1 :: "slab \<times> fs" where
  "s1 = fold slab_append_to [[1, 2, 3], [4, 5]] (sl0, fs0)"

lemma run_append: "slab_run sha mem s log t \<Longrightarrow> slab_run sha mem s (log @ bs) (slab_append_to bs t)"
proof -
  assume r: "slab_run sha mem s log t"
  obtain off u where "slab_append bs (fst t) (snd t) = (off, u)" by (metis prod.exhaust)
  then have "slab_step sha mem (fst t, snd t) bs u" "slab_append_to bs t = u" by (simp_all only: step_append slab_append_to_def snd_conv)
  then show ?thesis using run_step [OF r] by simp
qed

lemma s1_run: "slab_run sha mem (sl0, fs0) [1, 2, 3, 4, 5] s1"
proof -
  have "slab_run sha mem (sl0, fs0) [1, 2, 3] (slab_append_to [1, 2, 3] (sl0, fs0))"
    using run_append [OF run_open, where bs = "[1, 2, 3]"] by simp
  from run_append [OF this, where bs = "[4, 5]"] show ?thesis by (simp add: s1_def)
qed

lemma s1_inv: "slab_inv sha (fst s1) (snd s1)"
  using run_inv [OF s1_run] sl0_inv by simp

lemma s1_last: "sl_last_sweep (fst s1) = None"
  by (simp add: s1_def slab_append_to_def slab_append_def rotate_def ensure_active_def mint_block_def sl0_def Let_def)

lemma s1_tick:
  obtains n sl f where "slab_tick sha 0 (fst s1) (snd s1) = Inr (n, sl, f)" "0 \<le> n"
  using sweep_inv [of sha "(fst s1)\<lparr>sl_last_sweep := Some 0\<rparr>" "snd s1"] s1_inv [of sha] s1_last
  by (auto simp: slab_tick_def)

text \<open>The tick seals the first block.\<close>

definition s2 :: "slab \<times> fs" where
  "s2 = (case slab_tick sha0 0 (fst s1) (snd s1) of Inr (_, t) \<Rightarrow> t | Inl _ \<Rightarrow> s1)"

lemma s2_run: "slab_run sha0 mem (sl0, fs0) [1, 2, 3, 4, 5] s2"
proof -
  obtain n sl f where t: "slab_tick sha0 0 (fst s1) (snd s1) = Inr (n, sl, f)" by (rule s1_tick)
  from step_tick [OF this] have "slab_step sha0 mem (fst s1, snd s1) [] s2" by (simp add: s2_def t)
  then show ?thesis using run_step [OF s1_run] by fastforce
qed

lemma s2_sealed: "sl_sealed (fst s2) = [(0, content_hash sha0 [1, 2, 3], 3)]"
  by code_simp

lemma s2_dir: "map_of (fs_dir (snd s2)) (sealed_path 0) = Some 0" "fs_data (snd s2) 0 = [1, 2, 3]"
  by code_simp+

section \<open>The log\<close>

text \<open>
  C15. Whatever a caller does with a handle after opening it on any directory, the sealed blocks and then the blocks not yet
  sealed hold, in order and without a gap or a split, exactly the bytes the caller appended, and the writer's invariant
  holds (its blocks are the files of their names, its hashes those of the files, its numbers are all different).
\<close>

theorem slab_refines_log:
  assumes "fs_wf f0" "slab_open us bb f0 = Inr sl" "slab_run sha mem (sl, f0) log (sl', f)"
  shows "slab_inv sha sl' f \<and> contents sl' f = log"
  using open_inv [OF assms(2,1), of sha] run_inv [OF assms(3)] by (simp add: slab_log_def)

theorem slab_refines_log_witness:
  "slab_inv sha0 (fst s1) (snd s1) \<and> contents (fst s1) (snd s1) = [1, 2, 3, 4, 5]"
  using slab_refines_log [OF fs0_wf sl0_open, of sha0 mem0 "[1, 2, 3, 4, 5]" "fst s1" "snd s1"] s1_run by simp



text \<open>
  C17. A block in the ledger of sealed blocks is complete for ever: after every crash the file under its sealed name has the
  length and the content hash the ledger says.
\<close>

theorem sealed_block_survives:
  assumes "fs_wf f0" "slab_open us bb f0 = Inr sl" "slab_run sha mem (sl, f0) log (sl', f)"
    and "(seq, hash, n) \<in> set (sl_sealed sl')" "crashed f g"
  shows "hash = content_hash sha (file_bytes g (sealed_path seq)) \<and> n = int (length (file_bytes g (sealed_path seq)))"
proof -
  have "slab_inv sha sl' f" using open_inv [OF assms(2,1), of sha] run_inv [OF assms(3)] by simp
  then have "sealed_ok sha f (seq, hash, n)" using assms(4) by (auto simp: slab_inv_def list_all_iff)
  from sealed_survives [OF this assms(5)] show ?thesis by simp
qed

theorem sealed_block_survives_witness:
  "crashed (snd s2) (snd s2) \<and> content_hash sha0 [1, 2, 3] = content_hash sha0 (file_bytes (snd s2) (sealed_path 0))"
proof -
  have r: "slab_run sha0 mem0 (sl0, fs0) [1, 2, 3, 4, 5] (fst s2, snd s2)" using s2_run by simp
  have c: "crashed (snd s2) (snd s2)" by (simp add: crashed_def)
  show ?thesis using sealed_block_survives [OF fs0_wf sl0_open r _ c] s2_sealed c by auto
qed

text \<open>
  C16. The writer never gets stuck: after any run a tick that is due (the first one, or one \<open>sla_us\<close> microseconds after the
  last) fires and leaves no block dirty and no full block unsealed, and a seal returns, with nothing left unsealed; neither
  of the writer's own panics (sealing a dirty block, a failing rename) can happen.
\<close>

theorem due_tick_fires:
  assumes "fs_wf f0" "slab_open us bb f0 = Inr sl" "slab_run sha mem (sl, f0) log (sl', f)"
    and due: "case sl_last_sweep sl' of None \<Rightarrow> True | Some prev \<Rightarrow> prev + 1000 * nat (sl_sla_us sl') \<le> now"
  shows "(\<exists>n sl2 g. slab_tick sha now sl' f = Inr (n, sl2, g) \<and> 0 \<le> n \<and> sl_full_pending sl2 = [] \<and>
      list_all (\<lambda>b. bk_unflushed b = 0) (live sl2)) \<and>
    (\<exists>h sl2 g. slab_seal sha sl' f = Inr (h, sl2, g) \<and> list_all (\<lambda>b. bk_len b = 0) (live sl2))"
proof -
  have inv: "slab_inv sha sl' f" using open_inv [OF assms(2,1), of sha] run_inv [OF assms(3)] by simp
  have "\<not> int ((now - prev) div 1000) < sl_sla_us sl'" if "sl_last_sweep sl' = Some prev" for prev
  proof -
    have "1000 * nat (sl_sla_us sl') \<le> now - prev" using due that by simp
    then have "nat (sl_sla_us sl') \<le> (now - prev) div 1000" by (simp add: less_eq_div_iff_mult_less_eq mult.commute)
    then show ?thesis by linarith
  qed
  then have "slab_tick sha now sl' f = sweep sha (sl'\<lparr>sl_last_sweep := Some now\<rparr>) f"
    by (auto simp: slab_tick_def split: option.split)
  then show ?thesis using sweep_inv [of sha "sl'\<lparr>sl_last_sweep := Some now\<rparr>" f] seal_inv [OF inv] inv
    by (auto simp: all_synced_def)
qed

theorem due_tick_fires_witness:
  "\<exists>n sl f. slab_tick sha0 9 (fst s1) (snd s1) = Inr (n, sl, f) \<and> 0 \<le> n \<and> sl_full_pending sl = []"
proof -
  have "slab_run sha0 mem0 (sl0, fs0) [1, 2, 3, 4, 5] (fst s1, snd s1)" using s1_run by simp
  from due_tick_fires [OF fs0_wf sl0_open this, of 9] s1_last show ?thesis by auto
qed

section \<open>Records\<close>

lemma append_active:
  assumes "slab_append bs sl f = (off, sl', f')"
  shows "\<exists>a. sl_active sl' = Some a \<and> bk_len a = off + int (length bs) \<and>
    (off = 0 \<or> (\<exists>a0. sl_active sl = Some a0 \<and> bk_len a0 = off \<and> off + int (length bs) \<le> sl_block_bytes sl) \<or> off < 0)"
proof -
  obtain a sl1 f1 where e: "ensure_active (rotate (int (length bs)) sl) f = (a, sl1, f1)" by (metis prod_cases3)
  have r: "off = bk_len a" "sl_active sl' = Some (a\<lparr>bk_hasher := bk_hasher a @ bs, bk_len := bk_len a + int (length bs),
      bk_unflushed := bk_unflushed a + int (length bs)\<rparr>)"
    using assms e by (auto simp: slab_append_def Let_def)
  have "off = 0 \<or> (\<exists>a0. sl_active sl = Some a0 \<and> bk_len a0 = off \<and> off + int (length bs) \<le> sl_block_bytes sl) \<or> off < 0"
    using e r(1) by (auto simp: ensure_active_def rotate_def mint_block_def Let_def split: option.splits if_splits)
  then show ?thesis using r by simp
qed

lemma append_bytes:
  assumes inv: "slab_inv sha sl f" and r: "slab_append bs sl f = (off, sl', f')" and a: "sl_active sl' = Some a"
  shows "\<exists>xs. file_bytes f' (bk_path a) = xs @ bs \<and> int (length xs) = off"
proof -
  let ?n = "int (length bs)"
  obtain a0 sl1 f1 where e: "ensure_active (rotate ?n sl) f = (a0, sl1, f1)" by (metis prod_cases3)
  from ensure_active_inv [OF rotate_inv(1) [OF inv] e] have ok: "block_ok f1 a0" by (simp add: slab_inv_def live_def)
  have "off = bk_len a0" "bk_path a = bk_path a0" "f' = fs_write (bk_file a0) bs f1"
    using r e a by (auto simp: slab_append_def Let_def)
  then show ?thesis using block_okD(2,3) [OF ok] by (simp add: file_bytes_def fs_write_def)
qed

text \<open>
  A record is stored whole: the offset \<open>slab_append\<close> returns is where its bytes are in the active block, at that
  block's end; and the block is within \<open>block_bytes\<close> unless the record is alone in it.
\<close>

theorem append_placed:
  assumes "fs_wf f0" "slab_open us bb f0 = Inr sl" "slab_run sha mem (sl, f0) log (sl1, f)"
    and "slab_append bs sl1 f = (off, sl2, g)"
  shows "\<exists>a. sl_active sl2 = Some a \<and> drop (nat off) (file_bytes g (bk_path a)) = bs \<and>
    bk_len a = int (length (file_bytes g (bk_path a))) \<and> 0 \<le> off \<and>
    (off = 0 \<or> off + int (length bs) \<le> sl_block_bytes sl1)"
proof -
  have inv: "slab_inv sha sl1 f" using open_inv [OF assms(2,1), of sha] run_inv [OF assms(3)] by simp
  obtain a where a: "sl_active sl2 = Some a" "bk_len a = off + int (length bs)"
    "off = 0 \<or> off + int (length bs) \<le> sl_block_bytes sl1 \<or> off < 0"
    using append_active [OF assms(4)] by blast
  obtain xs where "file_bytes g (bk_path a) = xs @ bs" "int (length xs) = off" using append_bytes [OF inv assms(4) a(1)] by blast
  then show ?thesis using a by auto
qed

theorem append_placed_witness:
  "\<exists>a. sl_active (fst (slab_append_to [6] s1)) = Some a \<and>
    drop (nat (fst (slab_append [6] (fst s1) (snd s1)))) (file_bytes (snd (slab_append_to [6] s1)) (bk_path a)) = [6]"
proof -
  have r: "slab_run sha0 mem0 (sl0, fs0) [1, 2, 3, 4, 5] (fst s1, snd s1)" using s1_run by simp
  obtain off sl g where "slab_append [6] (fst s1) (snd s1) = (off, sl, g)" by (metis prod_cases3)
  with append_placed [OF fs0_wf sl0_open r this] show ?thesis by (auto simp: slab_append_to_def)
qed

section \<open>Earlier runs\<close>

text \<open>
  A run never touches the sealed blocks it finds: whatever is done with a newly opened handle, the file under every
  sealed name that was in the directory keeps its bytes.
\<close>

theorem earlier_blocks_kept:
  assumes "fs_wf f0" "slab_open us bb f0 = Inr sl" "slab_run sha mem (sl, f0) log (sl', f)"
    and "i64_range k" "map_of (fs_dir f0) (sealed_path k) = Some i"
  shows "map_of (fs_dir f) (sealed_path k) = Some i \<and> file_bytes f (sealed_path k) = file_bytes f0 (sealed_path k)"
proof -
  have "slab_inv sha sl f0" using open_inv [OF assms(2,1)] by blast
  then have "untouched k f0 (sl', f)" using run_untouched [OF assms(3) _ open_untouched [OF assms(2,1,4,5)]] by simp
  then show ?thesis using keeps_file_bytes assms(5) by (auto simp: untouched_def keeps_def)
qed

lemma s2_open: "slab_open 5 4 (snd s2) = Inr (sl0\<lparr>sl_next_seq := 1\<rparr>)"
  by code_simp

theorem earlier_blocks_kept_witness:
  "file_bytes (snd (slab_append_to [9] (sl0\<lparr>sl_next_seq := 1\<rparr>, snd s2))) (sealed_path 0) = [1, 2, 3]"
proof -
  have wf: "fs_wf (snd s2)" using run_inv [OF s2_run] sl0_inv by (auto simp: slab_inv_def)
  let ?t = "slab_append_to [9] (sl0\<lparr>sl_next_seq := 1\<rparr>, snd s2)"
  have "slab_run sha0 mem0 (sl0\<lparr>sl_next_seq := 1\<rparr>, snd s2) ([] @ [9]) (fst ?t, snd ?t)"
    using run_append [OF run_open, where bs = "[9]"] by simp
  from earlier_blocks_kept [OF wf s2_open this, of 0 0] s2_dir show ?thesis
    by (auto simp: i64_range_def file_bytes_def)
qed

text \<open>
  A fired tick makes a record durable, but the next run throws it away if its block was not sealed: after appending
  \<open>[1, 2, 3]\<close> and a tick that returns 1, a restart on the same files (no byte lost) gives the new writer the number of the
  unsealed block again, and its first append removes that block's file; the record is in no file any more.
\<close>

theorem restart_discards_synced_block:
  "let s = slab_append_to [1, 2, 3] (sl0, fs0) in
   case slab_tick sha0 0 (fst s) (snd s) of
     Inl _ \<Rightarrow> False
   | Inr (n, sl, f) \<Rightarrow>
       n = 1 \<and> file_bytes f (part_path 0) = [1, 2, 3] \<and> slab_open 5 4 f = Inr sl0 \<and>
       map fst (fs_dir (snd (slab_append_to [9] (sl0, f)))) = [part_path 0] \<and>
       file_bytes (snd (slab_append_to [9] (sl0, f))) (part_path 0) = [9]"
  by code_simp

text \<open>
  The counter of directory fsyncs a sweep reports leaves out the ones its seals make: here three directories are fsynced
  (the first flush of each block, and the seal), two are counted.
\<close>

lemma sweep_forgets_seal_fsyncs: "length (sl_sealed (fst s2)) = 1 \<and> sl_data_fsyncs (fst s2) = 2 \<and> sl_dir_fsyncs (fst s2) = 2"
  by code_simp

end
