(* ===== verification/Chunk.thy ===== *)
theory Chunk
  imports Slab
begin

text \<open>
  The content-defined chunker of \<open>src/src/runtime/chunk.rs\<close>. A \<open>usize\<close> is a number, its wrap-around written out where
  the code computes with environment values; the gear hash is on 64-bit words. A reader is the list of what its \<open>read\<close>
  calls give, \<open>Ok(0)\<close> from then on; the loop over chunks is a partial function, \<open>None\<close> when it does not end.
\<close>

section \<open>The gear table\<close>

definition splitmix_mix :: "u64 \<Rightarrow> u64" where
  "splitmix_mix x =
     (let z = (x XOR drop_bit 30 x) * 0xBF58476D1CE4E5B9;
          z = (z XOR drop_bit 27 z) * 0x94D049BB133111EB in
      z XOR drop_bit 31 z)"

fun gear_loop :: "nat \<Rightarrow> u64 \<Rightarrow> u64 list" where
  "gear_loop 0 x = []"
| "gear_loop (Suc n) x = (let x = x + 0x9E3779B97F4A7C15 in splitmix_mix x # gear_loop n x)"

definition gear_table :: "u64 list" where
  "gear_table = gear_loop 256 0x9E3779B97F4A7C15"

section \<open>Parameters\<close>

record chunk_params =
  cp_min :: nat
  cp_avg :: nat
  cp_max :: nat
  cp_mask_s :: u64
  cp_mask_l :: u64

definition DEFAULT_AVG :: nat where
  "DEFAULT_AVG = 1024 * 1024"

definition MIN_AVG :: nat where
  "MIN_AVG = 64"

text \<open>\<open>env_usize\<close>: the variable is there, a number and positive.\<close>

definition env_usize :: "rstring option \<Rightarrow> nat option" where
  "env_usize v =
     Option.bind v (\<lambda>s.
       case s of
         [] \<Rightarrow> None
       | c # cs \<Rightarrow>
           let ds = (if c = 0x2b then cs else s) in
           if ds = [] then None
           else Option.bind (parse_digits 0 ds) (\<lambda>n. if 0 < n \<and> n < 2 ^ 64 then Some n else None))"

fun floor_log2 :: "nat \<Rightarrow> nat" where
  "floor_log2 n = (if n < 2 then 0 else Suc (floor_log2 (n div 2)))"

declare floor_log2.simps [simp del]

fun spread_loop :: "nat \<Rightarrow> nat \<Rightarrow> u64 \<Rightarrow> u64" where
  "spread_loop 0 bits m = m"
| "spread_loop (Suc j) bits m = (let k = bits - Suc j in spread_loop j bits (m OR push_bit (1 + k * 61 div bits) 1))"

definition spread_mask :: "nat \<Rightarrow> u64" where
  "spread_mask bits = (let bits = max 1 (min 60 bits) in spread_loop bits bits 0)"

definition params :: "(string \<Rightarrow> rstring option) \<Rightarrow> chunk_params" where
  "params env =
     (let avg = max (case env_usize (env ''AXVERITY_CDC_AVG_BYTES'') of Some n \<Rightarrow> n | None \<Rightarrow> DEFAULT_AVG) MIN_AVG;
          mi = max (case env_usize (env ''AXVERITY_CDC_MIN_BYTES'') of Some n \<Rightarrow> n | None \<Rightarrow> avg div 4) 1;
          mx = max (case env_usize (env ''AXVERITY_CDC_MAX_BYTES'') of Some n \<Rightarrow> n | None \<Rightarrow> (avg * 4) mod 2 ^ 64) ((mi + 1) mod 2 ^ 64);
          b = floor_log2 avg in
      \<lparr>cp_min = mi, cp_avg = avg, cp_max = mx, cp_mask_s = spread_mask (b + 2), cp_mask_l = spread_mask (max (b - 2) 1)\<rparr>)"

section \<open>The cut\<close>

text \<open>One of the two loops: it stops at a boundary (\<open>Inl\<close>) or at its limit, with the rolling hash so far.\<close>

function cut_loop :: "u64 \<Rightarrow> bytes \<Rightarrow> nat \<Rightarrow> nat \<Rightarrow> u64 \<Rightarrow> nat + nat \<times> u64" where
  "cut_loop msk dat i limit fp =
     (if i < limit then
        (let fp = push_bit 1 fp + gear_table ! unat (dat ! i) in
         if fp AND msk = 0 then Inl i else cut_loop msk dat (Suc i) limit fp)
      else Inr (i, fp))"
  by pat_completeness auto
termination by (relation "measure (\<lambda>(msk, dat, i, limit, fp). limit - i)") auto

declare cut_loop.simps [simp del]

definition fastcdc_cut :: "bytes \<Rightarrow> chunk_params \<Rightarrow> nat" where
  "fastcdc_cut dat p =
     (let len = length dat in
      if len \<le> cp_min p then len
      else
        let n = (if cp_max p < len then cp_max p else len);
            normal = (if n < cp_avg p then n else cp_avg p) in
        case cut_loop (cp_mask_s p) dat (cp_min p) normal 0 of
          Inl i \<Rightarrow> i
        | Inr (i, fp) \<Rightarrow> (case cut_loop (cp_mask_l p) dat i n fp of Inl i \<Rightarrow> i | Inr _ \<Rightarrow> n))"

section \<open>The streaming loop\<close>

text \<open>The window is filled up to \<open>cp_max\<close>. \<open>Inl\<close> is an I/O error of the reader.\<close>

fun fill :: "nat \<Rightarrow> ('e + bytes) list \<Rightarrow> bytes \<Rightarrow> bool \<Rightarrow> 'e + ('e + bytes) list \<times> bytes \<times> bool" where
  "fill mx r buf True = Inr (r, buf, True)"
| "fill mx [] buf False = (if length buf < mx then Inr ([], buf, True) else Inr ([], buf, False))"
| "fill mx (x # r) buf False =
     (if length buf < mx then
        (case x of Inl e \<Rightarrow> Inl e | Inr k \<Rightarrow> if k = [] then Inr (r, buf, True) else fill mx r (buf @ k) False)
      else Inr (x # r, buf, False))"

definition chunk_line :: "(bytes \<Rightarrow> hash256) \<Rightarrow> nat \<Rightarrow> bytes \<Rightarrow> rstring" where
  "chunk_line sha off chunk = nat_text off @ tab @ nat_text (length chunk) @ tab @ content_hash sha chunk @ [10]"

partial_function (option) chunk_loop ::
  "(bytes \<Rightarrow> hash256) \<Rightarrow> chunk_params \<Rightarrow> ('e + bytes) list \<Rightarrow> bytes \<Rightarrow> bool \<Rightarrow> nat \<Rightarrow> rstring \<Rightarrow> ('e + rstring) option" where
  [code]: "chunk_loop sha p r buf eof off out =
     (case fill (cp_max p) r buf eof of
        Inl e \<Rightarrow> Some (Inl e)
      | Inr (r, buf, eof) \<Rightarrow>
          if buf = [] then Some (Inr out)
          else
            let cut = fastcdc_cut buf p in
            chunk_loop sha p r (drop cut buf) eof (off + cut) (out @ chunk_line sha off (take cut buf)))"

definition chunk_reader :: "(bytes \<Rightarrow> hash256) \<Rightarrow> ('e + bytes) list \<Rightarrow> chunk_params \<Rightarrow> ('e + rstring) option" where
  "chunk_reader sha r p =
     map_option (map_sum id (\<lambda>out. if out \<noteq> [] \<and> last out = 10 then butlast out else out)) (chunk_loop sha p r [] False 0 [])"

text \<open>\<open>open_file\<close> gives the reads of the file, or the error of opening it; either error is a panic.\<close>

definition chunk_file :: "(bytes \<Rightarrow> hash256) \<Rightarrow> (string \<Rightarrow> rstring option) \<Rightarrow> (rstring \<Rightarrow> 'e + ('e + bytes) list) \<Rightarrow> rstring \<Rightarrow> ('e + rstring) option" where
  "chunk_file sha env open_file path =
     (case open_file path of Inl e \<Rightarrow> Some (Inl e) | Inr r \<Rightarrow> chunk_reader sha r (params env))"

section \<open>Chunking a whole file\<close>

text \<open>The reference: cut the whole rest of the file, again and again.\<close>

function chunks :: "chunk_params \<Rightarrow> bytes \<Rightarrow> bytes list" where
  "chunks p dat =
     (if dat = [] \<or> fastcdc_cut dat p = 0 then []
      else take (fastcdc_cut dat p) dat # chunks p (drop (fastcdc_cut dat p) dat))"
  by pat_completeness auto
termination by (relation "measure (\<lambda>(p, dat). length dat)") auto

declare chunks.simps [simp del]

fun manifest :: "(bytes \<Rightarrow> hash256) \<Rightarrow> nat \<Rightarrow> bytes list \<Rightarrow> rstring" where
  "manifest sha off [] = []"
| "manifest sha off (c # cs) = chunk_line sha off c @ manifest sha (off + length c) cs"

definition params_ok :: "chunk_params \<Rightarrow> bool" where
  "params_ok p \<longleftrightarrow> 1 \<le> cp_min p \<and> cp_min p < cp_max p"

section \<open>Where a cut falls\<close>

lemma cut_loop_bounds:
  "cut_loop msk dat i limit fp = Inl c \<Longrightarrow> i \<le> c \<and> c < limit"
  "cut_loop msk dat i limit fp = Inr (c, fp') \<Longrightarrow> c = max i limit"
  by (induction msk dat i limit fp rule: cut_loop.induct; subst (asm) (2) cut_loop.simps;
      force simp: Let_def split: if_splits)+

text \<open>The loop looks at no byte beyond its limit.\<close>

lemma cut_loop_take:
  "limit \<le> n \<Longrightarrow> cut_loop msk (take n dat) i limit fp = cut_loop msk dat i limit fp"
proof (induction msk dat i limit fp rule: cut_loop.induct)
  case (1 msk dat i limit fp)
  show ?case
    using 1 by (subst (1 2) cut_loop.simps) (auto simp: Let_def)
qed

lemma fastcdc_cut_bounds:
  assumes "params_ok p" "dat \<noteq> []"
  shows "1 \<le> fastcdc_cut dat p \<and> fastcdc_cut dat p \<le> length dat \<and> fastcdc_cut dat p \<le> cp_max p \<and>
    (fastcdc_cut dat p < length dat \<longrightarrow> cp_min p \<le> fastcdc_cut dat p)"
proof (cases "length dat \<le> cp_min p")
  case True
  then show ?thesis using assms by (cases dat) (auto simp: fastcdc_cut_def params_ok_def)
next
  case False
  let ?n = "if cp_max p < length dat then cp_max p else length dat"
  let ?m = "if ?n < cp_avg p then ?n else cp_avg p"
  have n: "cp_min p < ?n" "?n \<le> length dat" "?n \<le> cp_max p" using False assms(1) by (auto simp: params_ok_def)
  have "cp_min p \<le> fastcdc_cut dat p \<and> fastcdc_cut dat p \<le> ?n"
  proof (cases "cut_loop (cp_mask_s p) dat (cp_min p) ?m 0")
    case (Inl c)
    then show ?thesis using cut_loop_bounds(1) [OF Inl] False n by (auto simp: fastcdc_cut_def Let_def split: if_splits)
  next
    case (Inr r)
    obtain i fp where r: "r = (i, fp)" by (cases r)
    have i: "i = max (cp_min p) ?m" using cut_loop_bounds(2) [OF Inr [unfolded r]] .
    show ?thesis
    proof (cases "cut_loop (cp_mask_l p) dat i ?n fp")
      case (Inl c)
      with cut_loop_bounds(1) [OF Inl] i Inr r False show ?thesis by (simp add: fastcdc_cut_def Let_def)
    next
      case (Inr r')
      with \<open>cut_loop _ _ _ ?m 0 = Inr r\<close> r n False show ?thesis by (simp add: fastcdc_cut_def Let_def)
    qed
  qed
  then show ?thesis using n assms(1) by (auto simp: params_ok_def)
qed

text \<open>A window of \<open>cp_max\<close> bytes decides the cut.\<close>

lemma fastcdc_cut_window:
  assumes "params_ok p" "cp_max p \<le> length w"
  shows "fastcdc_cut (w @ rest) p = fastcdc_cut w p"
proof -
  have l: "\<not> length w \<le> cp_min p" "\<not> length (w @ rest) \<le> cp_min p" using assms by (auto simp: params_ok_def)
  let ?m = "if cp_max p < cp_avg p then cp_max p else cp_avg p"
  have cut: "fastcdc_cut d p = (case cut_loop (cp_mask_s p) d (cp_min p) ?m 0 of Inl i \<Rightarrow> i
      | Inr (i, fp) \<Rightarrow> (case cut_loop (cp_mask_l p) d i (cp_max p) fp of Inl i \<Rightarrow> i | Inr _ \<Rightarrow> cp_max p))"
    if "cp_max p \<le> length d" for d
  proof -
    have "(if cp_max p < length d then cp_max p else length d) = cp_max p" using that by simp
    moreover have "\<not> length d \<le> cp_min p" using that assms(1) by (auto simp: params_ok_def)
    ultimately show ?thesis by (simp add: fastcdc_cut_def Let_def)
  qed
  have same: "cut_loop msk (w @ rest) i lim fp = cut_loop msk w i lim fp" if "lim \<le> cp_max p" for msk i lim fp
    using cut_loop_take [of lim "length w" msk "w @ rest" i fp] that assms(2) by simp
  show ?thesis using assms(2) same [of ?m] same [of "cp_max p"]
    by (simp add: cut split: sum.split)
qed

end
