(* ===== verification/ChunkRules.thy ===== *)
theory ChunkRules
  imports Chunk
begin

text \<open>
  The chunker returns on every input, and streaming a file through its window, whatever the sizes of the reads, gives the
  manifest of the chunks of the whole file.
\<close>

section \<open>Readers\<close>

text \<open>The bytes a reader delivers, up to its end.\<close>

fun stream :: "('e + bytes) list \<Rightarrow> bytes" where
  "stream [] = []"
| "stream (Inl e # r) = []"
| "stream (Inr k # r) = (if k = [] then [] else k @ stream r)"

fun reader_size :: "('e + bytes) list \<Rightarrow> nat" where
  "reader_size [] = 0"
| "reader_size (Inl e # r) = reader_size r"
| "reader_size (Inr k # r) = length k + reader_size r"

definition reads_ok :: "('e + bytes) list \<Rightarrow> bool" where
  "reads_ok r \<longleftrightarrow> list_all (\<lambda>x. case x of Inl _ \<Rightarrow> False | Inr _ \<Rightarrow> True) r"

lemma fill_size:
  assumes "fill mx r buf eof = Inr (r', buf', eof')"
  shows "length buf' + reader_size r' \<le> length buf + reader_size r"
  using assms by (induction mx r buf eof rule: fill.induct) (auto split: if_splits sum.splits)

lemma fill_ok:
  assumes "reads_ok r"
  shows "\<exists>r' buf' eof'. fill mx r buf eof = Inr (r', buf', eof') \<and> reads_ok r' \<and> (eof' \<or> mx \<le> length buf') \<and>
    buf' @ (if eof' then [] else stream r') = buf @ (if eof then [] else stream r)"
  using assms
proof (induction mx r buf eof rule: fill.induct)
  case (3 mx x r buf)
  then obtain k where x: "x = Inr k" "reads_ok r" by (cases x) (auto simp: reads_ok_def)
  show ?case
  proof (cases "length buf < mx \<and> k \<noteq> []")
    case True
    with 3 x show ?thesis by auto
  qed (use 3(2) x in auto)
qed (auto simp: reads_ok_def)

section \<open>Chunks\<close>

lemma cut_shrinks:
  assumes "params_ok p" "dat \<noteq> []"
  shows "length (drop (fastcdc_cut dat p) dat) < length dat" "length (take (fastcdc_cut dat p) dat) = fastcdc_cut dat p"
  using fastcdc_cut_bounds [OF assms] assms(2) by (cases dat; auto)+

lemma chunks_step:
  assumes "params_ok p" "dat \<noteq> []"
  shows "chunks p dat = take (fastcdc_cut dat p) dat # chunks p (drop (fastcdc_cut dat p) dat)"
  using fastcdc_cut_bounds [OF assms] assms(2) by (subst chunks.simps) auto

lemma chunks_Nil [simp]: "chunks p [] = []"
  by (subst chunks.simps) simp

lemma chunks_cover:
  assumes "params_ok p"
  shows "concat (chunks p dat) = dat \<and> list_all (\<lambda>c. 1 \<le> length c \<and> length c \<le> cp_max p) (chunks p dat) \<and>
    list_all (\<lambda>c. cp_min p \<le> length c) (butlast (chunks p dat))"
proof (induction dat rule: length_induct)
  case (1 dat)
  show ?case
  proof (cases "dat = []")
    case False
    let ?c = "fastcdc_cut dat p"
    note B = fastcdc_cut_bounds [OF assms False]
    have "length (drop ?c dat) < length dat" using cut_shrinks(1) [OF assms False] .
    with 1 have IH: "concat (chunks p (drop ?c dat)) = drop ?c dat"
      "list_all (\<lambda>c. 1 \<le> length c \<and> length c \<le> cp_max p) (chunks p (drop ?c dat))"
      "list_all (\<lambda>c. cp_min p \<le> length c) (butlast (chunks p (drop ?c dat)))" by blast+
    have "cp_min p \<le> ?c" if "chunks p (drop ?c dat) \<noteq> []" using that B by (cases "?c < length dat") auto
    then show ?thesis using IH B by (auto simp: chunks_step [OF assms False] min_def)
  qed simp
qed

section \<open>The loop\<close>


lemma chunk_loop_manifest:
  assumes p: "params_ok p"
  shows "reads_ok r \<Longrightarrow>
    chunk_loop sha p r buf eof off out = Some (Inr (out @ manifest sha off (chunks p (buf @ (if eof then [] else stream r)))))"
proof (induction "length buf + reader_size r" arbitrary: r buf eof off out rule: less_induct)
  case less
  obtain r' buf' eof' where f: "fill (cp_max p) r buf eof = Inr (r', buf', eof')" "reads_ok r'" "eof' \<or> cp_max p \<le> length buf'"
    and s: "buf @ (if eof then [] else stream r) = buf' @ (if eof' then [] else stream r')"
    using fill_ok [OF less.prems, of "cp_max p" buf eof] by metis
  let ?rest = "if eof' then [] else stream r'" and ?c = "fastcdc_cut buf' p"
  show ?case
  proof (cases "buf' = []")
    case True
    then have "buf' @ ?rest = []" using f(3) p by (auto simp: params_ok_def)
    then show ?thesis unfolding s using True f by (subst chunk_loop.simps) simp
  next
    case False
    note B = fastcdc_cut_bounds [OF p False]
    have cut: "fastcdc_cut (buf' @ ?rest) p = ?c" using f(3) fastcdc_cut_window [OF p] by auto
    have "length (drop ?c buf') + reader_size r' < length buf + reader_size r" using fill_size [OF f(1)] cut_shrinks(1) [OF p False] by linarith
    note IH = less.hyps [OF this f(2), of eof' "off + ?c" "out @ chunk_line sha off (take ?c buf')"]
    have "chunks p (buf' @ ?rest) = take ?c buf' # chunks p (drop ?c buf' @ ?rest)"
      using chunks_step [OF p, of "buf' @ ?rest"] False B cut by simp
    moreover have "chunk_loop sha p r buf eof off out =
        chunk_loop sha p r' (drop ?c buf') eof' (off + ?c) (out @ chunk_line sha off (take ?c buf'))"
      using f(1) False by (subst chunk_loop.simps) (simp add: Let_def)
    ultimately show ?thesis unfolding s IH using cut_shrinks(2) [OF p False] by (simp only: manifest.simps append_assoc)
  qed
qed

lemma manifest_end: "cs \<noteq> [] \<Longrightarrow> manifest sha off cs \<noteq> [] \<and> last (manifest sha off cs) = 10"
proof (induction cs arbitrary: off)
  case (Cons c cs)
  then show ?case by (cases cs) (auto simp: chunk_line_def)
qed simp

lemma chunk_reader_manifest:
  assumes "params_ok p" "reads_ok r"
  shows "chunk_reader sha r p = Some (Inr (butlast (manifest sha 0 (chunks p (stream r)))))"
  using chunk_loop_manifest [OF assms, of sha "[]" False 0 "[]"] manifest_end [of "chunks p (stream r)" sha 0]
  by (cases "chunks p (stream r) = []") (auto simp: chunk_reader_def)

lemma params_are_ok:
  assumes "env_usize (env ''AXVERITY_CDC_MIN_BYTES'') \<noteq> Some (2 ^ 64 - 1)"
  shows "params_ok (params env)"
proof -
  have r: "n < 2 ^ 64" if "env_usize v = Some n" for v n
    using that by (cases v; cases "the v") (auto simp: env_usize_def Let_def bind_eq_Some_conv split: if_splits)
  let ?avg = "max (case env_usize (env ''AXVERITY_CDC_AVG_BYTES'') of Some n \<Rightarrow> n | None \<Rightarrow> DEFAULT_AVG) MIN_AVG"
  let ?mi = "max (case env_usize (env ''AXVERITY_CDC_MIN_BYTES'') of Some n \<Rightarrow> n | None \<Rightarrow> ?avg div 4) 1"
  have "?avg < 2 ^ 64" using r by (auto simp: DEFAULT_AVG_def MIN_AVG_def split: option.split)
  moreover have "x div 4 < 2 ^ 64 - 1" if "x < 2 ^ 64" for x :: nat using that by simp
  ultimately have "?avg div 4 < 2 ^ 64 - 1" by blast
  then have "?mi < 2 ^ 64 - 1" using r [of "env ''AXVERITY_CDC_MIN_BYTES''"] assms by (auto split: option.split)
  then have "(?mi + 1) mod 2 ^ 64 = ?mi + 1" by (intro mod_less) linarith
  then show ?thesis unfolding params_ok_def params_def Let_def chunk_params.simps by linarith
qed

section \<open>Properties\<close>



text \<open>
  C34. Whatever the sizes of the reads, the manifest is that of the chunks of the whole file, one line each with its offset,
  length and hash; the chunks are the file cut up without a gap, none longer than the maximum and only the last one shorter
  than the minimum.
\<close>

theorem chunk_file_manifest:
  assumes "env_usize (env ''AXVERITY_CDC_MIN_BYTES'') \<noteq> Some (2 ^ 64 - 1)" "open_file path = Inr r" "reads_ok r"
  shows "let p = params env; cs = chunks p (stream r) in
    chunk_file sha env open_file path = Some (Inr (butlast (manifest sha 0 cs))) \<and> concat cs = stream r \<and>
    list_all (\<lambda>c. 1 \<le> length c \<and> length c \<le> cp_max p) cs \<and> list_all (\<lambda>c. cp_min p \<le> length c) (butlast cs)"
proof -
  note p = params_are_ok [of env, OF assms(1)]
  show ?thesis using chunk_reader_manifest [OF p assms(3)] chunks_cover [OF p] assms(2) by (simp add: chunk_file_def Let_def)
qed

theorem chunk_file_manifest_witness:
  "chunk_file (\<lambda>bs. take 32 bs) (\<lambda>_. None) (\<lambda>_. Inr [Inr [1], Inr [2, 3 :: u8]] :: string + (string + bytes) list) [] =
     Some (Inr (butlast (manifest (\<lambda>bs. take 32 bs) 0 (chunks (params (\<lambda>_. None)) [1, 2, 3])))) \<and>
   concat (chunks (params (\<lambda>_. None)) [1, 2, 3]) = [1, 2, 3]"
  using chunk_file_manifest [of "\<lambda>_. None" "\<lambda>_. Inr [Inr [1], Inr [2, 3]] :: string + (string + bytes) list" "[]"
      "[Inr [1], Inr [2, 3]]" "\<lambda>bs. take 32 bs"]
  by (simp add: env_usize_def reads_ok_def Let_def)

end
