(* ===== verification/RtClaims.thy ===== *)
theory RtClaims
  imports RtList
begin

text \<open>What the builtins on integers and packed lists promise.\<close>

section \<open>Bytes of a word\<close>

lemma le_bytes_nth:
  "k < n \<Longrightarrow> le_bytes n w ! k = ucast (drop_bit (8 * k) w)"
proof (induction n arbitrary: w k)
  case (Suc n)
  then show ?case by (cases k) (simp_all add: drop_bit_drop_bit add.commute)
qed simp

lemma uint_byte:
  assumes "k < 8"
  shows "uint (le_bytes 8 (word_of_int v) ! k) = v div 256 ^ k mod 256"
proof -
  have "uint (ucast (drop_bit (8 * k) (word_of_int v :: u64)) :: u8) = take_bit 8 (drop_bit (8 * k) (take_bit 64 v))"
    by (simp add: unsigned_ucast_eq unsigned_drop_bit_eq unsigned_of_int)
  also have "\<dots> = take_bit 8 (drop_bit (8 * k) v)"
    using assms by (intro bit_eqI) (auto simp: bit_simps)
  also have "\<dots> = v div 256 ^ k mod 256"
    by (simp add: take_bit_eq_mod drop_bit_eq_div power_mult)
  finally show ?thesis using assms by (simp add: le_bytes_nth)
qed

text \<open>
  Reading byte \<open>k\<close> of a 64-bit word by arithmetic, \<open>int_mod(int_div(v, 256^k), 256)\<close>, gives byte \<open>k\<close> of its
  two's-complement form for every word, negative ones included, and every \<open>k\<close> from 0 to 7.
\<close>

theorem byte_by_arithmetic:
  assumes "i64_range v" "k < 8"
  shows "bindE (int_div v (256 ^ k)) (\<lambda>q :: 'x val. bindE (as_int q) (\<lambda>q. int_mod q 256)) =
    (Inr (VInt (uint (le_bytes 8 (word_of_int v) ! k))) :: 'x val rt)"
proof -
  have "(256 :: int) ^ k \<noteq> - 1" by (smt (verit) zero_less_power)
  then show ?thesis
    by (simp add: uint_byte [OF assms(2)] int_div_def div_euclid_def as_int_def int_mod_def rem_euclid_def)
qed

theorem byte_by_arithmetic_witness:
  "bindE (int_div (- 83) (256 ^ 1)) (\<lambda>q :: unit val. bindE (as_int q) (\<lambda>q. int_mod q 256)) = (Inr (VInt 255) :: unit val rt)"
  using byte_by_arithmetic [of "- 83" 1, where 'x = unit] uint_byte [of 1 "- 83"] by (simp add: i64_range_def del: le_bytes.simps bindE_eq_Inr)

section \<open>Packed lists\<close>

lemma utf8_next_append: "utf8_next s = Some (c, r) \<Longrightarrow> utf8_next (s @ t) = Some (c, r @ t)"
  by (cases s) (auto simp: Let_def split: if_splits list.splits)

lemma char_cut_chars:
  assumes "utf8_valid s"
  shows "char_cut (length (chars s)) (s @ t) = Some (length s)"
  using assms
proof (induction s rule: utf8_decode.induct)
  case (1 s)
  show ?case
  proof (cases "s = []")
    case True
    then show ?thesis by (simp add: chars_def utf8_decode.simps [of "[]"])
  next
    case False
    with 1(2) obtain c r where n: "utf8_next s = Some (c, r)" and d: "utf8_decode r \<noteq> None"
      by (subst (asm) utf8_valid_def, subst (asm) utf8_decode.simps) (auto split: option.splits)
    from d have IH: "char_cut (length (chars r)) (r @ t) = Some (length r)" using 1(1) [OF False n refl] by (simp add: utf8_valid_def)
    have "chars s = c # chars r" using False n d by (simp add: chars_def utf8_decode.simps [of s] split: option.splits)
    then show ?thesis using utf8_next_append [OF n, of t] IH utf8_next_shorter [OF n] by simp
  qed
qed

lemma pack_lens_split:
  assumes "ss \<noteq> []"
  shows "split_at 44 (pack_lens ss) = map (\<lambda>s. nat_text (length (chars s))) ss"
  using assms
proof (induction ss rule: pack_lens.induct)
  case (2 s)
  then show ?case by (simp add: split_at_last nat_text_no)
next
  case (3 s s' ss)
  then show ?case by (simp add: split_at_append nat_text_no)
qed simp

lemma pack_lens_no_bar: "124 \<notin> set (pack_lens ss)"
  by (induction ss rule: pack_lens.induct) (simp_all add: nat_text_no)

lemma unpack_items_pack:
  assumes "list_all (\<lambda>s. utf8_valid s \<and> length (chars s) < 2 ^ 64) ss"
  shows "unpack_items (map (\<lambda>s. nat_text (length (chars s))) ss) (concat ss @ t) = Inr (ss, t)"
  using assms by (induction ss) (simp_all add: parse_usize_nat_text char_cut_chars)

lemma texts_VStr: "texts f (map VStr ss) = Inr ss"
  by (induction ss) simp_all

text \<open>
  Packing loses nothing: a list of texts is read back from its packed form as it was, whatever the texts contain
  (bars, commas and digits included), so two lists with the same packed form are equal.
\<close>

theorem text_list_roundtrip:
  assumes "list_all (\<lambda>s. utf8_valid s \<and> length (chars s) < 2 ^ 64) ss" "length ss < 2 ^ 64"
  shows "\<exists>t. text_list_pack (VList (map VStr ss)) = (Inr (VStr t) :: 'x val rt) \<and>
    text_list_unpack t = (Inr (VList (map VStr ss)) :: 'x val rt)"
proof -
  let ?t = "nat_text (length ss) @ 124 # pack_lens ss @ 124 # concat ss"
  have "text_list_pack (VList (map VStr ss)) = (Inr (VStr ?t) :: 'x val rt)" by (simp add: text_list_pack_def texts_VStr)
  moreover have "cut_at 124 ?t = Some (nat_text (length ss), pack_lens ss @ 124 # concat ss)" by (simp add: cut_at_append nat_text_no)
  moreover have "cut_at 124 (pack_lens ss @ 124 # concat ss) = Some (pack_lens ss, concat ss)" by (simp add: cut_at_append pack_lens_no_bar)
  ultimately show ?thesis
    using pack_lens_split [of ss] unpack_items_pack [OF assms(1), of "[]"] parse_usize_nat_text [OF assms(2)]
    by (cases "ss = []") (auto simp: text_list_unpack_def)
qed

theorem text_list_roundtrip_witness:
  "text_list_unpack (lit ''2|1,2|,|1'') = (Inr (VList [VStr (lit '',''), VStr (lit ''|1'')]) :: unit val rt)"
proof -
  have "list_all (\<lambda>s. utf8_valid s \<and> length (chars s) < 2 ^ 64) [lit '','', lit ''|1'']"
    by (simp add: lit_def of_char_def utf8_valid_def chars_def utf8_decode.simps)
  from text_list_roundtrip [OF this, where 'x = unit] show ?thesis
    by (simp add: text_list_pack_def lit_def of_char_def chars_def utf8_decode.simps nat_text_rec)
qed

end
