(* ===== verification/IrTerms.thy ===== *)
theory IrTerms
  imports RtList Blocks "HOL-Library.List_Lexorder"
begin

text \<open>
  Terms of the surface IR as runtime values (\<open>src/src/runtime/ir_constructors.rs\<close> and \<open>ir_accessors.rs\<close>): the
  constructors and accessors, substitution, renaming and free variables, and bundles as values and back.
\<close>

definition make_ctor :: "string \<Rightarrow> 'x val list \<Rightarrow> 'x val" where
  "make_ctor tag fs = VCtor (lit tag) fs"

section \<open>Constructors\<close>

definition ir_make_int_lit :: "int \<Rightarrow> 'x val" where
  "ir_make_int_lit n = make_ctor ''IntLit'' [VInt n]"

definition ir_make_bool_lit :: "bool \<Rightarrow> 'x val" where
  "ir_make_bool_lit b = make_ctor ''BoolLit'' [VBool b]"

definition ir_make_unit_lit :: "'x val \<Rightarrow> 'x val rt" where
  "ir_make_unit_lit v = (case v of VUnit \<Rightarrow> Inr (make_ctor ''UnitLit'' []) | _ \<Rightarrow> Inl (BadType ''ir_make_unit_lit''))"

definition ir_make_var :: "rstring \<Rightarrow> 'x val" where
  "ir_make_var n = make_ctor ''Var'' [VStr n]"

definition ir_make_lam :: "rstring \<Rightarrow> 'x val \<Rightarrow> 'x val" where
  "ir_make_lam p b = make_ctor ''Lam'' [VStr p, b]"

definition ir_make_let :: "rstring \<Rightarrow> 'x val \<Rightarrow> 'x val \<Rightarrow> 'x val" where
  "ir_make_let n v b = make_ctor ''Let'' [VStr n, v, b]"

definition ir_make_if :: "'x val \<Rightarrow> 'x val \<Rightarrow> 'x val \<Rightarrow> 'x val" where
  "ir_make_if c t e = make_ctor ''If'' [c, t, e]"

definition ir_make_app :: "'x val \<Rightarrow> 'x val \<Rightarrow> 'x val" where
  "ir_make_app f a = make_ctor ''App'' [f, a]"

definition ir_make_call :: "rstring \<Rightarrow> 'x val \<Rightarrow> 'x val rt" where
  "ir_make_call t as =
     (case as of VList _ \<Rightarrow> Inr (make_ctor ''Call'' [VStr t, as]) | _ \<Rightarrow> Inl (BadType ''ir_make_call''))"

definition ir_term_kind :: "'x val \<Rightarrow> 'x val rt" where
  "ir_term_kind v = (case v of VCtor k _ \<Rightarrow> Inr (VStr k) | _ \<Rightarrow> Inl (BadType ''ir_term_kind''))"

section \<open>Accessors\<close>

definition expect_ctor :: "string \<Rightarrow> 'x val \<Rightarrow> (rstring \<times> 'x val list) rt" where
  "expect_ctor f v = (case v of VCtor k fs \<Rightarrow> Inr (k, fs) | _ \<Rightarrow> Inl (BadType f))"

definition kind_names :: "(rstring \<times> rstring) list" where
  "kind_names = map (map_prod lit lit)
     [(''IntLit'', ''int''), (''BoolLit'', ''bool''), (''UnitLit'', ''unit''), (''Var'', ''var''), (''Lam'', ''lam''),
      (''Let'', ''let''), (''If'', ''if''), (''App'', ''app''), (''Call'', ''call'')]"

definition ir_get_kind :: "'x val \<Rightarrow> 'x val rt" where
  "ir_get_kind v = bindE (expect_ctor ''ir_get_kind'' v) (\<lambda>(k, _).
     Inr (VStr (case map_of kind_names k of Some s \<Rightarrow> s | None \<Rightarrow> k)))"

definition ir_get_name :: "'x val \<Rightarrow> 'x val rt" where
  "ir_get_name v = bindE (expect_ctor ''ir_get_name'' v) (\<lambda>(k, fs).
     if k \<in> {lit ''Var'', lit ''Lam'', lit ''Let''} then
       bindE (nth_checked (OutOfRange ''ir_get_name'') fs 0) (\<lambda>n.
         case n of VStr s \<Rightarrow> Inr (VStr s) | _ \<Rightarrow> Inl (BadType ''ir_get_name''))
     else Inl (BadTerm ''ir_get_name''))"

definition ir_get_int_val :: "'x val \<Rightarrow> 'x val rt" where
  "ir_get_int_val v = bindE (expect_ctor ''ir_get_int_val'' v) (\<lambda>(k, fs).
     if k \<noteq> lit ''IntLit'' then Inl (BadTerm ''ir_get_int_val'')
     else bindE (nth_checked (OutOfRange ''ir_get_int_val'') fs 0) (\<lambda>n.
       case n of VInt i \<Rightarrow> Inr (VInt i) | _ \<Rightarrow> Inl (BadType ''ir_get_int_val'')))"

text \<open>The field accessors: a kind and a position.\<close>

definition ir_get :: "string \<Rightarrow> string \<Rightarrow> int \<Rightarrow> 'x val \<Rightarrow> 'x val rt" where
  "ir_get f kind i v = bindE (expect_ctor f v) (\<lambda>(k, fs).
     if k \<noteq> lit kind then Inl (BadTerm f) else nth_checked (OutOfRange f) fs i)"

definition ir_get_fn :: "'x val \<Rightarrow> 'x val rt" where
  "ir_get_fn = ir_get ''ir_get_fn'' ''App'' 0"

definition ir_get_arg :: "'x val \<Rightarrow> 'x val rt" where
  "ir_get_arg = ir_get ''ir_get_arg'' ''App'' 1"

definition ir_get_body :: "'x val \<Rightarrow> 'x val rt" where
  "ir_get_body v = bindE (expect_ctor ''ir_get_body'' v) (\<lambda>(k, fs).
     if k = lit ''Lam'' then nth_checked (OutOfRange ''ir_get_body'') fs 1
     else if k = lit ''Let'' then nth_checked (OutOfRange ''ir_get_body'') fs 2
     else Inl (BadTerm ''ir_get_body''))"

definition ir_get_value :: "'x val \<Rightarrow> 'x val rt" where
  "ir_get_value = ir_get ''ir_get_value'' ''Let'' 1"

definition ir_get_cond :: "'x val \<Rightarrow> 'x val rt" where
  "ir_get_cond = ir_get ''ir_get_cond'' ''If'' 0"

definition ir_get_then :: "'x val \<Rightarrow> 'x val rt" where
  "ir_get_then = ir_get ''ir_get_then'' ''If'' 1"

definition ir_get_else :: "'x val \<Rightarrow> 'x val rt" where
  "ir_get_else = ir_get ''ir_get_else'' ''If'' 2"

section \<open>Substitution and free variables\<close>

fun subst_value :: "rstring \<Rightarrow> 'x val \<Rightarrow> 'x val \<Rightarrow> 'x val" where
  "subst_value n r (VCtor k fs) =
     (if k = lit ''Var'' then (case fs of [VStr m] \<Rightarrow> if m = n then r else VCtor k fs | _ \<Rightarrow> VCtor k fs)
      else if k = lit ''Lam'' then
        (case fs of
           [p, body] \<Rightarrow> if p = VStr n then VCtor k fs else make_ctor ''Lam'' [p, subst_value n r body]
         | _ \<Rightarrow> VCtor k fs)
      else if k = lit ''Let'' then
        (case fs of
           [b, v, body] \<Rightarrow>
             if b = VStr n then make_ctor ''Let'' [b, subst_value n r v, body]
             else make_ctor ''Let'' [b, subst_value n r v, subst_value n r body]
         | _ \<Rightarrow> VCtor k fs)
      else if k = lit ''App'' then
        (case fs of [f, a] \<Rightarrow> make_ctor ''App'' [subst_value n r f, subst_value n r a] | _ \<Rightarrow> VCtor k fs)
      else if k = lit ''If'' then
        (case fs of
           [c, t, e] \<Rightarrow> make_ctor ''If'' [subst_value n r c, subst_value n r t, subst_value n r e]
         | _ \<Rightarrow> VCtor k fs)
      else if k = lit ''Call'' then
        (case fs of
           [t, VList as] \<Rightarrow> make_ctor ''Call'' [t, VList (map (subst_value n r) as)]
         | _ \<Rightarrow> VCtor k fs)
      else VCtor k fs)"
| "subst_value n r (VInt i) = VInt i"
| "subst_value n r (VBool b) = VBool b"
| "subst_value n r (VStr s) = VStr s"
| "subst_value n r VUnit = VUnit"
| "subst_value n r (VTuple es) = VTuple es"
| "subst_value n r (VList es) = VList es"
| "subst_value n r (VDec d) = VDec d"
| "subst_value n r (VFloat w) = VFloat w"
| "subst_value n r (VBytes b) = VBytes b"
| "subst_value n r (VLocal l) = VLocal l"
| "subst_value n r (VFrozen m) = VFrozen m"

definition ir_subst :: "rstring \<Rightarrow> 'x val \<Rightarrow> 'x val \<Rightarrow> 'x val" where
  "ir_subst n r t = subst_value n r t"

definition ir_rename :: "rstring \<Rightarrow> rstring \<Rightarrow> 'x val \<Rightarrow> 'x val rt" where
  "ir_rename old new t =
     (case t of
        VCtor k [p, body] \<Rightarrow>
          if k = lit ''Lam''
          then Inr (make_ctor ''Lam'' [VStr new, subst_value old (make_ctor ''Var'' [VStr new]) body])
          else Inl (BadType ''ir_rename'')
      | _ \<Rightarrow> Inl (BadType ''ir_rename''))"

fun free_vars_inner :: "'x val \<Rightarrow> rstring set \<Rightarrow> rstring set" where
  "free_vars_inner (VCtor k fs) bound =
     (if k = lit ''Var'' then (case fs of [VStr m] \<Rightarrow> if m \<in> bound then {} else {m} | _ \<Rightarrow> {})
      else if k = lit ''Lam'' then (case fs of [VStr p, body] \<Rightarrow> free_vars_inner body (insert p bound) | _ \<Rightarrow> {})
      else if k = lit ''Let'' then
        (case fs of
           [VStr b, v, body] \<Rightarrow> free_vars_inner v bound \<union> free_vars_inner body (insert b bound)
         | _ \<Rightarrow> {})
      else if k = lit ''App'' then
        (case fs of [f, a] \<Rightarrow> free_vars_inner f bound \<union> free_vars_inner a bound | _ \<Rightarrow> {})
      else if k = lit ''If'' then
        (case fs of
           [c, t, e] \<Rightarrow> free_vars_inner c bound \<union> free_vars_inner t bound \<union> free_vars_inner e bound
         | _ \<Rightarrow> {})
      else if k = lit ''Call'' then
        (case fs of [t, VList as] \<Rightarrow> \<Union> (set (map (\<lambda>a. free_vars_inner a bound) as)) | _ \<Rightarrow> {})
      else {})"
| "free_vars_inner _ bound = {}"

definition ir_free_vars :: "'x val \<Rightarrow> 'x val" where
  "ir_free_vars v = VList (map VStr (sorted_list_of_set (free_vars_inner v {})))"

end
