(* ===== verification/IrBundle.thy ===== *)
theory IrBundle
  imports IrTerms CoreIr
begin

text \<open>
  Bundles as runtime values: \<open>value_from_bundle_05\<close> and \<open>value_to_bundle_05\<close> of \<open>src/src/runtime/ir_constructors.rs\<close>,
  which \<open>ir_read_bundle\<close> and \<open>ir_write_bundle\<close> put around the loader and the writer.
\<close>

section \<open>Hexadecimal\<close>

datatype bundle_error =
    OddHex nat
  | BadHexByte
  | HexBoundary
  | BadHashLength nat
  | BadShape string
  | BadBlocks block_error

definition bytes_to_hex :: "bytes \<Rightarrow> rstring" where
  "bytes_to_hex bs = hash256_to_hex bs"

text \<open>\<open>u8::from_str_radix\<close> of two bytes, which takes a plus sign.\<close>

definition from_str_radix2 :: "u8 \<Rightarrow> u8 \<Rightarrow> u8 option" where
  "from_str_radix2 a b =
     (if a = 0x2b then hex_nibble b
      else case hex_nibble a of
        None \<Rightarrow> None
      | Some hi \<Rightarrow> (case hex_nibble b of None \<Rightarrow> None | Some lo \<Rightarrow> Some (push_bit 4 hi OR lo)))"

text \<open>The pairs; slicing inside a character panics.\<close>

fun hex_slices :: "rstring \<Rightarrow> bundle_error + bytes" where
  "hex_slices (a # b # s) =
     (if (case s of c # _ \<Rightarrow> is_cont c | [] \<Rightarrow> False) then Inl HexBoundary
      else case from_str_radix2 a b of
        None \<Rightarrow> Inl BadHexByte
      | Some x \<Rightarrow> bindE (hex_slices s) (\<lambda>out. Inr (x # out)))"
| "hex_slices s = Inr []"

definition hex_to_bytes :: "rstring \<Rightarrow> bundle_error + bytes" where
  "hex_to_bytes s = (if length s mod 2 \<noteq> 0 then Inl (OddHex (length s)) else hex_slices s)"

definition value_hash256 :: "rstring \<Rightarrow> bundle_error + hash256" where
  "value_hash256 s = bindE (hex_to_bytes s) (\<lambda>bs. if length bs = 32 then Inr bs else Inl (BadHashLength (length s)))"

section \<open>From a bundle\<close>

definition ref_value :: "node_ref \<Rightarrow> 'x val" where
  "ref_value r = (case r of Pool i \<Rightarrow> make_ctor ''PoolRef'' [VInt (uint i)] | Node i \<Rightarrow> make_ctor ''NodeRef'' [VInt (uint i)])"

definition entry_value :: "pool_entry \<Rightarrow> 'x val" where
  "entry_value e = VTuple [VStr (hash256_to_hex (def_hash e)), VStr (bytes_to_hex (payload e))]"

definition node_value :: "node \<Rightarrow> 'x val" where
  "node_value n =
     (case n of
        CCall ident rs name \<Rightarrow> make_ctor ''CCall'' [VStr (hash256_to_hex ident), VStr name, VList (map ref_value rs)]
      | CIf c t e \<Rightarrow> make_ctor ''CIf'' [ref_value c, ref_value t, ref_value e]
      | CDeterminate \<Rightarrow> make_ctor ''CDeterminate'' []
      | CBlock \<Rightarrow> make_ctor ''CBlock'' []
      | CEnd v \<Rightarrow> make_ctor ''CEnd'' [ref_value v])"

definition value_from_bundle_05 :: "core_bundle \<Rightarrow> 'x val" where
  "value_from_bundle_05 B =
     make_ctor ''Bundle05''
       [VList (map entry_value (constant_pool B)), VList (map node_value (nodes B)), ref_value (result B)]"

section \<open>To a bundle\<close>

text \<open>\<open>*i as u32\<close> keeps the low 32 bits.\<close>

definition parse_nr :: "'x val \<Rightarrow> bundle_error + node_ref" where
  "parse_nr v =
     (case v of
        VCtor k [VInt i] \<Rightarrow>
          if k = lit ''PoolRef'' then Inr (Pool (word_of_int i))
          else if k = lit ''NodeRef'' then Inr (Node (word_of_int i))
          else Inl (BadShape ''noderef'')
      | _ \<Rightarrow> Inl (BadShape ''noderef''))"

text \<open>\<open>map(f).collect::<Result<Vec<_>, _>>()\<close>\<close>

fun collect :: "('a \<Rightarrow> 'e + 'b) \<Rightarrow> 'a list \<Rightarrow> 'e + 'b list" where
  "collect f [] = Inr []"
| "collect f (x # xs) = bindE (f x) (\<lambda>y. bindE (collect f xs) (\<lambda>ys. Inr (y # ys)))"

definition value_entry :: "'x val \<Rightarrow> bundle_error + pool_entry" where
  "value_entry v =
     (case v of
        VTuple [a, b] \<Rightarrow>
          bindE (case a of VStr s \<Rightarrow> value_hash256 s | _ \<Rightarrow> Inl (BadShape ''def_hash'')) (\<lambda>h.
          bindE (case b of VStr s \<Rightarrow> hex_to_bytes s | _ \<Rightarrow> Inl (BadShape ''payload'')) (\<lambda>p.
            Inr \<lparr>def_hash = h, payload = p\<rparr>))
      | _ \<Rightarrow> Inl (BadShape ''pool entry''))"

definition value_node :: "'x val \<Rightarrow> bundle_error + node" where
  "value_node v =
     (case v of
        VCtor k fs \<Rightarrow>
          if k = lit ''CCall'' then
            (case fs of
               [VStr h, VStr name, VList rs] \<Rightarrow>
                 bindE (value_hash256 h) (\<lambda>ident. bindE (collect parse_nr rs) (\<lambda>rs. Inr (CCall ident rs name)))
             | _ \<Rightarrow> Inl (BadShape ''node''))
          else if k = lit ''CIf'' then
            (case fs of
               [c, t, e] \<Rightarrow>
                 bindE (parse_nr c) (\<lambda>c. bindE (parse_nr t) (\<lambda>t. bindE (parse_nr e) (\<lambda>e. Inr (CIf c t e))))
             | _ \<Rightarrow> Inl (BadShape ''node''))
          else if k = lit ''CDeterminate'' then (if fs = [] then Inr CDeterminate else Inl (BadShape ''node''))
          else if k = lit ''CBlock'' then (if fs = [] then Inr CBlock else Inl (BadShape ''node''))
          else if k = lit ''CEnd'' then
            (case fs of [x] \<Rightarrow> bindE (parse_nr x) (\<lambda>x. Inr (CEnd x)) | _ \<Rightarrow> Inl (BadShape ''node''))
          else Inl (BadShape ''node'')
      | _ \<Rightarrow> Inl (BadShape ''node''))"

definition value_to_bundle_05 :: "(bytes \<Rightarrow> hash256) \<Rightarrow> 'x val \<Rightarrow> bundle_error + core_bundle" where
  "value_to_bundle_05 sha v =
     (case v of
        VCtor k [VList p, VList n, r] \<Rightarrow>
          if k = lit ''Bundle05'' then
            bindE (collect value_entry p) (\<lambda>pool.
            bindE (collect value_node n) (\<lambda>ns.
            bindE (parse_nr r) (\<lambda>res.
              let B = \<lparr>version = ''0.6'', constant_pool = pool, nodes = ns, result = res\<rparr> in
              case verify_blocks sha B of Inl e \<Rightarrow> Inl (BadBlocks e) | Inr _ \<Rightarrow> Inr B)))
          else Inl (BadShape ''Bundle05'')
      | _ \<Rightarrow> Inl (BadShape ''Bundle05''))"

text \<open>The file around the value: \<open>read_file\<close> gives the bytes of a path, and what is written is the result.\<close>

definition ir_read_bundle :: "(bytes \<Rightarrow> hash256) \<Rightarrow> (rstring \<Rightarrow> bytes option) \<Rightarrow> rstring \<Rightarrow> 'x val rt" where
  "ir_read_bundle sha read_file path =
     (case read_file path of
        None \<Rightarrow> Inl (BadTerm ''ir_read_bundle'')
      | Some bs \<Rightarrow> (case parse_axbi sha bs of Inl _ \<Rightarrow> Inl (BadTerm ''ir_read_bundle'') | Inr B \<Rightarrow> Inr (value_from_bundle_05 B)))"

definition ir_write_bundle :: "(bytes \<Rightarrow> hash256) \<Rightarrow> 'x val \<Rightarrow> bytes rt" where
  "ir_write_bundle sha v =
     (case value_to_bundle_05 sha v of Inl _ \<Rightarrow> Inl (BadTerm ''ir_write_bundle'') | Inr B \<Rightarrow> Inr (serialize_axbi B))"

section \<open>Round trip\<close>

lemma hex_digit_plain:
  assumes "n < 16"
  shows "hex_digit n \<noteq> 0x2b" "\<not> is_cont (hex_digit n)"
proof -
  have "unat (hex_digit n) = (if n < 10 then 48 + n else 87 + n)"
    using assms by (simp only: hex_digit_def unat_of_nat_8 split: if_split) simp
  then show "hex_digit n \<noteq> 0x2b" "\<not> is_cont (hex_digit n)" using assms by (auto simp: is_cont_def split: if_splits)
qed

lemma hex_slices_hex: "hex_slices (hash256_to_hex bs) = Inr bs"
proof (induction bs)
  case (Cons b bs)
  have b: "unat b div 16 < 16" "unat b mod 16 < 16" using unat_bound [of b] by simp_all
  have "\<not> (case hash256_to_hex bs of c # _ \<Rightarrow> is_cont c | [] \<Rightarrow> False)"
  proof (cases bs)
    case (Cons c cs)
    have "unat c div 16 < 16" using unat_bound [of c] by simp
    then show ?thesis by (simp add: Cons hash256_to_hex_def hex_digit_plain)
  qed (simp add: hash256_to_hex_def)
  then show ?case using Cons.IH b
    by (simp add: hash256_to_hex_def from_str_radix2_def hex_digit_plain hex_nibble_digit byte_of_nibbles)
qed (simp add: hash256_to_hex_def)

lemma hex_to_bytes_hex: "hex_to_bytes (hash256_to_hex bs) = Inr bs"
  by (simp add: hex_to_bytes_def hash256_to_hex_length hex_slices_hex)

lemma parse_nr_ref: "parse_nr (ref_value r) = Inr r"
  by (cases r) (simp_all add: ref_value_def parse_nr_def make_ctor_def lit_inject)

lemma collect_map: "(\<And>x. x \<in> set xs \<Longrightarrow> f (g x) = Inr x) \<Longrightarrow> collect f (map g xs) = Inr xs"
  by (induction xs) simp_all

lemma value_entry_entry: "length (def_hash e) = 32 \<Longrightarrow> value_entry (entry_value e) = Inr e"
  by (simp add: value_entry_def entry_value_def value_hash256_def bytes_to_hex_def hex_to_bytes_hex)

lemma value_node_node: "node_ok pc i n \<Longrightarrow> value_node (node_value n) = Inr n"
  by (cases n) (simp_all add: value_node_def node_value_def make_ctor_def lit_inject value_hash256_def hex_to_bytes_hex
      collect_map parse_nr_ref)

lemma value_bundle_roundtrip:
  assumes ok: "bundle_ok B" and v: "verify_blocks sha B = Inr bl"
  shows "value_to_bundle_05 sha (value_from_bundle_05 B :: 'x val) = Inr B"
proof -
  have "collect value_entry (map entry_value (constant_pool B) :: 'x val list) = Inr (constant_pool B)"
    using ok by (intro collect_map value_entry_entry) (auto simp: bundle_ok_def entry_ok_def list_all_iff)
  moreover have "collect value_node (map node_value (nodes B) :: 'x val list) = Inr (nodes B)"
    using ok by (intro collect_map) (metis bundle_ok_def in_set_conv_nth value_node_node)
  moreover have "\<lparr>version = ''0.6'', constant_pool = constant_pool B, nodes = nodes B, result = result B\<rparr> = B"
    using ok by (simp add: bundle_ok_def)
  ultimately show ?thesis using v
    by (simp add: value_to_bundle_05_def value_from_bundle_05_def make_ctor_def parse_nr_ref Let_def del: bindE_eq_Inr)
qed

text \<open>
  C39. Reading a bundle into a value and writing that value gives the file back byte for byte: whatever file of at most
  4 GiB \<open>ir_read_bundle\<close> accepts, \<open>ir_write_bundle\<close> accepts the value it returned and writes the same bytes.
\<close>

theorem bundle_value_roundtrip:
  assumes "ir_read_bundle sha read_file path = Inr (v :: 'x val)" "read_file path = Some bs" "length bs \<le> 2 ^ 32"
  shows "ir_write_bundle sha v = Inr bs"
proof -
  obtain B where B: "parse_axbi sha bs = Inr B" "v = value_from_bundle_05 B"
    using assms(1,2) by (auto simp: ir_read_bundle_def split: sum.splits)
  note p = parse_axbi_InrD [OF B(1)]
  have "length (drop 6 bs) \<le> 2 ^ 32" using assms(3) by simp
  with serialize_deserialize p obtain bl where b: "bundle_ok B" "verify_blocks sha B = Inr bl" "serialize_canonical B = drop 6 bs"
    by blast
  have "serialize_axbi B = AXBI_MAGIC @ [0, 6] @ drop 6 bs" by (simp add: serialize_axbi_def b)
  also have "\<dots> = bs" using p by simp
  finally show ?thesis using value_bundle_roundtrip [OF b(1,2), where 'x = 'x] by (simp add: ir_write_bundle_def B(2))
qed

theorem bundle_value_roundtrip_witness:
  "ir_write_bundle demo_sha (value_from_bundle_05 sample_bundle :: unit val) = Inr (serialize_axbi sample_bundle)"
proof (rule bundle_value_roundtrip [where path = "[]" and read_file = "\<lambda>_. Some (serialize_axbi sample_bundle)"])
  have "parse_axbi demo_sha (serialize_axbi sample_bundle) = Inr sample_bundle"
    unfolding serialize_axbi_def parse_axbi_header by (rule deserialize_serialize [OF sample_ok sample_verifies])
  then show "ir_read_bundle demo_sha (\<lambda>_. Some (serialize_axbi sample_bundle)) [] = Inr (value_from_bundle_05 sample_bundle :: unit val)"
    by (simp add: ir_read_bundle_def)
  have "length (serialize_axbi sample_bundle) = 170" by code_simp
  then show "length (serialize_axbi sample_bundle) \<le> 2 ^ 32" by simp
qed simp

text \<open>The converse fails: a value may refer outside the pool, and what is written for it is refused when read.\<close>

lemma written_bundle_refused:
  "ir_write_bundle demo_sha (VCtor (lit ''Bundle05'') [VList [], VList [], VCtor (lit ''PoolRef'') [VInt 5]] :: unit val) =
     Inr (AXBI_MAGIC @ [0, 6, 0, 0, 11])"
  "parse_axbi demo_sha (AXBI_MAGIC @ [0, 6, 0, 0, 11]) = Inl (PoolOutOfRange 5 0)"
  by code_simp+

end
