(* ===== verification/IrEval.thy ===== *)
theory IrEval
  imports IrTerms RtStr
begin

text \<open>
  The evaluator of \<open>src/src/runtime/ir_eval.rs\<close>: call by value, with substitution. Evaluation need not end, so it has fuel:
  \<open>None\<close> is running out of it, and with more fuel the result stays (\<open>eval_more\<close>). The builtins that read or write the
  world (console, files, terminal, process, write benchmarks) are a parameter of the dispatch table.
\<close>

type_synonym 'x prim = "'x val \<Rightarrow> 'x val rt"

section \<open>Adapters\<close>

text \<open>The shapes of arguments the table's adapters unpack.\<close>

definition int2_w :: "string \<Rightarrow> (int \<Rightarrow> int \<Rightarrow> 'x val rt) \<Rightarrow> 'x prim" where
  "int2_w f g v =
     (case v of
        VTuple (a # b # _) \<Rightarrow>
          (case a of VInt x \<Rightarrow> (case b of VInt y \<Rightarrow> g x y | _ \<Rightarrow> Inl (BadType f)) | _ \<Rightarrow> Inl (BadType f))
      | _ \<Rightarrow> Inl (BadType f))"

definition int1_w :: "string \<Rightarrow> (int \<Rightarrow> 'x val rt) \<Rightarrow> 'x prim" where
  "int1_w f g v = (case v of VInt x \<Rightarrow> g x | _ \<Rightarrow> Inl (BadType f))"

definition str1_w :: "string \<Rightarrow> (rstring \<Rightarrow> 'x val rt) \<Rightarrow> 'x prim" where
  "str1_w f g v = (case v of VStr s \<Rightarrow> g s | _ \<Rightarrow> Inl (BadType f))"

definition str2_w :: "string \<Rightarrow> (rstring \<Rightarrow> rstring \<Rightarrow> 'x val rt) \<Rightarrow> 'x prim" where
  "str2_w f g v =
     (case v of
        VTuple (a # b # _) \<Rightarrow>
          (case a of VStr x \<Rightarrow> (case b of VStr y \<Rightarrow> g x y | _ \<Rightarrow> Inl (BadType f)) | _ \<Rightarrow> Inl (BadType f))
      | _ \<Rightarrow> Inl (BadType f))"

definition str_int_w :: "string \<Rightarrow> (rstring \<Rightarrow> int \<Rightarrow> 'x val rt) \<Rightarrow> 'x prim" where
  "str_int_w f g v =
     (case v of
        VTuple (a # b # _) \<Rightarrow>
          (case a of VStr x \<Rightarrow> (case b of VInt y \<Rightarrow> g x y | _ \<Rightarrow> Inl (BadType f)) | _ \<Rightarrow> Inl (BadType f))
      | _ \<Rightarrow> Inl (BadType f))"

definition val_int_w :: "string \<Rightarrow> ('x val \<Rightarrow> int \<Rightarrow> 'x val rt) \<Rightarrow> 'x prim" where
  "val_int_w f g v =
     (case v of
        VTuple (a # b # _) \<Rightarrow> (case b of VInt i \<Rightarrow> g a i | _ \<Rightarrow> Inl (BadType f))
      | _ \<Rightarrow> Inl (BadType f))"

definition val2_w :: "string \<Rightarrow> ('x val \<Rightarrow> 'x val \<Rightarrow> 'x val rt) \<Rightarrow> 'x prim" where
  "val2_w f g v = (case v of VTuple (a # b # _) \<Rightarrow> g a b | _ \<Rightarrow> Inl (BadType f))"

definition int_add_w :: "'x prim" where
  "int_add_w = int2_w ''int_add'' int_add"

definition int_sub_w :: "'x prim" where
  "int_sub_w = int2_w ''int_sub'' int_sub"

definition int_mul_w :: "'x prim" where
  "int_mul_w = int2_w ''int_mul'' int_mul"

definition int_div_w :: "'x prim" where
  "int_div_w = int2_w ''int_div'' int_div"

definition int_div_checked_w :: "'x prim" where
  "int_div_checked_w = int2_w ''int_div_checked'' int_div_checked"

definition int_mod_w :: "'x prim" where
  "int_mod_w = int2_w ''int_mod'' int_mod"

definition int_lt_w :: "'x prim" where
  "int_lt_w = int2_w ''int_lt'' (\<lambda>x y. Inr (int_lt x y))"

definition int_lte_w :: "'x prim" where
  "int_lte_w = int2_w ''int_lte'' (\<lambda>x y. Inr (int_lte x y))"

definition int_gt_w :: "'x prim" where
  "int_gt_w = int2_w ''int_gt'' (\<lambda>x y. Inr (int_gt x y))"

definition int_gte_w :: "'x prim" where
  "int_gte_w = int2_w ''int_gte'' (\<lambda>x y. Inr (int_gte x y))"

definition int_to_str_w :: "'x prim" where
  "int_to_str_w = int1_w ''int_to_str'' (\<lambda>n. Inr (int_to_str n))"

definition chr_w :: "'x prim" where
  "chr_w = int1_w ''chr'' (\<lambda>n. Inr (chr n))"

definition str_to_int_w :: "'x prim" where
  "str_to_int_w = str1_w ''str_to_int'' str_to_int"

definition str_len_w :: "'x prim" where
  "str_len_w = str1_w ''str_len'' (\<lambda>s. Inr (str_len s))"

definition str_trim_w :: "'x prim" where
  "str_trim_w = str1_w ''str_trim'' (\<lambda>s. Inr (str_trim s))"

definition str_concat_w :: "'x prim" where
  "str_concat_w = str2_w ''str_concat'' (\<lambda>a b. Inr (str_concat a b))"

definition str_split_w :: "'x prim" where
  "str_split_w = str2_w ''str_split'' (\<lambda>a b. Inr (str_split a b))"

definition str_starts_with_w :: "'x prim" where
  "str_starts_with_w = str2_w ''str_starts_with'' (\<lambda>a b. Inr (str_starts_with a b))"

definition str_ends_with_w :: "'x prim" where
  "str_ends_with_w = str2_w ''str_ends_with'' (\<lambda>a b. Inr (str_ends_with a b))"

definition str_contains_w :: "'x prim" where
  "str_contains_w = str2_w ''str_contains'' (\<lambda>a b. Inr (str_contains a b))"

definition str_index_of_w :: "'x prim" where
  "str_index_of_w = str2_w ''str_index_of'' (\<lambda>a b. Inr (str_index_of a b))"

definition str_char_at_w :: "'x prim" where
  "str_char_at_w = str_int_w ''str_char_at'' (\<lambda>s i. Inr (str_char_at s i))"

definition str_char_w :: "'x prim" where
  "str_char_w = str_int_w ''str_char'' str_char"

definition str_char_code_w :: "'x prim" where
  "str_char_code_w = str_int_w ''str_char_code'' str_char_code"

definition list_get_w :: "'x prim" where
  "list_get_w = val_int_w ''list_get'' list_get"

definition tuple_field_w :: "'x prim" where
  "tuple_field_w = val_int_w ''tuple_field'' tuple_field"

definition list_get_at_w :: "'x prim" where
  "list_get_at_w = val_int_w ''list_get_at'' list_get_at"

definition ctor_field_w :: "'x prim" where
  "ctor_field_w = val_int_w ''ctor_field'' ctor_field"

definition list_append_w :: "'x prim" where
  "list_append_w = val2_w ''list_append'' list_append"

definition list_concat_w :: "'x prim" where
  "list_concat_w = val2_w ''list_concat'' list_concat"

definition list_cons_w :: "'x prim" where
  "list_cons_w = val2_w ''list_cons'' (\<lambda>a b. Inr (list_cons a b))"

definition value_eq_w :: "('x \<Rightarrow> 'x \<Rightarrow> bool) \<Rightarrow> 'x prim" where
  "value_eq_w xeq = val2_w ''value_eq'' (\<lambda>a b. Inr (value_eq xeq a b))"

definition bool_and_w :: "('x \<Rightarrow> bool) \<Rightarrow> 'x prim" where
  "bool_and_w dz = val2_w ''bool_and'' (\<lambda>a b. Inr (bool_and dz a b))"

definition bool_or_w :: "('x \<Rightarrow> bool) \<Rightarrow> 'x prim" where
  "bool_or_w dz = val2_w ''bool_or'' (\<lambda>a b. Inr (bool_or dz a b))"

definition str_slice_w :: "'x prim" where
  "str_slice_w v =
     (case v of
        VTuple (VStr s # VInt a # VInt b # _) \<Rightarrow> str_slice s a b
      | _ \<Rightarrow> Inl (BadType ''str_slice''))"

definition list_str_len_lte_if_some_w :: "'x prim" where
  "list_str_len_lte_if_some_w v =
     (case v of
        VTuple (l # VInt a # VInt b # _) \<Rightarrow> list_str_len_lte_if_some l a b
      | _ \<Rightarrow> Inl (BadType ''list_str_len_lte_if_some''))"

section \<open>The dispatch table\<close>

definition pure_table :: "('x \<Rightarrow> bool) \<Rightarrow> ('x \<Rightarrow> 'x \<Rightarrow> bool) \<Rightarrow> (string \<times> 'x prim) list" where
  "pure_table dz xeq =
     [(''int_add'', int_add_w), (''int_sub'', int_sub_w), (''int_mul'', int_mul_w), (''int_div'', int_div_w),
      (''int_div_checked'', int_div_checked_w), (''int_mod'', int_mod_w), (''int_to_str'', int_to_str_w),
      (''str_to_int'', str_to_int_w), (''int_lt'', int_lt_w), (''int_lte'', int_lte_w), (''int_gt'', int_gt_w),
      (''int_gte'', int_gte_w), (''value_eq'', value_eq_w xeq),
      (''bool_and'', bool_and_w dz), (''bool_or'', bool_or_w dz), (''bool_not'', \<lambda>v. Inr (bool_not dz v)),
      (''str_len'', str_len_w), (''str_concat'', str_concat_w), (''str_char'', str_char_w), (''str_char_at'', str_char_at_w),
      (''str_char_code'', str_char_code_w), (''str_slice'', str_slice_w), (''str_split'', str_split_w),
      (''str_starts_with'', str_starts_with_w), (''str_ends_with'', str_ends_with_w), (''str_trim'', str_trim_w),
      (''str_contains'', str_contains_w), (''str_index_of'', str_index_of_w), (''chr'', chr_w),
      (''list_nil'', \<lambda>v. Inr (list_nil v)), (''list_cons'', list_cons_w), (''list_len'', list_len), (''text_list_len'', list_len),
      (''list_get'', list_get_w), (''list_get_at'', list_get_at_w), (''list_str_len_lte_if_some'', list_str_len_lte_if_some_w),
      (''list_append'', list_append_w), (''list_concat'', list_concat_w), (''list_reverse'', list_reverse),
      (''list_head'', list_head), (''list_tail'', list_tail), (''list_is_empty'', list_is_empty),
      (''text_list_is_empty'', list_is_empty),
      (''tuple_field'', tuple_field_w), (''ctor_field'', ctor_field_w),
      (''option_none'', \<lambda>v. Inr (option_none_fn v)), (''option_some'', \<lambda>v. Inr (option_some v)),
      (''option_is_none'', \<lambda>v. Inr (option_is_none v)), (''option_is_some'', \<lambda>v. Inr (option_is_some v)),
      (''option_unwrap'', option_unwrap),
      (''ir_get_kind'', ir_get_kind), (''ir_get_name'', ir_get_name), (''ir_get_int_val'', ir_get_int_val),
      (''ir_get_fn'', ir_get_fn), (''ir_get_arg'', ir_get_arg), (''ir_get_body'', ir_get_body),
      (''ir_get_value'', ir_get_value), (''ir_get_cond'', ir_get_cond), (''ir_get_then'', ir_get_then),
      (''ir_get_else'', ir_get_else)]"

definition dispatch_table ::
  "('x \<Rightarrow> bool) \<Rightarrow> ('x \<Rightarrow> 'x \<Rightarrow> bool) \<Rightarrow> (rstring \<Rightarrow> 'x prim option) \<Rightarrow> rstring \<Rightarrow> 'x prim option" where
  "dispatch_table dz xeq world name =
     (case map_of (map (map_prod lit id) (pure_table dz xeq)) name of Some f \<Rightarrow> Some f | None \<Rightarrow> world name)"

section \<open>Evaluation\<close>

definition bindR :: "'a rt option \<Rightarrow> ('a \<Rightarrow> 'b rt option) \<Rightarrow> 'b rt option" where
  "bindR m f = (case m of None \<Rightarrow> None | Some (Inl e) \<Rightarrow> Some (Inl e) | Some (Inr x) \<Rightarrow> f x)"

fun eval_args :: "('x val \<Rightarrow> 'x val rt option) \<Rightarrow> 'x val list \<Rightarrow> 'x val list rt option" where
  "eval_args ev [] = Some (Inr [])"
| "eval_args ev (a # as) = bindR (ev a) (\<lambda>v. bindR (eval_args ev as) (\<lambda>vs. Some (Inr (v # vs))))"

text \<open>\<open>fields.remove(0)\<close>, one after the other.\<close>

definition field :: "'x val list \<Rightarrow> nat \<Rightarrow> 'x val rt option" where
  "field fs i = Some (nth_checked (OutOfRange ''remove'') fs (int i))"

definition text_of :: "'x val \<Rightarrow> rstring rt option" where
  "text_of v = Some (case v of VStr s \<Rightarrow> Inr s | _ \<Rightarrow> Inl (BadTerm ''not Str''))"

definition list_of :: "'x val \<Rightarrow> 'x val list rt option" where
  "list_of v = Some (case v of VList es \<Rightarrow> Inr es | _ \<Rightarrow> Inl (BadTerm ''not List''))"

definition pack_args :: "'x val list \<Rightarrow> 'x val" where
  "pack_args vs = (case vs of [] \<Rightarrow> VUnit | [v] \<Rightarrow> v | _ \<Rightarrow> VTuple vs)"

text \<open>\<open>apply\<close>, given the evaluator.\<close>

definition apply_with :: "('x val \<Rightarrow> 'x val rt option) \<Rightarrow> 'x val \<Rightarrow> 'x val \<Rightarrow> 'x val rt option" where
  "apply_with ev f a =
     (case f of
        VCtor k fs \<Rightarrow>
          if k = lit ''Lam'' then
            bindR (field fs 0) (\<lambda>p. bindR (text_of p) (\<lambda>p. bindR (field fs 1) (\<lambda>body. ev (subst_value p a body))))
          else Some (Inl (BadTerm ''expected Lam''))
      | _ \<Rightarrow> Some (Inl (BadTerm ''expected Lam'')))"

text \<open>The body of \<open>eval\<close>, given the evaluator for the calls it makes.\<close>

definition eval_with ::
  "('x \<Rightarrow> bool) \<Rightarrow> (rstring \<Rightarrow> 'x prim option) \<Rightarrow> ('x val \<Rightarrow> 'x val rt option) \<Rightarrow> 'x val \<Rightarrow> 'x val rt option" where
  "eval_with dz tbl ev t =
     (case t of
        VCtor kind fs \<Rightarrow>
          if kind = lit ''IntLit'' then field fs 0
          else if kind = lit ''BoolLit'' then field fs 0
          else if kind = lit ''UnitLit'' then Some (Inr VUnit)
          else if kind = lit ''Var'' then
            Some (Inl (UnboundVariable (case fs of VStr h # _ \<Rightarrow> h | _ \<Rightarrow> lit ''<unknown>'')))
          else if kind = lit ''Lam'' then Some (Inr t)
          else if kind = lit ''Let'' then
            bindR (field fs 0) (\<lambda>n. bindR (text_of n) (\<lambda>n. bindR (field fs 1) (\<lambda>v. bindR (ev v) (\<lambda>v.
              bindR (field fs 2) (\<lambda>body. ev (subst_value n v body))))))
          else if kind = lit ''If'' then
            bindR (field fs 0) (\<lambda>c. bindR (ev c) (\<lambda>c. bindR (field fs 1) (\<lambda>th. bindR (field fs 2) (\<lambda>el.
              if truthy dz c then ev th else ev el))))
          else if kind = lit ''App'' then
            bindR (field fs 0) (\<lambda>f. bindR (ev f) (\<lambda>f. bindR (field fs 1) (\<lambda>a. bindR (ev a) (\<lambda>a. apply_with ev f a))))
          else if kind = lit ''Call'' then
            bindR (field fs 0) (\<lambda>g. bindR (text_of g) (\<lambda>g. bindR (field fs 1) (\<lambda>l. bindR (list_of l) (\<lambda>l.
              bindR (eval_args ev l) (\<lambda>vs.
                case tbl g of None \<Rightarrow> Some (Inl (UnknownFunction g)) | Some f \<Rightarrow> Some (f (pack_args vs)))))))
          else Some (Inr t)
      | _ \<Rightarrow> Some (Inr t))"

fun eval :: "('x \<Rightarrow> bool) \<Rightarrow> (rstring \<Rightarrow> 'x prim option) \<Rightarrow> nat \<Rightarrow> 'x val \<Rightarrow> 'x val rt option" where
  "eval dz tbl 0 t = None"
| "eval dz tbl (Suc k) t = eval_with dz tbl (eval dz tbl k) t"

definition apply_bindings :: "'x val \<Rightarrow> 'x val \<Rightarrow> 'x val rt" where
  "apply_bindings t bindings =
     (case bindings of
        VList pairs \<Rightarrow>
          foldl (\<lambda>acc pair. bindE acc (\<lambda>t.
            case pair of
              VTuple [VStr n, v] \<Rightarrow> Inr (subst_value n v t)
            | _ \<Rightarrow> Inl (BadTerm ''binding''))) (Inr t) pairs
      | _ \<Rightarrow> Inl (BadTerm ''bindings not a List''))"

definition ir_eval :: "('x \<Rightarrow> bool) \<Rightarrow> (rstring \<Rightarrow> 'x prim option) \<Rightarrow> nat \<Rightarrow> 'x val \<Rightarrow> 'x val rt option" where
  "ir_eval dz tbl k v =
     (case v of
        VTuple [t, bindings] \<Rightarrow>
          (case apply_bindings t bindings of Inl e \<Rightarrow> Some (Inl e) | Inr t \<Rightarrow> eval dz tbl k t)
      | _ \<Rightarrow> Some (Inl (BadType ''ir_eval'')))"

definition ir_apply :: "('x \<Rightarrow> bool) \<Rightarrow> (rstring \<Rightarrow> 'x prim option) \<Rightarrow> nat \<Rightarrow> 'x val \<Rightarrow> 'x val rt option" where
  "ir_apply dz tbl k v =
     (case v of VTuple [lam, a] \<Rightarrow> apply_with (eval dz tbl k) lam a | _ \<Rightarrow> Some (Inl (BadType ''ir_apply'')))"

end
