(* ===== verification/IrEvalRules.thy ===== *)
theory IrEvalRules
  imports IrEval
begin

text \<open>
  Evaluation never meets an unbound variable on a closed term, and always ends on a term without functions; fuel only
  decides whether there is an answer, never which.
\<close>

section \<open>Fuel\<close>

lemma bindR_Some: "bindR m f = Some r \<longleftrightarrow> (\<exists>e. m = Some (Inl e) \<and> r = Inl e) \<or> (\<exists>x. m = Some (Inr x) \<and> f x = Some r)"
  by (auto simp: bindR_def split: option.splits sum.splits)

lemma bindR_mono:
  assumes "bindR m f = Some r" "\<And>s. m = Some s \<Longrightarrow> m' = Some s" "\<And>x s. f x = Some s \<Longrightarrow> f' x = Some s"
  shows "bindR m' f' = Some r"
  using assms unfolding bindR_Some by blast

lemma eval_args_mono:
  assumes "eval_args ev l = Some r" "\<And>a s. ev a = Some s \<Longrightarrow> ev' a = Some s"
  shows "eval_args ev' l = Some r"
  using assms(1)
proof (induction l arbitrary: r)
  case (Cons a l)
  then show ?case using assms(2) by (auto simp: bindR_Some)
qed simp

text \<open>The kinds of terms.\<close>

lemma kind_cases:
  obtains "kind = lit ''IntLit''" | "kind = lit ''BoolLit''" | "kind = lit ''UnitLit''" | "kind = lit ''Var''" | "kind = lit ''Lam''"
  | "kind = lit ''Let''" | "kind = lit ''If''" | "kind = lit ''App''" | "kind = lit ''Call''"
  | "kind \<notin> lit ` {''IntLit'', ''BoolLit'', ''UnitLit'', ''Var'', ''Lam'', ''Let'', ''If'', ''App'', ''Call''}"
  by blast

lemma eval_with_kinds:
  "eval_with dz tbl ev (VCtor (lit ''IntLit'') fs) = field fs 0"
  "eval_with dz tbl ev (VCtor (lit ''BoolLit'') fs) = field fs 0"
  "eval_with dz tbl ev (VCtor (lit ''UnitLit'') fs) = Some (Inr VUnit)"
  "eval_with dz tbl ev (VCtor (lit ''Var'') fs) = Some (Inl (UnboundVariable (case fs of VStr h # _ \<Rightarrow> h | _ \<Rightarrow> lit ''<unknown>'')))"
  "eval_with dz tbl ev (VCtor (lit ''Lam'') fs) = Some (Inr (VCtor (lit ''Lam'') fs))"
  "eval_with dz tbl ev (VCtor (lit ''Let'') fs) =
     bindR (field fs 0) (\<lambda>n. bindR (text_of n) (\<lambda>n. bindR (field fs 1) (\<lambda>v. bindR (ev v) (\<lambda>v.
       bindR (field fs 2) (\<lambda>body. ev (subst_value n v body))))))"
  "eval_with dz tbl ev (VCtor (lit ''If'') fs) =
     bindR (field fs 0) (\<lambda>c. bindR (ev c) (\<lambda>c. bindR (field fs 1) (\<lambda>th. bindR (field fs 2) (\<lambda>el.
       if truthy dz c then ev th else ev el))))"
  "eval_with dz tbl ev (VCtor (lit ''App'') fs) =
     bindR (field fs 0) (\<lambda>f. bindR (ev f) (\<lambda>f. bindR (field fs 1) (\<lambda>a. bindR (ev a) (\<lambda>a. apply_with ev f a))))"
  "eval_with dz tbl ev (VCtor (lit ''Call'') fs) =
     bindR (field fs 0) (\<lambda>g. bindR (text_of g) (\<lambda>g. bindR (field fs 1) (\<lambda>l. bindR (list_of l) (\<lambda>l.
       bindR (eval_args ev l) (\<lambda>vs.
         case tbl g of None \<Rightarrow> Some (Inl (UnknownFunction g)) | Some f \<Rightarrow> Some (f (pack_args vs)))))))"
  "kind \<notin> lit ` {''IntLit'', ''BoolLit'', ''UnitLit'', ''Var'', ''Lam'', ''Let'', ''If'', ''App'', ''Call''} \<Longrightarrow>
     eval_with dz tbl ev (VCtor kind fs) = Some (Inr (VCtor kind fs))"
  by (simp_all add: eval_with_def lit_inject)

lemma eval_with_other: "\<nexists>k fs. t = VCtor k fs \<Longrightarrow> eval_with dz tbl ev t = Some (Inr t)"
  by (cases t) (simp_all add: eval_with_def)

lemma eval_with_mono:
  assumes r: "eval_with dz tbl ev t = Some r" and m: "\<And>a s. ev a = Some s \<Longrightarrow> ev' a = Some s"
  shows "eval_with dz tbl ev' t = Some r"
proof (cases "\<exists>k fs. t = VCtor k fs")
  case True
  then obtain k fs where t: "t = VCtor k fs" by blast
  have ap: "apply_with ev' f a = Some s" if "apply_with ev f a = Some s" for f a s
    using that m by (auto simp: apply_with_def bindR_Some split: val.splits if_splits)
  show ?thesis
  proof (cases k rule: kind_cases)
    case 6
    show ?thesis using r unfolding t 6 eval_with_kinds by (fastforce simp: bindR_Some dest: m)
  next
    case 7
    show ?thesis using r unfolding t 7 eval_with_kinds by (fastforce simp: bindR_Some dest: m split: if_splits)
  next
    case 8
    show ?thesis using r unfolding t 8 eval_with_kinds by (fastforce simp: bindR_Some dest: m ap)
  next
    case 9
    show ?thesis using r unfolding t 9 eval_with_kinds by (fastforce simp: bindR_Some dest: eval_args_mono [OF _ m])
  qed (use r t in \<open>simp_all add: eval_with_kinds\<close>)
qed (use r in \<open>simp add: eval_with_other\<close>)

lemma eval_step: "eval dz tbl k t = Some r \<Longrightarrow> eval dz tbl (Suc k) t = Some r"
proof (induction k arbitrary: t r)
  case (Suc k)
  then show ?case using eval_with_mono [of dz tbl "eval dz tbl k" t r "eval dz tbl (Suc k)"] by simp
qed simp

lemma eval_more: "k \<le> m \<Longrightarrow> eval dz tbl k t = Some r \<Longrightarrow> eval dz tbl m t = Some r"
proof (induction rule: dec_induct)
  case (step m)
  then show ?case using eval_step by blast
qed

section \<open>Scopes\<close>

text \<open>
  A term is well scoped under \<open>G\<close> if its variables are bound, by the term or in \<open>G\<close>, and its parts have the shapes the
  constructors give them; data inside a value are closed. Calls of \<open>ir_get_body\<close> and \<open>ctor_field\<close> are excluded: they
  take a body out of its binder.
\<close>

definition openers :: "rstring set" where
  "openers = {lit ''ir_get_body'', lit ''ctor_field''}"

fun scoped :: "rstring set \<Rightarrow> 'x val \<Rightarrow> bool" where
  "scoped G (VCtor k fs) =
     (if k = lit ''Var'' then (case fs of [VStr x] \<Rightarrow> x \<in> G | _ \<Rightarrow> False)
      else if k = lit ''Lam'' then (case fs of [VStr p, b] \<Rightarrow> scoped (insert p G) b | _ \<Rightarrow> False)
      else if k = lit ''Let'' then (case fs of [VStr n, v, b] \<Rightarrow> scoped G v \<and> scoped (insert n G) b | _ \<Rightarrow> False)
      else if k = lit ''If'' then (case fs of [c, t, e] \<Rightarrow> scoped G c \<and> scoped G t \<and> scoped G e | _ \<Rightarrow> False)
      else if k = lit ''App'' then (case fs of [f, a] \<Rightarrow> scoped G f \<and> scoped G a | _ \<Rightarrow> False)
      else if k = lit ''Call'' then
        (case fs of [VStr g, VList as] \<Rightarrow> g \<notin> openers \<and> list_all (scoped G) as | _ \<Rightarrow> False)
      else if k = lit ''IntLit'' then (case fs of [VInt _] \<Rightarrow> True | _ \<Rightarrow> False)
      else if k = lit ''BoolLit'' then (case fs of [VBool _] \<Rightarrow> True | _ \<Rightarrow> False)
      else list_all (scoped {}) fs)"
| "scoped G (VTuple es) = list_all (scoped {}) es"
| "scoped G (VList es) = list_all (scoped {}) es"
| "scoped G _ = True"

lemma field_shapes:
  "(case fs of [VStr x] \<Rightarrow> P1 x | _ \<Rightarrow> False) = (\<exists>x. fs = [VStr x] \<and> P1 x)"
  "(case fs of [VInt i] \<Rightarrow> True | _ \<Rightarrow> False) = (\<exists>i. fs = [VInt i])"
  "(case fs of [VBool b] \<Rightarrow> True | _ \<Rightarrow> False) = (\<exists>b. fs = [VBool b])"
  "(case fs of [VStr x, b] \<Rightarrow> P2 x b | _ \<Rightarrow> False) = (\<exists>x b. fs = [VStr x, b] \<and> P2 x b)"
  "(case fs of [VStr x, VList l] \<Rightarrow> P3 x l | _ \<Rightarrow> False) = (\<exists>x l. fs = [VStr x, VList l] \<and> P3 x l)"
  "(case fs of [f, a] \<Rightarrow> P4 f a | _ \<Rightarrow> False) = (\<exists>f a. fs = [f, a] \<and> P4 f a)"
  "(case fs of [VStr x, v, b] \<Rightarrow> P5 x v b | _ \<Rightarrow> False) = (\<exists>x v b. fs = [VStr x, v, b] \<and> P5 x v b)"
  "(case fs of [c, t, e] \<Rightarrow> P6 c t e | _ \<Rightarrow> False) = (\<exists>c t e. fs = [c, t, e] \<and> P6 c t e)"
proof -
  show "(case fs of [VStr x] \<Rightarrow> P1 x | _ \<Rightarrow> False) = (\<exists>x. fs = [VStr x] \<and> P1 x)"
    by (cases fs; cases "tl fs"; cases "hd fs"; auto)
  show "(case fs of [VInt i] \<Rightarrow> True | _ \<Rightarrow> False) = (\<exists>i. fs = [VInt i])"
    by (cases "\<exists>i. fs = [VInt i]") (auto split: list.split val.split)
  show "(case fs of [VBool b] \<Rightarrow> True | _ \<Rightarrow> False) = (\<exists>b. fs = [VBool b])"
    by (cases "\<exists>i. fs = [VBool i]") (auto split: list.split val.split)
  show "(case fs of [VStr x, b] \<Rightarrow> P2 x b | _ \<Rightarrow> False) = (\<exists>x b. fs = [VStr x, b] \<and> P2 x b)"
    by (cases fs; cases "hd fs"; cases "tl fs"; cases "tl (tl fs)"; auto)
  show "(case fs of [VStr x, VList l] \<Rightarrow> P3 x l | _ \<Rightarrow> False) = (\<exists>x l. fs = [VStr x, VList l] \<and> P3 x l)"
    by (cases fs; cases "hd fs"; cases "tl fs"; cases "tl (tl fs)"; auto split: val.split)
  show "(case fs of [f, a] \<Rightarrow> P4 f a | _ \<Rightarrow> False) = (\<exists>f a. fs = [f, a] \<and> P4 f a)"
    by (cases fs; cases "tl fs"; cases "tl (tl fs)"; auto)
  show "(case fs of [VStr x, v, b] \<Rightarrow> P5 x v b | _ \<Rightarrow> False) = (\<exists>x v b. fs = [VStr x, v, b] \<and> P5 x v b)"
    by (cases fs; cases "hd fs"; cases "tl fs"; cases "tl (tl fs)"; cases "tl (tl (tl fs))"; auto)
  show "(case fs of [c, t, e] \<Rightarrow> P6 c t e | _ \<Rightarrow> False) = (\<exists>c t e. fs = [c, t, e] \<and> P6 c t e)"
    by (cases fs; cases "tl fs"; cases "tl (tl fs)"; cases "tl (tl (tl fs))"; auto)
qed

lemma scoped_kinds [simp]:
  "scoped G (VCtor (lit ''Var'') fs) = (\<exists>x. fs = [VStr x] \<and> x \<in> G)"
  "scoped G (VCtor (lit ''Lam'') fs) = (\<exists>p b. fs = [VStr p, b] \<and> scoped (insert p G) b)"
  "scoped G (VCtor (lit ''Let'') fs) = (\<exists>n v b. fs = [VStr n, v, b] \<and> scoped G v \<and> scoped (insert n G) b)"
  "scoped G (VCtor (lit ''If'') fs) = (\<exists>c t e. fs = [c, t, e] \<and> scoped G c \<and> scoped G t \<and> scoped G e)"
  "scoped G (VCtor (lit ''App'') fs) = (\<exists>f a. fs = [f, a] \<and> scoped G f \<and> scoped G a)"
  "scoped G (VCtor (lit ''Call'') fs) = (\<exists>g l. fs = [VStr g, VList l] \<and> g \<notin> openers \<and> list_all (scoped G) l)"
  "scoped G (VCtor (lit ''IntLit'') fs) = (\<exists>i. fs = [VInt i])"
  "scoped G (VCtor (lit ''BoolLit'') fs) = (\<exists>b. fs = [VBool b])"
  "kind \<notin> lit ` {''IntLit'', ''BoolLit'', ''Var'', ''Lam'', ''Let'', ''If'', ''App'', ''Call''} \<Longrightarrow>
     scoped G (VCtor kind fs) = list_all (scoped {}) fs"
  by (simp_all add: lit_inject field_shapes)

declare scoped.simps(1) [simp del]

lemma scoped_data:
  assumes "kind \<notin> lit ` {''IntLit'', ''BoolLit'', ''UnitLit'', ''Var'', ''Lam'', ''Let'', ''If'', ''App'', ''Call''} \<or> kind = lit ''UnitLit''"
  shows "scoped G (VCtor kind fs) = list_all (scoped {}) fs"
  using assms by (intro scoped_kinds(9)) (auto simp: lit_inject)

lemma size_member: "x \<in> set xs \<Longrightarrow> size x < Suc (size_list size xs)"
  by (induction xs) auto

lemma scoped_mono: "scoped G t \<Longrightarrow> G \<subseteq> H \<Longrightarrow> scoped H t"
proof (induction t arbitrary: G H rule: measure_induct_rule [where f = size])
  case (less t)
  note IH = less.IH and sc = less.prems(1) and GH = less.prems(2)
  show ?case
  proof (cases t)
    case (VCtor k fs)
    show ?thesis
    proof (cases k rule: kind_cases)
      case 4
      then show ?thesis using sc GH VCtor by auto
    next
      case 5
      then obtain p b where f: "fs = [VStr p, b]" "scoped (insert p G) b" using sc VCtor by auto
      have "scoped (insert p H) b" using IH [of b "insert p G" "insert p H"] f VCtor GH by auto
      then show ?thesis using 5 f VCtor by simp
    next
      case 6
      then obtain n v b where f: "fs = [VStr n, v, b]" "scoped G v" "scoped (insert n G) b" using sc VCtor by auto
      have "scoped H v" "scoped (insert n H) b" using IH [of v G H] IH [of b "insert n G" "insert n H"] f VCtor GH by auto
      then show ?thesis using 6 f VCtor by simp
    next
      case 7
      then obtain c x e where f: "fs = [c, x, e]" "scoped G c" "scoped G x" "scoped G e" using sc VCtor by auto
      then show ?thesis using 7 IH [of c G H] IH [of x G H] IH [of e G H] VCtor GH by auto
    next
      case 8
      then obtain f a where f: "fs = [f, a]" "scoped G f" "scoped G a" using sc VCtor by auto
      then show ?thesis using 8 IH [of f G H] IH [of a G H] VCtor GH by auto
    next
      case 9
      then obtain g l where f: "fs = [VStr g, VList l]" "g \<notin> openers" "list_all (scoped G) l" using sc VCtor by auto
      have "scoped H a" if "a \<in> set l" for a
        using IH [of a G H] f VCtor GH size_member [OF that] that by (auto simp: list_all_iff)
      then show ?thesis using 9 f VCtor by (simp add: list_all_iff)
    qed (use sc VCtor in \<open>simp_all add: scoped_data\<close>)
  qed (use sc in simp_all)
qed

lemma scoped_subst:
  assumes r: "scoped {} r"
  shows "scoped (insert n G) t \<Longrightarrow> scoped G (subst_value n r t)"
proof (induction t arbitrary: G rule: measure_induct_rule [where f = size])
  case (less t)
  note IH = less.IH and sc = less.prems
  show ?case
  proof (cases t)
    case (VCtor k fs)
    show ?thesis
    proof (cases k rule: kind_cases)
      case 4
      then show ?thesis using sc VCtor scoped_mono [OF r, of G] by (auto simp: lit_inject)
    next
      case 5
      then obtain p b where f: "fs = [VStr p, b]" "scoped (insert p (insert n G)) b" using sc VCtor by auto
      show ?thesis
      proof (cases "p = n")
        case False
        have "scoped (insert p G) (subst_value n r b)" using IH [of b "insert p G"] f VCtor by (simp add: insert_commute)
        then show ?thesis using 5 f VCtor False by (simp add: lit_inject make_ctor_def)
      qed (use 5 f VCtor in \<open>simp add: lit_inject\<close>)
    next
      case 6
      then obtain m v b where f: "fs = [VStr m, v, b]" "scoped (insert n G) v" "scoped (insert m (insert n G)) b" using sc VCtor by auto
      have v: "scoped G (subst_value n r v)" using IH [of v G] f VCtor by simp
      show ?thesis
      proof (cases "m = n")
        case False
        have "scoped (insert m G) (subst_value n r b)" using IH [of b "insert m G"] f VCtor by (simp add: insert_commute)
        then show ?thesis using 6 f VCtor False v by (simp add: lit_inject make_ctor_def)
      qed (use 6 f VCtor v in \<open>simp add: lit_inject make_ctor_def\<close>)
    next
      case 7
      then obtain c x e where f: "fs = [c, x, e]" "scoped (insert n G) c" "scoped (insert n G) x" "scoped (insert n G) e"
        using sc VCtor by auto
      then show ?thesis using 7 IH [of c G] IH [of x G] IH [of e G] VCtor by (simp add: lit_inject make_ctor_def)
    next
      case 8
      then obtain f a where f: "fs = [f, a]" "scoped (insert n G) f" "scoped (insert n G) a" using sc VCtor by auto
      then show ?thesis using 8 IH [of f G] IH [of a G] VCtor by (simp add: lit_inject make_ctor_def)
    next
      case 9
      then obtain g l where f: "fs = [VStr g, VList l]" "g \<notin> openers" "list_all (scoped (insert n G)) l"
        using sc VCtor by auto
      have "scoped G (subst_value n r a)" if "a \<in> set l" for a
        using IH [of a G] f VCtor size_member [OF that] that by (auto simp: list_all_iff)
      then show ?thesis using 9 f VCtor by (simp add: lit_inject make_ctor_def list_all_iff)
    next
      case 10
      then have "subst_value n r t = t" using VCtor by (auto simp: lit_inject)
      then show ?thesis using sc 10 VCtor by (simp add: scoped_data)
    qed (use sc VCtor in \<open>simp_all add: lit_inject scoped_data\<close>)
  qed (use sc in simp_all)
qed

text \<open>A closed term has no free variables in the sense of \<open>ir_free_vars\<close>.\<close>

lemma scoped_free_vars: "scoped G t \<Longrightarrow> free_vars_inner t G = {}"
proof (induction t arbitrary: G rule: measure_induct_rule [where f = size])
  case (less t)
  note IH = less.IH and sc = less.prems
  show ?case
  proof (cases t)
    case (VCtor k fs)
    show ?thesis
    proof (cases k rule: kind_cases)
      case 9
      then obtain g l where f: "fs = [VStr g, VList l]" "list_all (scoped G) l" using sc VCtor by auto
      have "free_vars_inner a G = {}" if "a \<in> set l" for a
        using IH [of a G] f VCtor size_member [OF that] that by (auto simp: list_all_iff)
      then show ?thesis using 9 f VCtor by (simp add: lit_inject)
    qed (use sc VCtor IH in \<open>auto simp: lit_inject\<close>)
  qed simp_all
qed

section \<open>Builtins keep values closed\<close>

text \<open>
  A property of values that holds of a compound if and only if it holds of its parts: the builtins keep it, whatever it is.
  It is used for closed values and for values without IR terms.
\<close>

fun safe :: "('x val \<Rightarrow> bool) \<Rightarrow> 'x val rt \<Rightarrow> bool" where
  "safe P (Inl e) = (\<forall>x. e \<noteq> UnboundVariable x)"
| "safe P (Inr v) = P v"

definition keeps_values :: "('x val \<Rightarrow> bool) \<Rightarrow> 'x prim \<Rightarrow> bool" where
  "keeps_values P f \<longleftrightarrow> (\<forall>v. P v \<longrightarrow> safe P (f v))"

lemma safe_checked [simp]: "safe P (checked f i) = (i64_range i \<longrightarrow> P (VInt i))"
  by (simp add: checked_def)

lemma safe_nth_checked: "list_all P xs \<Longrightarrow> (\<forall>x. e \<noteq> UnboundVariable x) \<Longrightarrow> safe P (nth_checked e xs i)"
  by (auto simp: nth_checked_def list_all_length)

lemma safe_bindE:
  "(\<And>x. m = Inr x \<Longrightarrow> safe P (f x)) \<Longrightarrow> (\<And>e. m = Inl e \<Longrightarrow> \<forall>x. e \<noteq> UnboundVariable x) \<Longrightarrow> safe P (bindE m f)"
  by (cases m) (auto simp: bindE_def)

locale hereditary =
  fixes P :: "'x val \<Rightarrow> bool"
  assumes atoms [simp]: "P VUnit" "P (VBool b)" "P (VInt i)" "P (VStr s)"
    and compounds [simp]: "P (VTuple es) = list_all P es" "P (VList es) = list_all P es"
    and options [simp]: "P (VCtor (lit ''Some'') es) = list_all P es" "P (VCtor (lit ''None'') es) = list_all P es"
begin

lemma keeps_adapters:
  "(\<And>x y. safe P (g2 x y)) \<Longrightarrow> keeps_values P (int2_w f g2)"
  "(\<And>x. safe P (g1 x)) \<Longrightarrow> keeps_values P (int1_w f g1)"
  "(\<And>s. safe P (h1 s)) \<Longrightarrow> keeps_values P (str1_w f h1)"
  "(\<And>s t. safe P (h2 s t)) \<Longrightarrow> keeps_values P (str2_w f h2)"
  "(\<And>s i. safe P (h3 s i)) \<Longrightarrow> keeps_values P (str_int_w f h3)"
  "(\<And>v i. P v \<Longrightarrow> safe P (p1 v i)) \<Longrightarrow> keeps_values P (val_int_w f p1)"
  "(\<And>v w. P v \<Longrightarrow> P w \<Longrightarrow> safe P (p2 v w)) \<Longrightarrow> keeps_values P (val2_w f p2)"
  by (auto simp: keeps_values_def int2_w_def int1_w_def str1_w_def str2_w_def str_int_w_def val_int_w_def val2_w_def
      split: val.splits list.splits)

lemma keeps_ints:
  "keeps_values P int_add_w" "keeps_values P int_sub_w" "keeps_values P int_mul_w" "keeps_values P int_div_w"
  "keeps_values P int_div_checked_w" "keeps_values P int_mod_w" "keeps_values P int_lt_w" "keeps_values P int_lte_w"
  "keeps_values P int_gt_w" "keeps_values P int_gte_w" "keeps_values P int_to_str_w" "keeps_values P chr_w"
  unfolding int_add_w_def int_sub_w_def int_mul_w_def int_div_w_def int_div_checked_w_def int_mod_w_def int_lt_w_def
    int_lte_w_def int_gt_w_def int_gte_w_def int_to_str_w_def chr_w_def
  by (intro keeps_adapters; simp add: int_add_def int_sub_def int_mul_def int_div_def int_div_checked_def int_mod_def
      div_euclid_def rem_euclid_def int_lt_def int_lte_def int_gt_def int_gte_def int_to_str_def chr_def Let_def
      option_none_def option_some_def)+

lemma keeps_texts:
  "keeps_values P str_to_int_w" "keeps_values P str_len_w" "keeps_values P str_trim_w" "keeps_values P str_concat_w"
  "keeps_values P str_split_w" "keeps_values P str_starts_with_w" "keeps_values P str_ends_with_w"
  "keeps_values P str_contains_w" "keeps_values P str_index_of_w" "keeps_values P str_char_at_w"
  "keeps_values P str_char_w" "keeps_values P str_char_code_w"
  unfolding str_to_int_w_def str_len_w_def str_trim_w_def str_concat_w_def str_split_w_def str_starts_with_w_def
    str_ends_with_w_def str_contains_w_def str_index_of_w_def str_char_at_w_def str_char_w_def str_char_code_w_def
  by (intro keeps_adapters; simp add: str_to_int_def str_len_def str_trim_def str_concat_def str_split_def str_starts_with_def
      str_ends_with_def str_contains_def str_index_of_def str_char_at_def str_char_def str_char_code_def nth_checked_def
      option_none_def option_some_def list_all_iff bindE_def split: option.split)+

lemma keeps_pairs:
  "keeps_values P list_get_w" "keeps_values P tuple_field_w" "keeps_values P list_get_at_w" "keeps_values P list_append_w"
  "keeps_values P list_concat_w" "keeps_values P list_cons_w" "keeps_values P (value_eq_w xeq)"
  "keeps_values P (bool_and_w dz)" "keeps_values P (bool_or_w dz)"
  unfolding list_get_w_def tuple_field_w_def list_get_at_w_def list_append_w_def list_concat_w_def list_cons_w_def
    value_eq_w_def bool_and_w_def bool_or_w_def
  by (intro keeps_adapters; auto simp: list_get_def tuple_field_def list_get_at_def list_append_def list_concat_def
      list_cons_def value_eq_def bool_and_def bool_or_def option_none_def option_some_def list_all_iff
      intro!: safe_nth_checked split: val.split)+

lemma keeps_lists:
  "keeps_values P (\<lambda>v. Inr (list_nil v))" "keeps_values P list_len" "keeps_values P list_reverse" "keeps_values P list_head"
  "keeps_values P list_tail" "keeps_values P list_is_empty" "keeps_values P (\<lambda>v. Inr (bool_not dz v))"
  "keeps_values P (\<lambda>v. Inr (option_none_fn v))" "keeps_values P (\<lambda>v. Inr (option_some v))"
  "keeps_values P (\<lambda>v. Inr (option_is_none v))" "keeps_values P (\<lambda>v. Inr (option_is_some v))"
  by (auto simp: keeps_values_def list_nil_def list_len_def list_reverse_def list_head_def list_tail_def list_is_empty_def
      bool_not_def option_none_fn_def option_none_def option_some_def option_is_none_def option_is_some_def list_all_iff
      dest: list.set_sel split: val.split)

lemma keeps_unwrap: "keeps_values P option_unwrap"
  by (auto simp: keeps_values_def option_unwrap_def length_Suc_conv split: val.split list.split if_splits)

lemma keeps_three: "keeps_values P str_slice_w" "keeps_values P list_str_len_lte_if_some_w"
  by (auto simp: keeps_values_def str_slice_w_def list_str_len_lte_if_some_w_def str_slice_def list_str_len_lte_if_some_def
      split: val.split list.split prod.split option.split)

lemmas keeps = keeps_ints keeps_texts keeps_pairs keeps_lists keeps_unwrap keeps_three

text \<open>What is left are the accessors of terms.\<close>

lemma table_keeps:
  assumes "list_all (\<lambda>(n, f). n \<in> N \<or> keeps_values P f) [(''ctor_field'', ctor_field_w), (''ir_get_kind'', ir_get_kind), (''ir_get_name'', ir_get_name),
      (''ir_get_int_val'', ir_get_int_val), (''ir_get_fn'', ir_get_fn), (''ir_get_arg'', ir_get_arg), (''ir_get_body'', ir_get_body),
      (''ir_get_value'', ir_get_value), (''ir_get_cond'', ir_get_cond), (''ir_get_then'', ir_get_then),
      (''ir_get_else'', ir_get_else)]"
    and "\<And>g f. world g = Some f \<Longrightarrow> keeps_values P f" "dispatch_table dz xeq world g = Some f" "g \<notin> lit ` N"
  shows "keeps_values P f"
proof (cases "map_of (map (map_prod lit id) (pure_table dz xeq)) g")
  case (Some h)
  then obtain n where n: "(n, h) \<in> set (pure_table dz xeq)" "g = lit n" by (auto dest!: map_of_SomeD)
  have "list_all (\<lambda>(n, f). n \<in> N \<or> keeps_values P f) (pure_table dz xeq)"
    unfolding pure_table_def using assms(1) by (simp add: keeps)
  then show ?thesis using n assms(3,4) Some by (auto simp: dispatch_table_def list_all_iff)
qed (use assms(2,3) in \<open>simp add: dispatch_table_def\<close>)

end

section \<open>Closed terms\<close>

lemma scoped_option [simp]: "scoped G (VCtor (lit ''Some'') fs) = list_all (scoped {}) fs"
  "scoped G (VCtor (lit ''None'') fs) = list_all (scoped {}) fs"
  by (auto intro!: scoped_kinds(9) simp: lit_inject)

interpretation closed: hereditary "scoped {} :: 'x val \<Rightarrow> bool"
  by unfold_locales simp_all

lemma accessors_closed:
  "keeps_values (scoped {}) ir_get_kind" "keeps_values (scoped {}) ir_get_name" "keeps_values (scoped {}) ir_get_int_val"
  "keeps_values (scoped {}) ir_get_fn" "keeps_values (scoped {}) ir_get_arg" "keeps_values (scoped {}) ir_get_value"
  "keeps_values (scoped {}) ir_get_cond" "keeps_values (scoped {}) ir_get_then" "keeps_values (scoped {}) ir_get_else"
  unfolding keeps_values_def ir_get_kind_def ir_get_name_def ir_get_int_val_def ir_get_fn_def ir_get_arg_def
    ir_get_value_def ir_get_cond_def ir_get_then_def ir_get_else_def ir_get_def
  by (auto simp: expect_ctor_def nth_checked_def bindE_def split: val.split)

lemma dispatch_closed:
  assumes "\<And>g f. world g = Some f \<Longrightarrow> keeps_values (scoped {}) f" "dispatch_table dz xeq world g = Some f" "g \<notin> openers"
  shows "keeps_values (scoped {}) f"
proof (rule closed.table_keeps [where N = "{''ir_get_body'', ''ctor_field''}", OF _ assms(1,2)])
  show "g \<notin> lit ` {''ir_get_body'', ''ctor_field''}" using assms(3) by (simp add: openers_def)
qed (simp_all add: accessors_closed)

lemma pack_args_closed: "list_all (scoped {}) vs \<Longrightarrow> scoped {} (pack_args vs)"
  by (auto simp: pack_args_def split: list.split)

lemma eval_args_safe:
  assumes "eval_args ev l = Some r" "\<And>a s. a \<in> set l \<Longrightarrow> ev a = Some s \<Longrightarrow> safe (scoped {}) s"
  shows "case r of Inl e \<Rightarrow> \<forall>x. e \<noteq> UnboundVariable x | Inr vs \<Rightarrow> list_all (scoped {}) vs"
  using assms
proof (induction l arbitrary: r)
  case (Cons a l)
  obtain s where s: "ev a = Some s" using Cons.prems(1) by (auto simp: bindR_Some)
  have sf: "safe (scoped {}) s" using Cons.prems(2) [OF _ s] by simp
  show ?case
  proof (cases s)
    case (Inr v)
    obtain q where q: "eval_args ev l = Some q" using Cons.prems(1) s Inr by (auto simp: bindR_Some)
    have "case q of Inl e \<Rightarrow> \<forall>x. e \<noteq> UnboundVariable x | Inr vs \<Rightarrow> list_all (scoped {}) vs"
      by (rule Cons.IH [OF q]) (use Cons.prems(2) in auto)
    then show ?thesis using Cons.prems(1) s Inr q sf by (cases q) (auto simp: bindR_def)
  qed (use Cons.prems(1) s sf in \<open>auto simp: bindR_def\<close>)
qed simp

lemma field_nth: "field fs i = Some (if i < length fs then Inr (fs ! i) else Inl (OutOfRange ''remove''))"
  by (simp add: field_def nth_checked_def)

lemma eval_with_safe:
  assumes ev: "\<And>a s. scoped {} a \<Longrightarrow> ev a = Some s \<Longrightarrow> safe (scoped {}) s"
    and tbl: "\<And>g f. tbl g = Some f \<Longrightarrow> g \<notin> openers \<Longrightarrow> keeps_values (scoped {}) f"
    and sc: "scoped {} t" and r: "eval_with dz tbl ev t = Some r"
  shows "safe (scoped {}) r"
proof (cases "\<exists>k fs. t = VCtor k fs")
  case True
  then obtain k fs where t: "t = VCtor k fs" by blast
  show ?thesis
  proof (cases k rule: kind_cases)
    case 6
    then obtain n v b where f: "fs = [VStr n, v, b]" "scoped {} v" "scoped {n} b" using sc t by auto
    obtain s where s: "ev v = Some s" using r unfolding t 6 eval_with_kinds f(1) by (auto simp: bindR_Some field_nth text_of_def)
    show ?thesis
    proof (cases s)
      case (Inr w)
      have "ev (subst_value n w b) = Some r" using r s unfolding t 6 eval_with_kinds f(1) Inr by (simp add: bindR_def field_nth text_of_def)
      then show ?thesis using ev [OF scoped_subst [of w n "{}" b]] f(3) ev [OF f(2) s] Inr by simp
    qed (use r s ev [OF f(2) s] in \<open>auto simp: t 6 eval_with_kinds f(1) bindR_def field_nth text_of_def\<close>)
  next
    case 7
    then obtain c x e where f: "fs = [c, x, e]" "scoped {} c" "scoped {} x" "scoped {} e" using sc t by auto
    then show ?thesis using r ev unfolding t 7 eval_with_kinds by (fastforce simp: bindR_Some field_nth split: if_splits)
  next
    case 8
    then obtain f a where f: "fs = [f, a]" "scoped {} f" "scoped {} a" using sc t by auto
    have ap: "safe (scoped {}) s" if r: "apply_with ev g w = Some s" and sg: "scoped {} g" and sw: "scoped {} w" for g w s
    proof (cases "\<exists>gs. g = VCtor (lit ''Lam'') gs")
      case True
      then obtain p b where g: "g = VCtor (lit ''Lam'') [VStr p, b]" "scoped {p} b" using sg by auto
      have "ev (subst_value p w b) = Some s" using r unfolding g(1) by (simp add: apply_with_def bindR_def field_nth text_of_def)
      then show ?thesis by (rule ev [OF scoped_subst [OF sw g(2)]])
    qed (use r in \<open>auto simp: apply_with_def split: val.splits if_splits\<close>)
    obtain s where s: "ev f = Some s" using r unfolding t 8 eval_with_kinds f(1) by (auto simp: bindR_Some field_nth)
    show ?thesis
    proof (cases s)
      case (Inr g)
      obtain q where q: "ev a = Some q" using r s Inr unfolding t 8 eval_with_kinds f(1) by (auto simp: bindR_Some field_nth)
      then show ?thesis using r s Inr q ap ev [OF f(2) s] ev [OF f(3) q]
        by (cases q) (auto simp: t 8 eval_with_kinds f(1) bindR_def field_nth)
    qed (use r s ev [OF f(2) s] in \<open>auto simp: t 8 eval_with_kinds f(1) bindR_def field_nth\<close>)
  next
    case 9
    then obtain g l where f: "fs = [VStr g, VList l]" "g \<notin> openers" "list_all (scoped {}) l" using sc t by auto
    obtain q where q: "eval_args ev l = Some q" "(\<exists>e. q = Inl e \<and> r = Inl e) \<or>
        (\<exists>vs. q = Inr vs \<and> (case tbl g of None \<Rightarrow> Some (Inl (UnknownFunction g)) | Some f \<Rightarrow> Some (f (pack_args vs))) = Some r)"
      using r unfolding t 9 eval_with_kinds f(1) by (auto simp: bindR_Some field_nth text_of_def list_of_def)
    have "case q of Inl e \<Rightarrow> \<forall>x. e \<noteq> UnboundVariable x | Inr vs \<Rightarrow> list_all (scoped {}) vs"
      by (rule eval_args_safe [OF q(1)]) (use f(3) ev in \<open>auto simp: list_all_iff\<close>)
    then show ?thesis using q(2) tbl [OF _ f(2)]
      by (auto simp: keeps_values_def pack_args_closed split: option.splits)
  qed (use r sc t in \<open>auto simp: eval_with_kinds field_nth scoped_data\<close>)
qed (use r sc in \<open>auto simp: eval_with_other\<close>)

lemma eval_safe:
  assumes "\<And>g f. tbl g = Some f \<Longrightarrow> g \<notin> openers \<Longrightarrow> keeps_values (scoped {}) f"
  shows "scoped {} t \<Longrightarrow> eval dz tbl k t = Some r \<Longrightarrow> safe (scoped {}) r"
proof (induction k arbitrary: t r)
  case (Suc k)
  then show ?case using eval_with_safe [of "eval dz tbl k" tbl t dz r] assms by simp
qed simp


section \<open>Terms without functions\<close>

definition ir_kinds :: "rstring set" where
  "ir_kinds = lit ` {''IntLit'', ''BoolLit'', ''UnitLit'', ''Var'', ''Lam'', ''Let'', ''If'', ''App'', ''Call''}"

text \<open>A value with no IR term in it.\<close>

fun termless :: "'x val \<Rightarrow> bool" where
  "termless (VCtor k fs) = (k \<notin> ir_kinds \<and> list_all termless fs)"
| "termless (VTuple es) = list_all termless es"
| "termless (VList es) = list_all termless es"
| "termless _ = True"

text \<open>A term made of literals, variables, \<open>Let\<close>, \<open>If\<close>, calls and values without terms.\<close>

fun first_order :: "'x val \<Rightarrow> bool" where
  "first_order (VCtor k fs) =
     (if k = lit ''Var'' then (case fs of [VStr x] \<Rightarrow> True | _ \<Rightarrow> False)
      else if k = lit ''Let'' then (case fs of [VStr n, v, b] \<Rightarrow> first_order v \<and> first_order b | _ \<Rightarrow> False)
      else if k = lit ''If'' then (case fs of [c, t, e] \<Rightarrow> first_order c \<and> first_order t \<and> first_order e | _ \<Rightarrow> False)
      else if k = lit ''Call'' then (case fs of [VStr g, VList as] \<Rightarrow> list_all first_order as | _ \<Rightarrow> False)
      else if k = lit ''IntLit'' then (case fs of [VInt _] \<Rightarrow> True | _ \<Rightarrow> False)
      else if k = lit ''BoolLit'' then (case fs of [VBool _] \<Rightarrow> True | _ \<Rightarrow> False)
      else if k = lit ''UnitLit'' then True
      else termless (VCtor k fs))"
| "first_order v = termless v"

fun height :: "'x val \<Rightarrow> nat" where
  "height (VCtor k fs) =
     (if k = lit ''Let'' then (case fs of [n, v, b] \<Rightarrow> Suc (max (height v) (height b)) | _ \<Rightarrow> 1)
      else if k = lit ''If'' then (case fs of [c, t, e] \<Rightarrow> Suc (max (height c) (max (height t) (height e))) | _ \<Rightarrow> 1)
      else if k = lit ''Call'' then (case fs of [g, VList as] \<Rightarrow> Suc (foldr (\<lambda>a m. max (height a) m) as 0) | _ \<Rightarrow> 1)
      else 1)"
| "height _ = 1"

lemma first_order_kinds [simp]:
  "first_order (VCtor (lit ''Var'') fs) = (\<exists>x. fs = [VStr x])"
  "\<not> first_order (VCtor (lit ''Lam'') fs)"
  "first_order (VCtor (lit ''Let'') fs) = (\<exists>n v b. fs = [VStr n, v, b] \<and> first_order v \<and> first_order b)"
  "first_order (VCtor (lit ''If'') fs) = (\<exists>c t e. fs = [c, t, e] \<and> first_order c \<and> first_order t \<and> first_order e)"
  "\<not> first_order (VCtor (lit ''App'') fs)"
  "first_order (VCtor (lit ''Call'') fs) = (\<exists>g l. fs = [VStr g, VList l] \<and> list_all first_order l)"
  "first_order (VCtor (lit ''IntLit'') fs) = (\<exists>i. fs = [VInt i])"
  "first_order (VCtor (lit ''BoolLit'') fs) = (\<exists>b. fs = [VBool b])"
  "first_order (VCtor (lit ''UnitLit'') fs)"
  "kind \<notin> lit ` {''IntLit'', ''BoolLit'', ''UnitLit'', ''Var'', ''Lam'', ''Let'', ''If'', ''App'', ''Call''} \<Longrightarrow>
     first_order (VCtor kind fs) = list_all termless fs"
  by (simp_all add: lit_inject field_shapes ir_kinds_def)

declare first_order.simps(1) [simp del]

lemma height_kinds [simp]:
  "height (VCtor (lit ''Let'') [n, v, b]) = Suc (max (height v) (height b))"
  "height (VCtor (lit ''If'') [c, t, e]) = Suc (max (height c) (max (height t) (height e)))"
  "height (VCtor (lit ''Call'') [g, VList l]) = Suc (foldr (\<lambda>a m. max (height a) m) l 0)"
  "k \<notin> lit ` {''Let'', ''If'', ''Call''} \<Longrightarrow> height (VCtor k fs) = 1"
  by (simp_all add: lit_inject)

declare height.simps(1) [simp del]

lemma height_pos [simp]: "height t \<noteq> 0"
  by (cases t) (auto simp: height.simps(1) split: list.split val.split)

lemma plain_first_order: "termless v \<Longrightarrow> first_order v \<and> height v = 1"
  by (cases v) (auto simp: ir_kinds_def)

lemma foldr_height_cong:
  "(\<And>a. a \<in> set l \<Longrightarrow> height (f a) = height a) \<Longrightarrow>
     foldr (\<lambda>a m. max (height a) m) (map f l) 0 = foldr (\<lambda>a m. max (height a) m) l 0"
  by (induction l) simp_all

text \<open>Substituting a value without terms changes neither.\<close>

lemma subst_first_order:
  assumes r: "termless r"
  shows "first_order t \<Longrightarrow> first_order (subst_value n r t) \<and> height (subst_value n r t) = height t"
proof (induction t rule: measure_induct_rule [where f = size])
  case (less t)
  note IH = less.IH and fo = less.prems
  show ?case
  proof (cases t)
    case (VCtor k fs)
    show ?thesis
    proof (cases k rule: kind_cases)
      case 4
      then show ?thesis using fo VCtor plain_first_order [OF r] by (auto simp: lit_inject)
    next
      case 6
      then obtain m v b where f: "fs = [VStr m, v, b]" "first_order v" "first_order b" using fo VCtor by auto
      then show ?thesis using 6 IH [of v] IH [of b] VCtor by (simp add: lit_inject make_ctor_def)
    next
      case 7
      then obtain c x e where f: "fs = [c, x, e]" "first_order c" "first_order x" "first_order e" using fo VCtor by auto
      then show ?thesis using 7 IH [of c] IH [of x] IH [of e] VCtor by (simp add: lit_inject make_ctor_def)
    next
      case 9
      then obtain g l where f: "fs = [VStr g, VList l]" "list_all first_order l" using fo VCtor by auto
      have "first_order (subst_value n r a) \<and> height (subst_value n r a) = height a" if "a \<in> set l" for a
        using IH [of a] f VCtor size_member [OF that] that by (auto simp: list_all_iff)
      then show ?thesis using 9 f VCtor by (simp add: lit_inject make_ctor_def list_all_iff foldr_height_cong)
    next
      case 10
      then have "subst_value n r t = t" using VCtor by (auto simp: lit_inject)
      then show ?thesis using fo by simp
    qed (use fo VCtor in \<open>auto simp: lit_inject\<close>)
  qed (use fo in simp_all)
qed

interpretation termless: hereditary "termless :: 'x val \<Rightarrow> bool"
  by unfold_locales (simp_all add: ir_kinds_def lit_inject)

lemma accessors_plain:
  "keeps_values termless ctor_field_w" "keeps_values termless ir_get_kind" "keeps_values termless ir_get_name"
  "keeps_values termless ir_get_int_val" "keeps_values termless ir_get_fn" "keeps_values termless ir_get_arg"
  "keeps_values termless ir_get_body" "keeps_values termless ir_get_value" "keeps_values termless ir_get_cond"
  "keeps_values termless ir_get_then" "keeps_values termless ir_get_else"
  unfolding ctor_field_w_def
  subgoal by (rule termless.keeps_adapters) (auto simp: ctor_field_def intro!: safe_nth_checked split: val.split)
  by (auto simp: keeps_values_def ir_get_kind_def ir_get_name_def ir_get_int_val_def ir_get_fn_def ir_get_arg_def
    ir_get_body_def ir_get_value_def ir_get_cond_def ir_get_then_def ir_get_else_def ir_get_def ir_kinds_def
    expect_ctor_def bindE_def split: val.split)

lemma dispatch_plain:
  assumes "\<And>g f. world g = Some f \<Longrightarrow> keeps_values termless f" "dispatch_table dz xeq world g = Some f"
  shows "keeps_values termless f"
  by (rule termless.table_keeps [where N = "{}", OF _ assms]) (simp_all add: accessors_plain)

lemma eval_args_ends:
  assumes "\<And>a. a \<in> set l \<Longrightarrow> \<exists>r. ev a = Some r \<and> (\<forall>v. r = Inr v \<longrightarrow> termless v)"
  shows "\<exists>r. eval_args ev l = Some r \<and> (\<forall>vs. r = Inr vs \<longrightarrow> list_all termless vs)"
  using assms
proof (induction l)
  case (Cons a l)
  obtain r where r: "ev a = Some r" "\<forall>v. r = Inr v \<longrightarrow> termless v" using Cons.prems [of a] by auto
  obtain q where q: "eval_args ev l = Some q" "\<forall>vs. q = Inr vs \<longrightarrow> list_all termless vs" using Cons by auto
  show ?case using r q by (cases r; cases q) (auto simp: bindR_def)
qed simp

lemma pack_args_plain: "list_all termless vs \<Longrightarrow> termless (pack_args vs)"
  by (auto simp: pack_args_def split: list.split)

lemma height_member: "a \<in> set l \<Longrightarrow> height a \<le> foldr (\<lambda>a m. max (height a) m) l 0"
  by (induction l) auto

lemma eval_ends:
  assumes tbl: "\<And>g f. tbl g = Some f \<Longrightarrow> keeps_values termless f"
  shows "first_order t \<Longrightarrow> height t \<le> k \<Longrightarrow> \<exists>r. eval dz tbl k t = Some r \<and> (\<forall>v. r = Inr v \<longrightarrow> termless v)"
proof (induction k arbitrary: t)
  case (Suc k)
  note IH = Suc.IH and fo = Suc.prems(1) and h = Suc.prems(2)
  show ?case
  proof (cases "\<exists>c fs. t = VCtor c fs")
    case True
    then obtain c fs where t: "t = VCtor c fs" by blast
    show ?thesis
    proof (cases c rule: kind_cases)
      case 6
      then obtain n v b where f: "fs = [VStr n, v, b]" "first_order v" "first_order b" using fo t by auto
      have hk: "height v \<le> k" "height b \<le> k" using h f t 6 by simp_all
      obtain r where r: "eval dz tbl k v = Some r" "\<forall>w. r = Inr w \<longrightarrow> termless w" using IH [OF f(2) hk(1)] by blast
      show ?thesis
      proof (cases r)
        case (Inr w)
        then have "termless w" using r by simp
        then obtain q where "eval dz tbl k (subst_value n w b) = Some q" "\<forall>w. q = Inr w \<longrightarrow> termless w"
          using IH [of "subst_value n w b"] subst_first_order [OF _ f(3), of w n] hk by auto
        then show ?thesis using r Inr unfolding t 6 f(1) by (simp add: eval_with_kinds bindR_def field_nth text_of_def)
      qed (use r in \<open>simp add: t 6 f(1) eval_with_kinds bindR_def field_nth text_of_def\<close>)
    next
      case 7
      then obtain d x e where f: "fs = [d, x, e]" "first_order d" "first_order x" "first_order e" using fo t by auto
      have hk: "height d \<le> k" "height x \<le> k" "height e \<le> k" using h f t 7 by simp_all
      obtain r where r: "eval dz tbl k d = Some r" using IH [OF f(2) hk(1)] by blast
      show ?thesis using IH [OF f(3) hk(2)] IH [OF f(4) hk(3)] r unfolding t 7 f(1)
        by (cases r) (simp_all add: eval_with_kinds bindR_def field_nth)
    next
      case 9
      then obtain g l where f: "fs = [VStr g, VList l]" "list_all first_order l" using fo t by auto
      have "\<exists>r. eval dz tbl k a = Some r \<and> (\<forall>v. r = Inr v \<longrightarrow> termless v)" if "a \<in> set l" for a
        by (rule IH) (use that f t 9 h height_member [OF that] in \<open>auto simp: list_all_iff\<close>)
      then obtain q where q: "eval_args (eval dz tbl k) l = Some q" "\<forall>vs. q = Inr vs \<longrightarrow> list_all termless vs"
        using eval_args_ends [of l "eval dz tbl k"] by blast
      have "termless w" if "tbl g = Some p" "p (pack_args vs) = Inr w" "list_all termless vs" for p vs w
        using tbl [OF that(1)] that(2) pack_args_plain [OF that(3)] by (auto simp: keeps_values_def dest: spec [of _ "pack_args vs"])
      then show ?thesis using q unfolding t 9 f(1)
        by (cases q) (auto simp: eval_with_kinds bindR_def field_nth text_of_def list_of_def split: option.split)
    qed (use fo t in \<open>auto simp: eval_with_kinds field_nth ir_kinds_def\<close>)
  qed (use fo in \<open>cases t; simp add: eval_with_other\<close>)
qed simp

end
