(* ===== verification/IrClaims.thy ===== *)
theory IrClaims
  imports IrEvalRules
begin

text \<open>
  What the evaluator of \<open>src/src/runtime/ir_eval.rs\<close> promises about the programs it is given, and the two places where it
  does less than its comments say: a body taken out of its binder, and a substitution that captures.
\<close>

section \<open>Bindings\<close>

text \<open>The list of pairs \<open>ir_eval\<close> takes, in the form of its arguments.\<close>

abbreviation binding_list :: "(rstring \<times> 'x val) list \<Rightarrow> 'x val" where
  "binding_list bs \<equiv> VList (map (\<lambda>(n, v). VTuple [VStr n, v]) bs)"

lemma apply_bindings_Cons:
  "apply_bindings t (binding_list ((n, v) # bs)) = apply_bindings (subst_value n v t) (binding_list bs)"
  by (simp add: apply_bindings_def bindE_def)

lemma apply_bindings_Nil: "apply_bindings t (binding_list []) = Inr t"
  by (simp add: apply_bindings_def)


lemma apply_bindings_first_order:
  "first_order t \<Longrightarrow> list_all (termless \<circ> snd) bs \<Longrightarrow>
     \<exists>t'. apply_bindings t (binding_list bs) = Inr t' \<and> first_order t' \<and> height t' = height t"
proof (induction bs arbitrary: t)
  case (Cons b bs)
  obtain n v where b: "b = (n, v)" by fastforce
  have "termless v" using Cons.prems(2) b by simp
  then show ?case using Cons.IH [of "subst_value n v t"] subst_first_order [of v t n] Cons.prems unfolding b apply_bindings_Cons
    by auto
qed (simp add: apply_bindings_Nil del: list.map)

section \<open>Closed programs\<close>


text \<open>A program that adds one to a bound variable, through a function bound by a \<open>Let\<close>.\<close>

definition sample_world :: "rstring \<Rightarrow> unit prim option" where
  "sample_world g = (if g = lit ''io_println'' then Some (\<lambda>v. Inr VUnit) else None)"

definition sample_table :: "rstring \<Rightarrow> unit prim option" where
  "sample_table = dispatch_table (\<lambda>_. False) (=) sample_world"


lemma sample_world_keeps: "P VUnit \<Longrightarrow> sample_world g = Some f \<Longrightarrow> keeps_values P f"
  by (auto simp: sample_world_def keeps_values_def split: if_splits)


lemma bindR_simps: "bindR (Some (Inr x)) f = f x" "bindR (Some (Inl e)) f = Some (Inl e)"
  by (simp_all add: bindR_def)

lemma sample_table_names:
  "sample_table (lit ''int_add'') = Some int_add_w" "sample_table (lit ''ir_get_body'') = Some ir_get_body"
  by (simp_all add: sample_table_def dispatch_table_def pure_table_def lit_inject)

lemmas run = eval_with_kinds eval_with_other bindR_simps field_nth text_of_def list_of_def apply_with_def pack_args_def sample_table_names
  numeral_eq_Suc lit_inject make_ctor_def ir_make_let_def ir_make_lam_def ir_make_var_def ir_make_int_lit_def ir_make_app_def
  ir_make_if_def



section \<open>Programs without functions\<close>

text \<open>
  C37. Evaluation of a term without functions ends, whatever values without IR terms are bound: fuel equal to the height of the term is
  enough, more fuel gives the same result, and a value it returns has no IR term in it. Every builtin of the dispatch table
  may be called.
\<close>

theorem eval_first_order_ends:
  assumes "\<And>g f. world g = Some f \<Longrightarrow> keeps_values termless f" and "first_order t" "list_all (termless \<circ> snd) bs"
  shows "\<exists>r. (\<forall>k\<ge>height t. ir_eval dz (dispatch_table dz xeq world) k (VTuple [t, binding_list bs]) = Some r) \<and>
    (\<forall>v. r = Inr v \<longrightarrow> termless v)"
proof -
  obtain t' where t: "apply_bindings t (binding_list bs) = Inr t'" "first_order t'" "height t' = height t"
    using apply_bindings_first_order [OF assms(2,3)] by blast
  obtain r where r: "eval dz (dispatch_table dz xeq world) (height t) t' = Some r" "\<forall>v. r = Inr v \<longrightarrow> termless v"
    using eval_ends [of "dispatch_table dz xeq world" t' "height t" dz] dispatch_plain [of world dz xeq, OF assms(1)] t(2,3)
    by auto
  have "\<forall>k\<ge>height t. ir_eval dz (dispatch_table dz xeq world) k (VTuple [t, binding_list bs]) = Some r"
    using eval_more [OF _ r(1)] t(1) by (simp add: ir_eval_def)
  then show ?thesis using r(2) by blast
qed

definition sample_sum :: "unit val" where
  "sample_sum =
     ir_make_let (lit ''n'') (ir_make_int_lit 20)
       (ir_make_if (ir_make_var (lit ''b''))
         (make_ctor ''Call'' [VStr (lit ''int_add''), VList [ir_make_var (lit ''n''), ir_make_var (lit ''n'')]])
         (ir_make_int_lit 0))"

lemma sample_sum_first_order: "first_order sample_sum" "height sample_sum = 4"
  by (simp_all add: sample_sum_def ir_make_let_def ir_make_if_def ir_make_var_def ir_make_int_lit_def make_ctor_def lit_inject)

definition sample_input :: "unit val" where
  "sample_input = VTuple [sample_sum, VList [VTuple [VStr (lit ''b''), VBool True]]]"

theorem eval_first_order_ends_witness:
  "first_order sample_sum \<and> height sample_sum = 4 \<and> ir_eval (\<lambda>_. False) sample_table 4 sample_input = Some (Inr (VInt 40)) \<and>
   ir_eval (\<lambda>_. False) sample_table 1000 sample_input = Some (Inr (VInt 40))"
proof -
  have "ir_eval (\<lambda>_. False) sample_table 4 sample_input = Some (Inr (VInt 40))"
    by (simp add: ir_eval_def apply_bindings_def bindE_def sample_input_def sample_sum_def run int_add_w_def int2_w_def
        int_add_def checked_def i64_range_def)
  then show ?thesis
    using eval_first_order_ends [of sample_world sample_sum "[(lit ''b'', VBool True)]" "\<lambda>_. False" "(=)"]
      sample_sum_first_order sample_world_keeps [of termless] by (auto simp: sample_table_def sample_input_def)
qed

section \<open>Where terms are opened\<close>

text \<open>A closed program reaches an unbound variable through \<open>ir_get_body\<close>.\<close>

lemma get_body_unbound:
  "eval (\<lambda>_. False) sample_table 5
     (ir_make_let (lit ''y'')
       (make_ctor ''Call'' [VStr (lit ''ir_get_body''), VList [ir_make_lam (lit ''x'') (ir_make_var (lit ''x''))]])
       (ir_make_var (lit ''y''))) =
   Some (Inl (UnboundVariable (lit ''x'')))"
  by (simp add: run ir_get_body_def expect_ctor_def bindE_def nth_checked_def)

text \<open>The substitution is not capture avoiding: replacing \<open>x\<close> by \<open>y\<close> under a binder of \<open>y\<close> captures it.\<close>

lemma subst_captures:
  "ir_subst (lit ''x'') (ir_make_var (lit ''y'')) (ir_make_lam (lit ''y'') (ir_make_var (lit ''x'')) :: unit val) =
   ir_make_lam (lit ''y'') (ir_make_var (lit ''y''))"
  by code_simp

end
