(* ===== verification/Spec2Isabelle.thy ===== *)
theory Spec2Isabelle
  imports HmapRules FieldRules MpscRules FrameClaims SnapClaims CoreIr Payload TableRules EmitClaims DispatchRules RegistryRules SlabClaims ChunkRules Interner RtClaims RtStr IrBundle IrClaims
begin

text \<open>The Axis codegen bridge.\<close>

end
